(* ===== verification/Prelude.thy ===== *)
theory Prelude
  imports Main "HOL-Library.Word"
begin

text \<open>
  What the component theories share: the names of the machine types, results of fallible
  code, saturating arithmetic, strings and bytes, hash maps and their \<open>retain\<close>, durations
  and instants.

  \<^item> A byte buffer (\<open>&[u8]\<close>, \<open>Vec<u8>\<close>, \<open>BytesMut\<close>) is a list of 8-bit words.
  \<^item> A Rust \<open>String\<close> is its UTF-8 bytes, as an Isabelle \<open>string\<close> (a list of 8-bit characters).
  \<^item> \<open>Result<A, E>\<close> is the sum \<open>E + A\<close>; \<open>Err\<close> and \<open>Ok\<close> abbreviate \<open>Inl\<close> and \<open>Inr\<close>.
  \<^item> A \<open>HashMap\<close> is a partial function.
  \<^item> An \<open>Instant\<close> is the number of nanoseconds since an arbitrary origin, a \<open>Duration\<close> a
    number of nanoseconds; \<open>duration_max\<close> is the largest \<open>Duration\<close> the type holds.
\<close>

subsection \<open>Collections of facts\<close>

named_theorems kiro_simps \<open>characteristic equations that the component proofs rewrite with\<close>
named_theorems kiro_intros \<open>preservation facts, one per operation\<close>

subsection \<open>Types\<close>

type_synonym u8 = "8 word"
type_synonym u32 = "32 word"
type_synonym bytes = "8 word list"
type_synonym instant = nat
type_synonym duration = nat

abbreviation Err :: "'e \<Rightarrow> 'e + 'a" where "Err \<equiv> Inl"
abbreviation Ok :: "'a \<Rightarrow> 'e + 'a" where "Ok \<equiv> Inr"

text \<open>The \<open>?\<close> operator: an error is returned, a value goes on.\<close>

definition bind_ok :: "'e + 'a \<Rightarrow> ('a \<Rightarrow> 'e + 'b) \<Rightarrow> 'e + 'b" where
  "bind_ok r f = (case r of Inl e \<Rightarrow> Inl e | Inr x \<Rightarrow> f x)"

lemma bind_ok_simps [simp]: "bind_ok (Inl e) f = Inl e" "bind_ok (Inr x) f = f x"
  by (simp_all add: bind_ok_def)

lemma bind_ok_Ok_iff: "bind_ok r f = Inr y \<longleftrightarrow> (\<exists>x. r = Inr x \<and> f x = Inr y)"
  by (cases r) auto

subsection \<open>Machine arithmetic on natural numbers\<close>

definition u32_max :: nat where "u32_max = 2 ^ 32 - 1"
definition u64_max :: nat where "u64_max = 2 ^ 64 - 1"

text \<open>\<open>usize\<close> of the 64-bit targets the program is released for.\<close>

definition usize_max :: nat where "usize_max = u64_max"

definition sat_add32 :: "nat \<Rightarrow> nat \<Rightarrow> nat" where
  "sat_add32 a b = min (a + b) u32_max"

definition sat_add64 :: "nat \<Rightarrow> nat \<Rightarrow> nat" where
  "sat_add64 a b = min (a + b) u64_max"

definition sat_mul64 :: "nat \<Rightarrow> nat \<Rightarrow> nat" where
  "sat_mul64 a b = min (a * b) u64_max"

text \<open>\<open>+= 1\<close> on a \<open>u32\<close>, which wraps in a release build.\<close>

definition inc32 :: "nat \<Rightarrow> nat" where "inc32 n = (n + 1) mod 2 ^ 32"

text \<open>\<open>saturating_sub\<close> on unsigned numbers is the truncated subtraction of \<open>nat\<close>.\<close>

lemma u32_max_pos [simp]: "0 < u32_max" by (simp add: u32_max_def)
lemma u64_max_pos [simp]: "0 < u64_max" by (simp add: u64_max_def)

lemma sat_add32_bound [simp]: "sat_add32 a b \<le> u32_max" by (simp add: sat_add32_def)
lemma sat_add64_bound [simp]: "sat_add64 a b \<le> u64_max" by (simp add: sat_add64_def)
lemma sat_mul64_bound [simp]: "sat_mul64 a b \<le> u64_max" by (simp add: sat_mul64_def)

lemma sat_add64_exact: "a + b \<le> u64_max \<Longrightarrow> sat_add64 a b = a + b" by (simp add: sat_add64_def)
lemma sat_mul64_exact: "a * b \<le> u64_max \<Longrightarrow> sat_mul64 a b = a * b" by (simp add: sat_mul64_def)
lemma sat_mul64_le: "sat_mul64 a b \<le> a * b" by (simp add: sat_mul64_def)

definition clamp :: "'a::linorder \<Rightarrow> 'a \<Rightarrow> 'a \<Rightarrow> 'a" where
  "clamp lo hi x = (if x < lo then lo else if hi < x then hi else x)"

lemma clamp_ge: "lo \<le> hi \<Longrightarrow> lo \<le> clamp lo hi x" by (auto simp: clamp_def)
lemma clamp_le: "lo \<le> hi \<Longrightarrow> clamp lo hi x \<le> hi" by (auto simp: clamp_def)
lemma clamp_id: "lo \<le> x \<Longrightarrow> x \<le> hi \<Longrightarrow> clamp lo hi x = x" by (auto simp: clamp_def)
lemmas clamp_bounds = clamp_ge clamp_le

subsection \<open>Durations\<close>

definition millis :: "nat \<Rightarrow> duration" where "millis n = n * 1000000"
definition secs :: "nat \<Rightarrow> duration" where "secs n = n * 1000000000"
definition as_secs :: "duration \<Rightarrow> nat" where "as_secs d = d div 1000000000"
definition as_millis :: "duration \<Rightarrow> nat" where "as_millis d = d div 1000000"

text \<open>\<open>Duration::MAX\<close>: \<open>u64::MAX\<close> seconds and 999 999 999 nanoseconds.\<close>

definition duration_max :: duration where "duration_max = u64_max * 1000000000 + 999999999"

definition duration_sat_mul :: "duration \<Rightarrow> nat \<Rightarrow> duration" where
  "duration_sat_mul d n = min (d * n) duration_max"

lemma secs_mono: "a \<le> b \<Longrightarrow> secs a \<le> secs b" by (simp add: secs_def)
lemma millis_mono: "a \<le> b \<Longrightarrow> millis a \<le> millis b" by (simp add: millis_def)
lemma as_secs_secs [simp]: "as_secs (secs n) = n" by (simp add: as_secs_def secs_def)
lemma secs_pos [simp]: "0 < secs n \<longleftrightarrow> 0 < n" by (simp add: secs_def)
lemma secs_le_iff [simp]: "secs a \<le> secs b \<longleftrightarrow> a \<le> b" by (simp add: secs_def)
lemma secs_less_iff [simp]: "secs a < secs b \<longleftrightarrow> a < b" by (simp add: secs_def)
lemma duration_sat_mul_bound: "duration_sat_mul d n \<le> duration_max"
  by (simp add: duration_sat_mul_def)

subsection \<open>Hash maps\<close>

text \<open>\<open>HashMap::retain\<close> keeps the entries the predicate accepts.\<close>

definition retain :: "('k \<Rightarrow> 'v \<Rightarrow> bool) \<Rightarrow> ('k \<rightharpoonup> 'v) \<Rightarrow> ('k \<rightharpoonup> 'v)" where
  "retain P m = (\<lambda>k. case m k of None \<Rightarrow> None | Some v \<Rightarrow> if P k v then Some v else None)"

lemma retain_apply:
  "retain P m k = (case m k of None \<Rightarrow> None | Some v \<Rightarrow> if P k v then Some v else None)"
  by (simp add: retain_def)

lemma retain_eq_Some [simp]: "retain P m k = Some v \<longleftrightarrow> m k = Some v \<and> P k v"
  by (auto simp: retain_def split: option.splits)

lemma retain_eq_None: "retain P m k = None \<longleftrightarrow> (\<forall>v. m k = Some v \<longrightarrow> \<not> P k v)"
  by (auto simp: retain_def split: option.splits)

lemma retain_empty [simp]: "retain P Map.empty = Map.empty"
  by (simp add: retain_def fun_eq_iff)

lemma dom_retain_subset: "dom (retain P m) \<subseteq> dom m"
  by (auto simp: dom_def)

lemma finite_dom_retain [simp]: "finite (dom m) \<Longrightarrow> finite (dom (retain P m))"
  by (rule finite_subset [OF dom_retain_subset])

lemma retain_retain: "retain P (retain Q m) = retain (\<lambda>k v. P k v \<and> Q k v) m"
  by (auto simp: retain_def fun_eq_iff split: option.splits)

lemma retain_all: "(\<And>k v. m k = Some v \<Longrightarrow> P k v) \<Longrightarrow> retain P m = m"
  by (auto simp: retain_def fun_eq_iff split: option.splits)

subsection \<open>Bytes and strings\<close>

definition bytes_of_string :: "string \<Rightarrow> bytes" where
  "bytes_of_string s = map (\<lambda>c. word_of_nat (of_char c)) s"

definition string_of_bytes :: "bytes \<Rightarrow> string" where
  "string_of_bytes bs = map (\<lambda>b. char_of (unat b)) bs"

lemma of_char_nat_less: "(of_char c :: nat) < 256"
  using nat_of_char_less_256 .

lemma string_of_bytes_of_string [simp]: "string_of_bytes (bytes_of_string s) = s"
proof -
  have "char_of (unat (word_of_nat (of_char c) :: u8)) = c" for c :: char
  proof -
    have "(of_char c :: nat) < 256" by (rule of_char_nat_less)
    then show ?thesis by (simp add: unat_of_nat)
  qed
  then show ?thesis by (simp add: string_of_bytes_def bytes_of_string_def o_def)
qed

lemma length_bytes_of_string [simp]: "length (bytes_of_string s) = length s"
  by (simp add: bytes_of_string_def)

lemma length_string_of_bytes [simp]: "length (string_of_bytes bs) = length bs"
  by (simp add: string_of_bytes_def)

text \<open>
  The length of the first well-formed UTF-8 sequence of a byte list, 0 if it does not start with
  one: the table of well-formed byte sequences that \<open>std::str::from_utf8\<close> checks.
\<close>

definition utf8_cont :: "nat \<Rightarrow> bool" where
  "utf8_cont b \<longleftrightarrow> 128 \<le> b \<and> b \<le> 191"

fun utf8_len :: "nat list \<Rightarrow> nat" where
  "utf8_len [] = 0"
| "utf8_len (a # r) =
     (if a \<le> 127 then 1
      else if 194 \<le> a \<and> a \<le> 223 then
        (case r of b # _ \<Rightarrow> if utf8_cont b then 2 else 0 | _ \<Rightarrow> 0)
      else if 224 \<le> a \<and> a \<le> 239 then
        (case r of b # c # _ \<Rightarrow>
           if utf8_cont b \<and> utf8_cont c \<and> (a = 224 \<longrightarrow> 160 \<le> b) \<and> (a = 237 \<longrightarrow> b \<le> 159)
           then 3 else 0
         | _ \<Rightarrow> 0)
      else if 240 \<le> a \<and> a \<le> 244 then
        (case r of b # c # d # _ \<Rightarrow>
           if utf8_cont b \<and> utf8_cont c \<and> utf8_cont d \<and> (a = 240 \<longrightarrow> 144 \<le> b)
              \<and> (a = 244 \<longrightarrow> b \<le> 143)
           then 4 else 0
         | _ \<Rightarrow> 0)
      else 0)"

function utf8_valid :: "nat list \<Rightarrow> bool" where
  "utf8_valid bs =
     (if bs = [] then True
      else if utf8_len bs = 0 then False
      else utf8_valid (drop (utf8_len bs) bs))"
  by pat_completeness auto
termination by (relation "measure length") auto

declare utf8_valid.simps [simp del]

lemma utf8_valid_Nil [simp]: "utf8_valid []" by (simp add: utf8_valid.simps)

lemma utf8_valid_ascii_Cons: "a \<le> 127 \<Longrightarrow> utf8_valid (a # r) = utf8_valid r"
  by (simp add: utf8_valid.simps [of "a # r"])

lemma utf8_valid_ascii: "list_all (\<lambda>a. a \<le> 127) bs \<Longrightarrow> utf8_valid bs"
  by (induction bs) (simp_all add: utf8_valid_ascii_Cons)

text \<open>\<open>std::str::from_utf8\<close>: the string with these bytes, if they are well-formed.\<close>

definition from_utf8 :: "bytes \<Rightarrow> string option" where
  "from_utf8 bs = (if utf8_valid (map unat bs) then Some (string_of_bytes bs) else None)"

text \<open>What the type \<open>String\<close> promises of its bytes.\<close>

definition valid_string :: "string \<Rightarrow> bool" where
  "valid_string s \<longleftrightarrow> utf8_valid (map of_char s)"

lemma from_utf8_bytes_of_string: "valid_string s \<Longrightarrow> from_utf8 (bytes_of_string s) = Some s"
proof -
  have "map unat (bytes_of_string s) = map of_char s"
  proof -
    have "unat (word_of_nat (of_char c) :: u8) = of_char c" for c :: char
    proof -
      have "(of_char c :: nat) < 256" by (rule of_char_nat_less)
      then show ?thesis by (simp add: unat_of_nat)
    qed
    then show ?thesis by (simp add: bytes_of_string_def o_def)
  qed
  then show "valid_string s \<Longrightarrow> from_utf8 (bytes_of_string s) = Some s"
    by (simp add: from_utf8_def valid_string_def)
qed

lemma unat_u8_less: "unat (b :: u8) < 256"
  using unsigned_less [of b] by simp

lemma unat_u8_mod [simp]: "unat (b :: u8) mod 256 = unat b"
  using unat_u8_less [of b] by simp

subsection \<open>Big-endian numbers\<close>

definition be_nat :: "bytes \<Rightarrow> nat" where
  "be_nat bs = foldl (\<lambda>acc b. acc * 256 + unat b) 0 bs"

primrec be_bytes :: "nat \<Rightarrow> nat \<Rightarrow> bytes" where
  "be_bytes 0 v = []"
| "be_bytes (Suc n) v = be_bytes n (v div 256) @ [word_of_nat v]"

lemma be_nat_Nil [simp]: "be_nat [] = 0" by (simp add: be_nat_def)

lemma be_nat_snoc [simp]: "be_nat (bs @ [b]) = be_nat bs * 256 + unat b"
  by (simp add: be_nat_def)

lemma length_be_bytes [simp]: "length (be_bytes n v) = n"
  by (induction n arbitrary: v) simp_all

lemma be_nat_be_bytes: "be_nat (be_bytes n v) = v mod 256 ^ n"
proof (induction n arbitrary: v)
  case 0
  show ?case by simp
next
  case (Suc n)
  have "be_nat (be_bytes (Suc n) v) = (v div 256 mod 256 ^ n) * 256 + v mod 256"
    by (simp add: Suc.IH unat_of_nat)
  also have "\<dots> = v mod (256 * 256 ^ n)"
    by (simp add: mod_mult2_eq mult.commute)
  finally show ?case by simp
qed

lemma be_bytes_4:
  "be_bytes 4 v =
     [word_of_nat (v div 16777216), word_of_nat (v div 65536), word_of_nat (v div 256), word_of_nat v]"
proof -
  have "(4 :: nat) = Suc (Suc (Suc (Suc 0)))" by simp
  then have "be_bytes 4 v = be_bytes (Suc (Suc (Suc (Suc 0)))) v" by (simp only:)
  then show ?thesis by (simp add: div_mult2_eq [symmetric])
qed

lemma be_nat_less: "be_nat bs < 256 ^ length bs"
proof (induction bs rule: rev_induct)
  case Nil
  show ?case by simp
next
  case (snoc b bs)
  have "unat b < 256" by (rule unat_u8_less)
  moreover from snoc.IH have "be_nat bs + 1 \<le> 256 ^ length bs" by simp
  then have "(be_nat bs + 1) * 256 \<le> 256 ^ length bs * 256" by (rule mult_right_mono) simp
  ultimately show ?case by simp
qed

definition be_word :: "bytes \<Rightarrow> 'a::len word" where
  "be_word bs = word_of_nat (be_nat bs)"

lemma unat_be_u32: "length bs = 4 \<Longrightarrow> unat (be_word bs :: u32) = be_nat bs"
  using be_nat_less [of bs] by (simp add: be_word_def unat_of_nat)

subsection \<open>Lists\<close>

lemma take_add_drop: "take n (drop k xs) @ drop (k + n) xs = drop k xs"
  by (metis add.commute append_take_drop_id drop_drop)

lemma foldl_invariant:
  assumes "P s" and "\<And>s x. x \<in> set xs \<Longrightarrow> P s \<Longrightarrow> P (f s x)"
  shows "P (foldl f s xs)"
  using assms by (induction xs arbitrary: s) auto

subsection \<open>Orderings and iterators\<close>

datatype ordering = Less | Equal | Greater

definition cmp :: "'a::linorder \<Rightarrow> 'a \<Rightarrow> ordering" where
  "cmp a b = (if a < b then Less else if b < a then Greater else Equal)"

fun reverse :: "ordering \<Rightarrow> ordering" where
  "reverse Less = Greater"
| "reverse Equal = Equal"
| "reverse Greater = Less"

definition then_with :: "ordering \<Rightarrow> ordering \<Rightarrow> ordering" where
  "then_with a b = (if a = Equal then b else a)"

text \<open>\<open>max_by\<close> returns the last of the greatest elements, \<open>min_by_key\<close> the first of the least.\<close>

fun max_by :: "('a \<Rightarrow> 'a \<Rightarrow> ordering) \<Rightarrow> 'a list \<Rightarrow> 'a option" where
  "max_by c [] = None"
| "max_by c (x # xs) = Some (foldl (\<lambda>a b. if c a b = Greater then a else b) x xs)"

fun min_by_key :: "('a \<Rightarrow> 'k::linorder) \<Rightarrow> 'a list \<Rightarrow> 'a option" where
  "min_by_key f [] = None"
| "min_by_key f (x # xs) = Some (foldl (\<lambda>a b. if f b < f a then b else a) x xs)"

lemma min_by_key_eq_None [simp]: "min_by_key f xs = None \<longleftrightarrow> xs = []"
  by (cases xs) simp_all

lemma min_by_key_foldl:
  "let m = foldl (\<lambda>a b. if f b < f a then b else a) x xs in m \<in> set (x # xs) \<and> (\<forall>y\<in>set (x # xs). f m \<le> f y)"
  for f :: "'a \<Rightarrow> 'k::linorder"
proof (induction xs arbitrary: x)
  case (Cons b xs)
  show ?case
    using Cons.IH [of "if f b < f x then b else x"] by (auto simp: Let_def split: if_splits)
qed (simp add: Let_def)

lemma min_by_key_Some:
  "min_by_key f xs = Some m \<Longrightarrow> m \<in> set xs \<and> (\<forall>y\<in>set xs. f m \<le> f y)"
  using min_by_key_foldl [of f] by (cases xs) (auto simp: Let_def)

end
