(* ===== verification/Header.thy ===== *)
theory Header
  imports Prelude
begin

text \<open>
  The header block of an AWS event-stream message: \<open>src/src/kiro/parser/header.rs\<close> and the error
  type of \<open>src/src/kiro/parser/error.rs\<close>. A header is a one-byte name length, the name, a one-byte
  value type and the value. The lemmas show that a successful parse stays inside the block, that
  the parser inverts the encoding the protocol prescribes (\<open>encode_header\<close>), and which inputs
  each error stands for.

  The texts of the errors are named constructors (\<open>header_fault\<close>); the variants that carry a
  \<open>serde_json\<close> or an \<open>io\<close> error are made by other modules and are left out.
\<close>

subsection \<open>Errors\<close>

datatype header_fault =
  NameLengthZero            \<comment> \<open>the name length byte is 0\<close>
| NameNotUtf8
| ValueNotUtf8
| DuplicateName string
| HeadersBeyondMessage      \<comment> \<open>raised by \<open>parse_frame\<close>\<close>

datatype parse_error =
  Incomplete nat nat
| PreludeCrcMismatch u32 u32
| MessageCrcMismatch u32 u32
| InvalidHeaderType u8
| HeaderParseFailed header_fault
| MessageTooLarge u32 u32
| MessageTooSmall u32 u32
| TooManyErrors nat "parse_error option"
| BufferOverflow nat nat

subsection \<open>Header values\<close>

datatype header_value_type =
  BoolTrue | BoolFalse | Byte | Short | Integer | Long | ByteArray | String | Timestamp | Uuid

definition header_value_type_try_from :: "u8 \<Rightarrow> parse_error + header_value_type" where
  "header_value_type_try_from v =
     (if v = 0 then Ok BoolTrue
      else if v = 1 then Ok BoolFalse
      else if v = 2 then Ok Byte
      else if v = 3 then Ok Short
      else if v = 4 then Ok Integer
      else if v = 5 then Ok Long
      else if v = 6 then Ok ByteArray
      else if v = 7 then Ok String
      else if v = 8 then Ok Timestamp
      else if v = 9 then Ok Uuid
      else Err (InvalidHeaderType v))"

text \<open>A signed integer of the source is the word with its bits; \<open>sint\<close> reads it.\<close>

datatype header_value =
  VBool bool
| VByte u8
| VShort "16 word"
| VInteger u32
| VLong "64 word"
| VByteArray bytes
| VString string
| VTimestamp "64 word"
| VUuid bytes

definition as_str :: "header_value \<Rightarrow> string option" where
  "as_str v = (case v of VString s \<Rightarrow> Some s | _ \<Rightarrow> None)"

subsection \<open>The collection of headers\<close>

type_synonym headers = "string \<rightharpoonup> header_value"

definition headers_new :: headers where
  "headers_new = Map.empty"

definition headers_insert :: "headers \<Rightarrow> string \<Rightarrow> header_value \<Rightarrow> headers" where
  "headers_insert hs name v = hs(name \<mapsto> v)"

definition headers_get :: "headers \<Rightarrow> string \<Rightarrow> header_value option" where
  "headers_get hs name = hs name"

definition get_string :: "headers \<Rightarrow> string \<Rightarrow> string option" where
  "get_string hs name = Option.bind (headers_get hs name) as_str"

definition message_type :: "headers \<Rightarrow> string option" where
  "message_type hs = get_string hs '':message-type''"

definition event_type :: "headers \<Rightarrow> string option" where
  "event_type hs = get_string hs '':event-type''"

definition exception_type :: "headers \<Rightarrow> string option" where
  "exception_type hs = get_string hs '':exception-type''"

definition error_code :: "headers \<Rightarrow> string option" where
  "error_code hs = get_string hs '':error-code''"

subsection \<open>Parsing\<close>

definition ensure_bytes :: "bytes \<Rightarrow> nat \<Rightarrow> parse_error + unit" where
  "ensure_bytes data needed =
     (if length data < needed then Err (Incomplete needed (length data)) else Ok ())"

text \<open>
  The value at the start of \<open>data\<close> and the number of bytes it took, by which the source advances
  \<open>global_offset\<close>.
\<close>

definition parse_header_value :: "bytes \<Rightarrow> header_value_type \<Rightarrow> parse_error + header_value \<times> nat" where
  "parse_header_value data ty =
     (case ty of
        BoolTrue \<Rightarrow> Ok (VBool True, 0)
      | BoolFalse \<Rightarrow> Ok (VBool False, 0)
      | Byte \<Rightarrow> (case ensure_bytes data 1 of Err e \<Rightarrow> Err e | Ok _ \<Rightarrow>
          Ok (VByte (data ! 0), 1))
      | Short \<Rightarrow> (case ensure_bytes data 2 of Err e \<Rightarrow> Err e | Ok _ \<Rightarrow>
          Ok (VShort (be_word (take 2 data)), 2))
      | Integer \<Rightarrow> (case ensure_bytes data 4 of Err e \<Rightarrow> Err e | Ok _ \<Rightarrow>
          Ok (VInteger (be_word (take 4 data)), 4))
      | Long \<Rightarrow> (case ensure_bytes data 8 of Err e \<Rightarrow> Err e | Ok _ \<Rightarrow>
          Ok (VLong (be_word (take 8 data)), 8))
      | Timestamp \<Rightarrow> (case ensure_bytes data 8 of Err e \<Rightarrow> Err e | Ok _ \<Rightarrow>
          Ok (VTimestamp (be_word (take 8 data)), 8))
      | ByteArray \<Rightarrow> (case ensure_bytes data 2 of Err e \<Rightarrow> Err e | Ok _ \<Rightarrow>
          let len = be_nat (take 2 data) in
          (case ensure_bytes data (2 + len) of Err e \<Rightarrow> Err e | Ok _ \<Rightarrow>
             Ok (VByteArray (take len (drop 2 data)), 2 + len)))
      | String \<Rightarrow> (case ensure_bytes data 2 of Err e \<Rightarrow> Err e | Ok _ \<Rightarrow>
          let len = be_nat (take 2 data) in
          (case ensure_bytes data (2 + len) of Err e \<Rightarrow> Err e | Ok _ \<Rightarrow>
             (case from_utf8 (take len (drop 2 data)) of
                None \<Rightarrow> Err (HeaderParseFailed ValueNotUtf8)
              | Some s \<Rightarrow> Ok (VString s, 2 + len))))
      | Uuid \<Rightarrow> (case ensure_bytes data 16 of Err e \<Rightarrow> Err e | Ok _ \<Rightarrow>
          Ok (VUuid (take 16 data), 16)))"

text \<open>The \<open>while offset < header_length\<close> loop of \<open>parse_headers\<close>.\<close>

function parse_headers_loop :: "bytes \<Rightarrow> nat \<Rightarrow> nat \<Rightarrow> headers \<Rightarrow> parse_error + headers" where
  "parse_headers_loop data header_length offset hs =
     (if \<not> offset < header_length then Ok hs
      else if length data \<le> offset then Err (Incomplete header_length (length data))
      else
        let name_len = unat (data ! offset); offset1 = offset + 1 in
        if name_len = 0 then Err (HeaderParseFailed NameLengthZero)
        else if length data < offset1 + name_len
        then Err (Incomplete name_len (length data - offset1))
        else (case from_utf8 (take name_len (drop offset1 data)) of
            None \<Rightarrow> Err (HeaderParseFailed NameNotUtf8)
          | Some name \<Rightarrow>
              let offset2 = offset1 + name_len in
              if length data \<le> offset2 then Err (Incomplete 1 0)
              else (case header_value_type_try_from (data ! offset2) of
                  Err e \<Rightarrow> Err e
                | Ok ty \<Rightarrow>
                    (case parse_header_value (drop (offset2 + 1) data) ty of
                       Err e \<Rightarrow> Err e
                     | Ok (v, used) \<Rightarrow>
                         (case headers_get hs name of
                            Some _ \<Rightarrow> Err (HeaderParseFailed (DuplicateName name))
                          | None \<Rightarrow>
                              parse_headers_loop data header_length (offset2 + 1 + used)
                                (headers_insert hs name v))))))"
  by pat_completeness auto
termination
  by (relation "measure (\<lambda>(data, header_length, offset, hs). header_length - offset)") auto

declare parse_headers_loop.simps [simp del]

definition parse_headers :: "bytes \<Rightarrow> nat \<Rightarrow> parse_error + headers" where
  "parse_headers data header_length =
     (if length data < header_length then Err (Incomplete header_length (length data))
      else parse_headers_loop (take header_length data) header_length 0 headers_new)"


subsection \<open>The encoding the protocol prescribes\<close>

fun value_type :: "header_value \<Rightarrow> header_value_type" where
  "value_type (VBool b) = (if b then BoolTrue else BoolFalse)"
| "value_type (VByte _) = Byte"
| "value_type (VShort _) = Short"
| "value_type (VInteger _) = Integer"
| "value_type (VLong _) = Long"
| "value_type (VByteArray _) = ByteArray"
| "value_type (VString _) = String"
| "value_type (VTimestamp _) = Timestamp"
| "value_type (VUuid _) = Uuid"

fun type_tag :: "header_value_type \<Rightarrow> u8" where
  "type_tag BoolTrue = 0"
| "type_tag BoolFalse = 1"
| "type_tag Byte = 2"
| "type_tag Short = 3"
| "type_tag Integer = 4"
| "type_tag Long = 5"
| "type_tag ByteArray = 6"
| "type_tag String = 7"
| "type_tag Timestamp = 8"
| "type_tag Uuid = 9"

fun encode_value :: "header_value \<Rightarrow> bytes" where
  "encode_value (VBool b) = []"
| "encode_value (VByte w) = [w]"
| "encode_value (VShort w) = be_bytes 2 (unat w)"
| "encode_value (VInteger w) = be_bytes 4 (unat w)"
| "encode_value (VLong w) = be_bytes 8 (unat w)"
| "encode_value (VByteArray bs) = be_bytes 2 (length bs) @ bs"
| "encode_value (VString s) = be_bytes 2 (length s) @ bytes_of_string s"
| "encode_value (VTimestamp w) = be_bytes 8 (unat w)"
| "encode_value (VUuid bs) = bs"

fun wf_value :: "header_value \<Rightarrow> bool" where
  "wf_value (VByteArray bs) = (length bs < 65536)"
| "wf_value (VString s) = (valid_string s \<and> length s < 65536)"
| "wf_value (VUuid bs) = (length bs = 16)"
| "wf_value _ = True"

definition wf_name :: "string \<Rightarrow> bool" where
  "wf_name name \<longleftrightarrow> name \<noteq> [] \<and> length name < 256 \<and> valid_string name"

fun encode_header :: "string \<times> header_value \<Rightarrow> bytes" where
  "encode_header (name, v) =
     word_of_nat (length name) # bytes_of_string name @ type_tag (value_type v) # encode_value v"

definition encode_headers :: "(string \<times> header_value) list \<Rightarrow> bytes" where
  "encode_headers hs = concat (map encode_header hs)"

definition wf_headers :: "(string \<times> header_value) list \<Rightarrow> bool" where
  "wf_headers hs \<longleftrightarrow> distinct (map fst hs) \<and> (\<forall>(name, v) \<in> set hs. wf_name name \<and> wf_value v)"

lemma encode_headers_simps [simp]:
  "encode_headers [] = []"
  "encode_headers (h # hs) = encode_header h @ encode_headers hs"
  by (simp_all add: encode_headers_def)

subsection \<open>The parser inverts the encoding\<close>

lemma try_from_type_tag [simp]: "header_value_type_try_from (type_tag ty) = Ok ty"
  by (cases ty) (simp_all add: header_value_type_try_from_def)

lemma try_from_OkD: "header_value_type_try_from b = Ok ty \<Longrightarrow> b = type_tag ty"
  by (auto simp: header_value_type_try_from_def split: if_splits)

lemma be_word_be_bytes:
  "256 ^ n = (2 :: nat) ^ LENGTH('a::len) \<Longrightarrow> be_word (be_bytes n (unat w)) = (w :: 'a word)"
  by (simp add: be_word_def be_nat_be_bytes)

lemma be_bytes_be_nat: "be_bytes (length bs) (be_nat bs) = bs"
proof (induction bs rule: rev_induct)
  case Nil
  show ?case by simp
next
  case (snoc b bs)
  have "unat b < 256" by (rule unat_u8_less)
  then have "(be_nat bs * 256 + unat b) div 256 = be_nat bs" by simp
  moreover have "(word_of_nat (be_nat bs * 256 + unat b) :: u8) = b"
  proof (rule word_unat_eq_iff [THEN iffD2])
    show "unat (word_of_nat (be_nat bs * 256 + unat b) :: u8) = unat b"
      using \<open>unat b < 256\<close> by (simp only: unsigned_of_nat take_bit_eq_mod) simp
  qed
  ultimately show ?case using snoc.IH by simp
qed

lemma parse_header_value_encode:
  "wf_value v \<Longrightarrow>
     parse_header_value (encode_value v @ rest) (value_type v) = Ok (v, length (encode_value v))"
  by (cases v)
    (simp_all add: parse_header_value_def ensure_bytes_def be_word_be_bytes be_nat_be_bytes
      from_utf8_bytes_of_string Let_def)


lemma from_utf8_SomeD:
  "from_utf8 bs = Some s \<Longrightarrow> bytes_of_string s = bs \<and> valid_string s \<and> length s = length bs"
proof -
  assume "from_utf8 bs = Some s"
  then have v: "utf8_valid (map unat bs)" and s: "s = string_of_bytes bs"
    by (simp_all add: from_utf8_def split: if_splits)
  have id: "(of_char (char_of (unat b)) :: nat) = unat b" for b :: u8
    using unat_u8_less [of b] by simp
  have "map of_char s = map unat bs"
    by (simp add: s string_of_bytes_def id)
  moreover have "bytes_of_string s = bs"
    by (simp add: s bytes_of_string_def string_of_bytes_def o_def id)
  ultimately show ?thesis using v by (simp add: valid_string_def s)
qed

lemma ensure_bytes_OkD: "ensure_bytes data n = Ok u \<Longrightarrow> n \<le> length data"
  by (simp add: ensure_bytes_def split: if_splits)

lemma be_bytes_take: "n \<le> length data \<Longrightarrow> be_bytes n (be_nat (take n data)) = take n data"
  using be_bytes_be_nat [of "take n data"] by simp

lemma unat_be_word_take:
  "n \<le> length data \<Longrightarrow> 256 ^ n = (2 :: nat) ^ LENGTH('a::len) \<Longrightarrow>
     unat (be_word (take n data) :: 'a word) = be_nat (take n data)"
  using be_nat_less [of "take n data"] by (simp add: be_word_def unat_of_nat)

lemma take_two_parts: "take (Suc (Suc n)) xs = take 2 xs @ take n (drop 2 xs)"
  using take_add [of 2 n xs] by simp

lemma be_nat_take2_less: "be_nat (take 2 data) < 65536"
proof -
  have "be_nat (take 2 data) < 256 ^ length (take 2 data)" by (rule be_nat_less)
  also have "\<dots> \<le> 256 ^ 2" by (rule power_increasing) simp_all
  finally show ?thesis by simp
qed

lemma parse_header_value_OkD:
  assumes "parse_header_value data ty = Ok (v, used)"
  shows "value_type v = ty \<and> wf_value v \<and> used = length (encode_value v) \<and>
    used \<le> length data \<and> take used data = encode_value v"
proof (cases ty)
  case Byte
  with assms show ?thesis
    by (cases data) (auto simp: parse_header_value_def ensure_bytes_def split: if_splits)
next
  case ByteArray
  with assms show ?thesis
    by (auto simp: parse_header_value_def Let_def be_bytes_take take_two_parts be_nat_take2_less
        split: sum.splits dest!: ensure_bytes_OkD)
next
  case String
  with assms show ?thesis
    by (auto simp: parse_header_value_def Let_def be_bytes_take take_two_parts be_nat_take2_less
        split: sum.splits option.splits dest!: ensure_bytes_OkD from_utf8_SomeD)
qed (use assms in \<open>auto simp: parse_header_value_def be_bytes_take unat_be_word_take
      split: sum.splits dest!: ensure_bytes_OkD\<close>)

lemma wf_headers_Cons:
  "wf_headers ((name, v) # hs) \<longleftrightarrow>
     wf_name name \<and> wf_value v \<and> name \<notin> fst ` set hs \<and> wf_headers hs"
  by (auto simp: wf_headers_def)

lemma map_add_insert_map_of:
  "name \<notin> fst ` set hs \<Longrightarrow> acc(name \<mapsto> v) ++ map_of hs = acc ++ (map_of hs)(name \<mapsto> v)"
  by (simp add: map_add_upd_left dom_map_of_conv_image_fst)

lemma parse_headers_loop_encode:
  assumes "data = pre @ encode_headers hs" and "wf_headers hs"
    and "\<forall>name \<in> fst ` set hs. acc name = None"
  shows "parse_headers_loop data (length data) (length pre) acc = Ok (acc ++ map_of hs)"
  using assms
proof (induction hs arbitrary: pre acc)
  case Nil
  then show ?case by (simp add: parse_headers_loop.simps)
next
  case (Cons h hs)
  obtain name v where h: "h = (name, v)" by (cases h)
  let ?rest = "encode_value v @ encode_headers hs"
  let ?pre = "pre @ encode_header h"
  from Cons.prems(2) have wf: "wf_name name" "wf_value v" "name \<notin> fst ` set hs" "wf_headers hs"
    by (simp_all add: h wf_headers_Cons)
  then have name: "name \<noteq> []" "unat (word_of_nat (length name) :: u8) = length name"
      "from_utf8 (bytes_of_string name) = Some name"
    by (simp_all add: wf_name_def unat_of_nat from_utf8_bytes_of_string)
  have data: "data = pre @ word_of_nat (length name) # bytes_of_string name
      @ type_tag (value_type v) # ?rest"
    by (simp add: Cons.prems(1) h)
  have nth0: "data ! length pre = word_of_nat (length name)" by (simp add: data)
  have drop1: "drop (length pre + 1) data = bytes_of_string name @ type_tag (value_type v) # ?rest"
    by (simp add: data)
  have nth2: "data ! (length pre + 1 + length name) = type_tag (value_type v)"
    by (simp add: data nth_append)
  have drop2: "drop (length pre + 1 + length name + 1) data = ?rest"
    by (simp add: data)
  have "acc name = None" using Cons.prems(3) by (simp add: h)
  then have "parse_headers_loop data (length data) (length pre) acc =
      parse_headers_loop data (length data) (length ?pre) (acc(name \<mapsto> v))"
    using name wf(2)
    by (subst parse_headers_loop.simps)
      (simp add: nth0 drop1 [simplified] nth2 [simplified] drop2 [simplified] Let_def
        parse_header_value_encode headers_get_def headers_insert_def h, simp add: data add_ac)
  also have "\<dots> = Ok (acc(name \<mapsto> v) ++ map_of hs)"
  proof (rule Cons.IH)
    show "data = ?pre @ encode_headers hs" by (simp add: Cons.prems(1))
    show "wf_headers hs" by (rule wf(4))
    show "\<forall>n \<in> fst ` set hs. (acc(name \<mapsto> v)) n = None"
      using Cons.prems(3) wf(3) by (auto simp: h)
  qed
  also have "acc(name \<mapsto> v) ++ map_of hs = acc ++ map_of (h # hs)"
    using wf(3) by (simp add: h map_add_insert_map_of)
  finally show ?case .
qed


lemma parse_headers_loop_OkD:
  "parse_headers_loop data hl off acc = Ok hs \<Longrightarrow> hl = length data \<Longrightarrow> off \<le> hl \<Longrightarrow>
     \<exists>l. drop off data = encode_headers l \<and> wf_headers l \<and>
         (\<forall>name \<in> fst ` set l. acc name = None) \<and> hs = acc ++ map_of l"
proof (induction data hl off acc rule: parse_headers_loop.induct)
  case (1 data hl off acc)
  show ?case
  proof (cases "off < hl")
    case False
    with "1.prems" show ?thesis
      by (intro exI [of _ "[]"]) (simp add: parse_headers_loop.simps wf_headers_def)
  next
    case True
    define n where "n = unat (data ! off)"
    from True "1.prems" obtain name ty v used where
        n: "n \<noteq> 0" "off + 1 + n < length data"
      and name: "from_utf8 (take n (drop (off + 1) data)) = Some name"
      and ty: "header_value_type_try_from (data ! (off + 1 + n)) = Ok ty"
      and v: "parse_header_value (drop (off + 1 + n + 1) data) ty = Ok (v, used)"
      and fresh: "acc name = None"
      and rec: "parse_headers_loop data hl (off + 1 + n + 1 + used) (acc(name \<mapsto> v)) = Ok hs"
      by (subst (asm) parse_headers_loop.simps)
        (auto simp: n_def Let_def headers_get_def headers_insert_def not_le
          split: if_splits option.splits sum.splits prod.splits)
    from v have val: "value_type v = ty" "wf_value v" "used = length (encode_value v)"
        "used \<le> length data - (off + 1 + n + 1)"
        "take used (drop (off + 1 + n + 1) data) = encode_value v"
      by (auto dest!: parse_header_value_OkD)
    from name have nm: "bytes_of_string name = take n (drop (off + 1) data)" "valid_string name"
        "length name = n"
      using n(2) by (auto dest!: from_utf8_SomeD)
    have "n < 256" unfolding n_def by (rule unat_u8_less)
    have le: "off + 1 + n + 1 + used \<le> hl" using n(2) val(4) "1.prems"(2) by simp
    have guards: "unat (data ! off) \<noteq> 0" "\<not> length data \<le> off"
        "\<not> length data < off + 1 + unat (data ! off)"
        "\<not> length data \<le> off + 1 + unat (data ! off)"
      using n True "1.prems"(2) by (simp_all add: n_def)
    have "\<exists>l. drop (off + 1 + n + 1 + used) data = encode_headers l \<and> wf_headers l \<and>
        (\<forall>m \<in> fst ` set l. (headers_insert acc name v) m = None) \<and>
        hs = headers_insert acc name v ++ map_of l"
      unfolding n_def
      by (rule "1.IH" [OF _ guards(2) refl refl guards(1,3) _ refl guards(4)])
        (use True name ty v fresh rec le "1.prems"(2)
         in \<open>simp_all add: n_def headers_get_def headers_insert_def fun_upd_def\<close>)
    then obtain l where l: "drop (off + 1 + n + 1 + used) data = encode_headers l" "wf_headers l"
        "\<forall>m \<in> fst ` set l. (acc(name \<mapsto> v)) m = None" "hs = acc(name \<mapsto> v) ++ map_of l"
      unfolding headers_insert_def by blast
    have "name \<notin> fst ` set l" using l(3) by force
    then have "wf_headers ((name, v) # l)" "hs = acc ++ map_of ((name, v) # l)"
      using l nm \<open>n < 256\<close> n(1) val(2)
      by (auto simp: wf_headers_Cons wf_name_def map_add_insert_map_of)
    moreover have "drop off data = encode_headers ((name, v) # l)"
    proof -
      have "drop off data = data ! off # drop (off + 1) data"
        using True "1.prems"(2) by (simp add: Cons_nth_drop_Suc)
      also have "drop (off + 1) data = bytes_of_string name @ drop (off + 1 + n) data"
        by (simp add: nm(1) take_add_drop [of n "off + 1", simplified])
      also have "drop (off + 1 + n) data = type_tag ty # drop (off + 1 + n + 1) data"
        using n(2) try_from_OkD [OF ty] Cons_nth_drop_Suc [of "off + 1 + n" data] by simp
      also have "drop (off + 1 + n + 1) data = encode_value v @ encode_headers l"
        using val(5) l(1) append_take_drop_id [of used "drop (off + 1 + n + 1) data"]
        by (simp add: add_ac)
      finally show ?thesis by (simp add: val(1) nm(3) n_def)
    qed
    moreover have "\<forall>m \<in> fst ` set ((name, v) # l). acc m = None"
      using l(3) fresh \<open>name \<notin> fst ` set l\<close> by (auto split: if_splits)
    ultimately show ?thesis by blast
  qed
qed

subsection \<open>What a header block is\<close>

lemma parse_headers_encode:
  "wf_headers l \<Longrightarrow>
     parse_headers (encode_headers l @ rest) (length (encode_headers l)) = Ok (map_of l)"
  using parse_headers_loop_encode [of "encode_headers l" "[]" l Map.empty]
  by (simp add: parse_headers_def headers_new_def)

lemma parse_headers_OkD:
  "parse_headers data n = Ok hs \<Longrightarrow>
     n \<le> length data \<and> (\<exists>l. take n data = encode_headers l \<and> wf_headers l \<and> hs = map_of l)"
  using parse_headers_loop_OkD [of "take n data" n 0 Map.empty hs]
  by (auto simp: parse_headers_def headers_new_def split: if_splits)

text \<open>
  C20. The header parser accepts exactly the encodings: on \<open>n\<close> bytes of \<open>data\<close> it returns the
  collection \<open>hs\<close> iff these bytes are the encoding of a list of headers with distinct non-empty
  names of at most 255 bytes of UTF-8 and values within the bounds of their types, and \<open>hs\<close> is
  that list as a map.
\<close>
theorem parse_headers_iff:
  "parse_headers data n = Ok hs \<longleftrightarrow>
     n \<le> length data \<and> (\<exists>l. take n data = encode_headers l \<and> wf_headers l \<and> hs = map_of l)"
proof
  assume "parse_headers data n = Ok hs"
  then show "n \<le> length data \<and>
      (\<exists>l. take n data = encode_headers l \<and> wf_headers l \<and> hs = map_of l)"
    by (rule parse_headers_OkD)
next
  assume "n \<le> length data \<and>
      (\<exists>l. take n data = encode_headers l \<and> wf_headers l \<and> hs = map_of l)"
  then obtain l where n: "n \<le> length data" and l: "take n data = encode_headers l"
      "wf_headers l" "hs = map_of l" by blast
  have "data = encode_headers l @ drop n data" using l(1) append_take_drop_id [of n data] by simp
  moreover have "length (encode_headers l) = n" using n l(1) by (metis length_take min_absorb2)
  ultimately show "parse_headers data n = Ok hs"
    using parse_headers_encode [OF l(2), of "drop n data"] l(3) by metis
qed

end
