(* ===== verification/Frame.thy ===== *)
theory Frame
  imports Header
begin

text \<open>
  One message of the AWS event stream: \<open>src/src/kiro/parser/frame.rs\<close>. A message is a 12-byte
  prelude (total length, header length, CRC of these 8 bytes), the header block, the payload and
  the CRC of everything before it.

  \<open>crc32\<close> of the source is the third-party crate \<open>crc\<close>: a parameter \<open>crc\<close> of the definitions. The
  lemmas hold for every function.

  The lemmas show that the parser inverts the encoding of a message whatever follows it, that a
  verdict other than "more bytes needed" is final (later bytes never change it), that a parse
  stays within the buffer, and that the two lengths of the prelude are trusted only after its CRC
  has been checked.
\<close>

definition PRELUDE_SIZE :: nat where "PRELUDE_SIZE = 12"
definition MIN_MESSAGE_SIZE :: nat where "MIN_MESSAGE_SIZE = PRELUDE_SIZE + 4"
definition MAX_MESSAGE_SIZE :: u32 where "MAX_MESSAGE_SIZE = 16 * 1024 * 1024"

record frame =
  frame_headers :: headers
  frame_payload :: bytes

definition frame_message_type :: "frame \<Rightarrow> string option" where
  "frame_message_type f = message_type (frame_headers f)"

definition frame_event_type :: "frame \<Rightarrow> string option" where
  "frame_event_type f = event_type (frame_headers f)"

definition parse_frame :: "(bytes \<Rightarrow> u32) \<Rightarrow> bytes \<Rightarrow> parse_error + (frame \<times> nat) option" where
  "parse_frame crc buffer =
     (if length buffer < PRELUDE_SIZE then Ok None
      else
        let total_length = be_word (take 4 buffer) :: u32;
            header_length = be_word (take 4 (drop 4 buffer)) :: u32;
            prelude_crc = be_word (take 4 (drop 8 buffer)) :: u32;
            actual_prelude_crc = crc (take 8 buffer) in
        if actual_prelude_crc \<noteq> prelude_crc
        then Err (PreludeCrcMismatch prelude_crc actual_prelude_crc)
        else if total_length < word_of_nat MIN_MESSAGE_SIZE
        then Err (MessageTooSmall total_length (word_of_nat MIN_MESSAGE_SIZE))
        else if total_length > MAX_MESSAGE_SIZE
        then Err (MessageTooLarge total_length MAX_MESSAGE_SIZE)
        else
          let total = unat total_length; hlen = unat header_length in
          if length buffer < total then Ok None
          else
            let message_crc = be_word (take 4 (drop (total - 4) buffer)) :: u32;
                actual_message_crc = crc (take (total - 4) buffer) in
            if actual_message_crc \<noteq> message_crc
            then Err (MessageCrcMismatch message_crc actual_message_crc)
            else
              let headers_start = PRELUDE_SIZE; headers_end = headers_start + hlen in
              if headers_end > total - 4 then Err (HeaderParseFailed HeadersBeyondMessage)
              else
                (case parse_headers (take hlen (drop headers_start buffer)) hlen of
                   Err e \<Rightarrow> Err e
                 | Ok hs \<Rightarrow>
                     Ok (Some (\<lparr>frame_headers = hs,
                         frame_payload = take (total - 4 - headers_end) (drop headers_end buffer)\<rparr>,
                       total))))"

subsection \<open>The encoding of a message\<close>

definition encode_prelude :: "(bytes \<Rightarrow> u32) \<Rightarrow> (string \<times> header_value) list \<Rightarrow> bytes \<Rightarrow> bytes" where
  "encode_prelude crc hs payload =
     (let hb = encode_headers hs;
          lens = be_bytes 4 (PRELUDE_SIZE + length hb + length payload + 4) @ be_bytes 4 (length hb)
      in lens @ be_bytes 4 (unat (crc lens)))"

definition encode_frame :: "(bytes \<Rightarrow> u32) \<Rightarrow> (string \<times> header_value) list \<Rightarrow> bytes \<Rightarrow> bytes" where
  "encode_frame crc hs payload =
     (let body = encode_prelude crc hs payload @ encode_headers hs @ payload
      in body @ be_bytes 4 (unat (crc body)))"

definition wf_frame :: "(string \<times> header_value) list \<Rightarrow> bytes \<Rightarrow> bool" where
  "wf_frame hs payload \<longleftrightarrow>
     wf_headers hs \<and>
     MIN_MESSAGE_SIZE + length (encode_headers hs) + length payload \<le> unat MAX_MESSAGE_SIZE"

lemma sizes [simp]:
  "PRELUDE_SIZE = 12" "MIN_MESSAGE_SIZE = 16" "MAX_MESSAGE_SIZE = 16777216"
  by (simp_all add: PRELUDE_SIZE_def MIN_MESSAGE_SIZE_def MAX_MESSAGE_SIZE_def)

lemma be_word_be_bytes_nat:
  "v < 256 ^ n \<Longrightarrow> 256 ^ n = (2 :: nat) ^ LENGTH('a::len) \<Longrightarrow>
     (be_word (be_bytes n v) :: 'a word) = word_of_nat v"
  by (simp add: be_word_def be_nat_be_bytes)

lemma length_encode_prelude [simp]: "length (encode_prelude crc hs payload) = 12"
  by (simp add: encode_prelude_def Let_def)

lemma length_encode_frame:
  "length (encode_frame crc hs payload) = 16 + length (encode_headers hs) + length payload"
  by (simp add: encode_frame_def Let_def)


subsection \<open>The parser inverts the encoding\<close>

lemma take_append_le [simp]: "k \<le> length b \<Longrightarrow> take k (b @ x) = take k b"
  by simp

lemma unat_word_of_nat_u32: "n < 4294967296 \<Longrightarrow> unat (word_of_nat n :: u32) = n"
  by (simp add: unat_of_nat)

lemma parse_frame_final:
  assumes "parse_frame crc b \<noteq> Ok None"
  shows "parse_frame crc (b @ x) = parse_frame crc b"
proof -
  have len: "12 \<le> length b" using assms by (auto simp: parse_frame_def split: if_splits)
  show ?thesis
  proof (cases "length b < unat (be_word (take 4 b) :: u32)")
    case True
    with assms len show ?thesis
      by (simp add: parse_frame_def Let_def split: if_splits)
  next
    case False
    with len show ?thesis
      by (cases "unat (be_word (take 4 b) :: u32) - 4 < 12 + unat (be_word (take 4 (drop 4 b)) :: u32)")
        (simp_all add: parse_frame_def Let_def split: sum.split)
  qed
qed

lemma parse_frame_encode:
  assumes "wf_frame hs payload"
  shows "parse_frame crc (encode_frame crc hs payload @ rest) =
    Ok (Some (\<lparr>frame_headers = map_of hs, frame_payload = payload\<rparr>,
      length (encode_frame crc hs payload)))"
proof -
  let ?h = "encode_headers hs"
  define T where "T = 16 + length ?h + length payload"
  let ?lens = "be_bytes 4 T @ be_bytes 4 (length ?h)"
  let ?body = "(?lens @ be_bytes 4 (unat (crc ?lens))) @ ?h @ payload"
  let ?b = "encode_frame crc hs payload"
  have b: "?b = ?body @ be_bytes 4 (unat (crc ?body))"
    by (simp add: encode_frame_def encode_prelude_def Let_def T_def add_ac)
  have T: "16 \<le> T" "T \<le> 16777216" "12 + length ?h \<le> T - 4" and wf: "wf_headers hs"
    using assms by (simp_all add: wf_frame_def T_def)
  have w: "(be_word (be_bytes 4 T) :: u32) = word_of_nat T"
      "(be_word (be_bytes 4 (length ?h)) :: u32) = word_of_nat (length ?h)"
    using T by (simp_all add: be_word_be_bytes_nat)
  have u: "unat (word_of_nat T :: u32) = T" "unat (word_of_nat (length ?h) :: u32) = length ?h"
    by (rule unat_word_of_nat_u32, use T in simp)+
  have nlt: "\<not> (word_of_nat T :: u32) < 16" "\<not> (16777216 :: u32) < word_of_nat T"
    using T u by (simp_all add: word_less_nat_alt)
  have len: "length ?b = T" by (simp add: length_encode_frame T_def)
  have t: "take 4 ?b = be_bytes 4 T" "take 4 (drop 4 ?b) = be_bytes 4 (length ?h)"
      "take 8 ?b = ?lens" "take 4 (drop 8 ?b) = be_bytes 4 (unat (crc ?lens))"
      "take (length ?h) (drop 12 ?b) = ?h"
    unfolding b by simp_all
  have "T - 4 = length ?body" "T - 4 - (12 + length ?h) = length payload"
    by (simp_all add: T_def)
  then have t': "take (T - 4) ?b = ?body" "take 4 (drop (T - 4) ?b) = be_bytes 4 (unat (crc ?body))"
      "take (T - 4 - (12 + length ?h)) (drop (12 + length ?h) ?b) = payload"
    unfolding b by (simp_all only: append_eq_conv_conj) simp_all
  have "parse_headers ?h (length ?h) = Ok (map_of hs)"
    using parse_headers_encode [OF wf, of "[]"] by simp
  then have "parse_frame crc ?b =
      Ok (Some (\<lparr>frame_headers = map_of hs, frame_payload = payload\<rparr>, length ?b))"
    using nlt T len by (simp add: parse_frame_def Let_def t t' t' [simplified] w u be_word_be_bytes)
  then show ?thesis using parse_frame_final [of crc ?b rest] by simp
qed


lemma be_bytes_be_word_take:
  "4 \<le> length xs \<Longrightarrow> be_bytes 4 (unat (be_word (take 4 xs) :: u32)) = take 4 xs"
  by (simp add: unat_be_u32 be_bytes_take)

text \<open>A buffer whose fields agree with each other starts with the encoding of its parts.\<close>

lemma encode_frame_of_parts:
  fixes b :: bytes
  defines "T \<equiv> unat (be_word (take 4 b) :: u32)" and "H \<equiv> unat (be_word (take 4 (drop 4 b)) :: u32)"
  assumes crcs: "crc (take 8 b) = be_word (take 4 (drop 8 b))"
      "crc (take (T - 4) b) = be_word (take 4 (drop (T - 4) b))"
    and T: "16 \<le> T" "T \<le> length b" "12 + H \<le> T - 4"
    and hs: "encode_headers hs = take H (drop 12 b)"
    and P: "P = take (T - 4 - (12 + H)) (drop (12 + H) b)"
  shows "encode_frame crc hs P = take T b"
proof -
  have len: "length (encode_headers hs) = H" "length P = T - 4 - (12 + H)"
    using T by (simp_all add: hs P)
  have "take 8 b = take 4 b @ take 4 (drop 4 b)"
    by (simp add: take_add [of 4 4 b, simplified])
  also have "\<dots> = be_bytes 4 T @ be_bytes 4 H"
    using be_bytes_be_word_take [of b] be_bytes_be_word_take [of "drop 4 b"] T
    by (simp add: T_def H_def)
  finally have "encode_prelude crc hs P = take 8 b @ be_bytes 4 (unat (crc (take 8 b)))"
    using T by (simp add: encode_prelude_def Let_def len)
  also have "be_bytes 4 (unat (crc (take 8 b))) = take 4 (drop 8 b)"
    using be_bytes_be_word_take [of "drop 8 b"] T crcs(1) by simp
  finally have prelude: "encode_prelude crc hs P = take 12 b"
    by (simp add: take_add [of 8 4 b, simplified])
  have "take (T - 4) b = take 12 b @ take H (drop 12 b) @ P"
    using T take_add [of 12 "T - 4 - 12" b] take_add [of H "T - 4 - (12 + H)" "drop 12 b"]
    by (simp add: P add.commute)
  then have "encode_frame crc hs P =
      take (T - 4) b @ be_bytes 4 (unat (crc (take (T - 4) b)))"
    by (simp add: encode_frame_def Let_def prelude hs)
  also have "be_bytes 4 (unat (crc (take (T - 4) b))) = take 4 (drop (T - 4) b)"
    using be_bytes_be_word_take [of "drop (T - 4) b"] T crcs(2) by simp
  finally show ?thesis using T take_add [of "T - 4" 4 b] by simp
qed

lemma parse_frame_SomeD:
  assumes "parse_frame crc b = Ok (Some (f, n))"
  shows "\<exists>hs. wf_frame hs (frame_payload f) \<and> frame_headers f = map_of hs \<and>
    n = length (encode_frame crc hs (frame_payload f)) \<and> n \<le> length b \<and>
    take n b = encode_frame crc hs (frame_payload f)"
proof -
  define T where "T = unat (be_word (take 4 b) :: u32)"
  define H where "H = unat (be_word (take 4 (drop 4 b)) :: u32)"
  note TH = T_def H_def
  from assms have len: "12 \<le> length b" by (simp add: parse_frame_def split: if_splits)
  from assms have crcs: "crc (take 8 b) = be_word (take 4 (drop 8 b))"
      "crc (take (T - 4) b) = be_word (take 4 (drop (T - 4) b))"
    and T: "16 \<le> T" "T \<le> 16777216" "T \<le> length b" "12 + H \<le> T - 4"
    by (auto simp: parse_frame_def Let_def TH word_less_nat_alt not_less split: if_splits)
  from assms len crcs T obtain hm where
    p: "parse_headers (take H (drop 12 b)) H = Ok hm" and n: "n = T" and
    f: "f = \<lparr>frame_headers = hm, frame_payload = take (T - 4 - (12 + H)) (drop (12 + H) b)\<rparr>"
    by (auto simp: parse_frame_def Let_def TH split: if_splits sum.splits)
  obtain hs where hs: "encode_headers hs = take H (drop 12 b)" "wf_headers hs" "hm = map_of hs"
    using parse_headers_OkD [OF p] by auto
  have frame: "encode_frame crc hs (frame_payload f) = take T b"
    using encode_frame_of_parts [where b = b and crc = crc and hs = hs] crcs T hs(1)
    by (simp add: TH [symmetric] f)
  moreover have "wf_frame hs (frame_payload f)"
    using hs T by (simp add: wf_frame_def f)
  ultimately show ?thesis using hs(3) n T by (auto simp: f)
qed

lemma parse_frame_bounds:
  "parse_frame crc b = Ok (Some (f, n)) \<Longrightarrow> 16 \<le> n \<and> n \<le> length b \<and> n \<le> 16777216"
  using parse_frame_SomeD [of crc b f n]
  by (auto simp: wf_frame_def length_encode_frame)

lemma parse_frame_waits: "parse_frame crc b = Ok None \<Longrightarrow> length b < 16777216"
  by (auto simp: parse_frame_def Let_def word_less_nat_alt split: if_splits sum.splits)

lemma parse_frame_Nil [simp]: "parse_frame crc [] = Ok None"
  by (simp add: parse_frame_def)

text \<open>
  C19. A message is recognised exactly when it is there: \<open>parse_frame\<close> returns the frame \<open>f\<close> and the
  length \<open>n\<close> iff the buffer starts with \<open>n\<close> bytes that encode \<open>f\<close>: both checksums right, the size
  at most 16 MiB, the header block within the message and an encoding of the headers of \<open>f\<close>. What
  follows these bytes does not matter. This holds whatever function the checksum is.
\<close>
theorem parse_frame_iff:
  "parse_frame crc b = Ok (Some (f, n)) \<longleftrightarrow>
     (\<exists>hs. wf_frame hs (frame_payload f) \<and> frame_headers f = map_of hs \<and>
        n = length (encode_frame crc hs (frame_payload f)) \<and> n \<le> length b \<and>
        take n b = encode_frame crc hs (frame_payload f))"
proof
  assume "parse_frame crc b = Ok (Some (f, n))"
  then show "\<exists>hs. wf_frame hs (frame_payload f) \<and> frame_headers f = map_of hs \<and>
        n = length (encode_frame crc hs (frame_payload f)) \<and> n \<le> length b \<and>
        take n b = encode_frame crc hs (frame_payload f)"
    by (rule parse_frame_SomeD)
next
  assume "\<exists>hs. wf_frame hs (frame_payload f) \<and> frame_headers f = map_of hs \<and>
        n = length (encode_frame crc hs (frame_payload f)) \<and> n \<le> length b \<and>
        take n b = encode_frame crc hs (frame_payload f)"
  then obtain hs where hs: "wf_frame hs (frame_payload f)" "frame_headers f = map_of hs"
      "n = length (encode_frame crc hs (frame_payload f))"
      "take n b = encode_frame crc hs (frame_payload f)" by blast
  have "b = encode_frame crc hs (frame_payload f) @ drop n b"
    using hs(4) append_take_drop_id [of n b] by simp
  then show "parse_frame crc b = Ok (Some (f, n))"
    using parse_frame_encode [OF hs(1), of crc "drop n b"] hs(2,3) by simp
qed

end
