(* ===== verification/Decoder.thy ===== *)
theory Decoder
  imports Frame
begin

text \<open>
  The streaming decoder of \<open>src/src/kiro/parser/decoder.rs\<close>: bytes are fed in chunks as they
  arrive, frames are drained after each chunk. A frame that fails to parse is skipped, either by
  one byte or as a whole; the fifth failure in a row stops the decoder for good.

  \<open>scan\<close> is the specification: what a list of bytes that is there from the start decodes to. The
  locale \<open>frame_parser\<close> states what the decoder relies on in \<open>parse_frame\<close> and in the recovery, and
  shows that scanning does not depend on where the bytes were cut; its interpretation at the end
  carries this to the decoder. Log output is left out. The text of an error inside
  \<open>TooManyErrors\<close> is that error itself, \<open>None\<close> standing for the fixed text of a decoder that had
  already stopped.
\<close>

definition BUFFER_CHUNK_SLACK :: nat where "BUFFER_CHUNK_SLACK = 64 * 1024"
definition DEFAULT_MAX_BUFFER_SIZE :: nat where
  "DEFAULT_MAX_BUFFER_SIZE = unat MAX_MESSAGE_SIZE + BUFFER_CHUNK_SLACK"
definition DEFAULT_MAX_ERRORS :: nat where "DEFAULT_MAX_ERRORS = 5"

datatype decoder_state = Ready | Parsing | Recovering | Stopped

record decoder =
  buffer :: bytes
  state :: decoder_state
  frames_decoded :: nat
  error_count :: nat
  max_errors :: nat
  max_buffer_size :: nat
  bytes_skipped :: nat

definition decoder_new :: decoder where
  "decoder_new = \<lparr>buffer = [], state = Ready, frames_decoded = 0, error_count = 0,
     max_errors = DEFAULT_MAX_ERRORS, max_buffer_size = DEFAULT_MAX_BUFFER_SIZE,
     bytes_skipped = 0\<rparr>"

definition feed :: "bytes \<Rightarrow> decoder \<Rightarrow> (parse_error + unit) \<times> decoder" where
  "feed data d =
     (if state d = Stopped then (Ok (), d)
      else
        let new_size =
          (if length (buffer d) + length data \<le> usize_max
           then length (buffer d) + length data else usize_max) in
        if new_size > max_buffer_size d
        then (Err (BufferOverflow new_size (max_buffer_size d)), d)
        else
          let d1 = d\<lparr>buffer := buffer d @ data\<rparr> in
          (Ok (), if state d1 = Recovering then d1\<lparr>state := Ready\<rparr> else d1))"

definition skip_bytes :: "nat \<Rightarrow> decoder \<Rightarrow> decoder" where
  "skip_bytes n d = d\<lparr>buffer := drop n (buffer d), bytes_skipped := bytes_skipped d + n\<rparr>"

definition try_recover :: "parse_error \<Rightarrow> decoder \<Rightarrow> decoder" where
  "try_recover e d =
     (if buffer d = [] then d
      else
        let one = skip_bytes 1 d;
            whole =
              (if length (buffer d) \<ge> PRELUDE_SIZE then
                 let total_length = unat (be_word (take 4 (buffer d)) :: u32) in
                 if total_length \<ge> 16 \<and> total_length \<le> length (buffer d)
                 then skip_bytes total_length d
                 else one
               else one) in
        (case e of
           PreludeCrcMismatch _ _ \<Rightarrow> one
         | MessageTooSmall _ _ \<Rightarrow> one
         | MessageTooLarge _ _ \<Rightarrow> one
         | MessageCrcMismatch _ _ \<Rightarrow> whole
         | HeaderParseFailed _ \<Rightarrow> whole
         | InvalidHeaderType _ \<Rightarrow> whole
         | Incomplete _ _ \<Rightarrow> whole
         | _ \<Rightarrow> one))"

definition decode :: "(bytes \<Rightarrow> u32) \<Rightarrow> decoder \<Rightarrow> (parse_error + frame option) \<times> decoder" where
  "decode crc d =
     (if state d = Stopped then (Err (TooManyErrors (error_count d) None), d)
      else if buffer d = [] then (Ok None, d\<lparr>state := Ready\<rparr>)
      else
        let d1 = d\<lparr>state := Parsing\<rparr> in
        (case parse_frame crc (buffer d1) of
           Ok (Some (fr, consumed)) \<Rightarrow>
             (Ok (Some fr),
              d1\<lparr>buffer := drop consumed (buffer d1), state := Ready,
                 frames_decoded := frames_decoded d1 + 1, error_count := 0\<rparr>)
         | Ok None \<Rightarrow> (Ok None, d1\<lparr>state := Ready\<rparr>)
         | Err e \<Rightarrow>
             let d2 = d1\<lparr>error_count := error_count d1 + 1\<rparr> in
             if error_count d2 \<ge> max_errors d2
             then (Err (TooManyErrors (error_count d2) (Some e)),
                   d2\<lparr>state := Stopped, buffer := []\<rparr>)
             else (Err e, (try_recover e d2)\<lparr>state := Recovering\<rparr>)))"

definition is_stopped :: "decoder \<Rightarrow> bool" where
  "is_stopped d \<longleftrightarrow> state d = Stopped"

definition decode_iter_next ::
  "(bytes \<Rightarrow> u32) \<Rightarrow> decoder \<Rightarrow> (parse_error + frame) option \<times> decoder" where
  "decode_iter_next crc d =
     (if is_stopped d then (None, d)
      else
        (case decode crc d of
           (Ok (Some fr), d') \<Rightarrow> (Some (Ok fr), d')
         | (Ok None, d') \<Rightarrow> (None, d')
         | (Err e, d') \<Rightarrow> (Some (Err e), d')))"

subsection \<open>Every iteration takes bytes from the buffer\<close>

lemma try_recover_buffer:
  "\<exists>n. 1 \<le> n \<and> buffer (try_recover e d) = drop n (buffer d)"
  by (auto simp: try_recover_def skip_bytes_def Let_def split: parse_error.splits
      intro: exI [of _ 1] exI [of _ "unat (be_word (take 4 (buffer d)) :: u32)"])

lemma decode_shrinks:
  "decode_iter_next crc d = (Some item, d') \<Longrightarrow> length (buffer d') < length (buffer d)"
proof -
  assume a: "decode_iter_next crc d = (Some item, d')"
  have rec: "length (buffer (try_recover e d0)) < length (buffer d)"
    if "buffer d0 = buffer d" "buffer d \<noteq> []" for e d0
    using try_recover_buffer [of e d0] that by (cases "buffer d") auto
  show ?thesis
    using a by (auto simp: decode_iter_next_def is_stopped_def decode_def Let_def
        dest: parse_frame_bounds intro!: rec
        split: if_splits sum.splits option.splits prod.splits)
qed

text \<open>The loop \<open>for result in decoder.decode_iter()\<close>: the items and the decoder it leaves.\<close>

function drain :: "(bytes \<Rightarrow> u32) \<Rightarrow> decoder \<Rightarrow> (parse_error + frame) list \<times> decoder" where
  "drain crc d =
     (case decode_iter_next crc d of
        (None, d') \<Rightarrow> ([], d')
      | (Some item, d') \<Rightarrow> (let (items, d'') = drain crc d' in (item # items, d'')))"
  by pat_completeness auto
termination
  by (relation "measure (\<lambda>(crc, d). length (buffer d))") (auto dest: decode_shrinks [OF sym])

declare drain.simps [simp del]

subsection \<open>The specification: scanning bytes that are all there\<close>

text \<open>
  The items, and the number of errors in a row with the bytes that are left, \<open>None\<close> when the
  errors ended the scan. The fuel bounds the number of items; one more than the number of bytes is
  always enough (\<open>scan_fuel\<close>).
\<close>

fun scan :: "(bytes \<Rightarrow> parse_error + (frame \<times> nat) option) \<Rightarrow> (parse_error \<Rightarrow> bytes \<Rightarrow> nat) \<Rightarrow> nat \<Rightarrow>
    nat \<Rightarrow> nat \<Rightarrow> bytes \<Rightarrow> (parse_error + frame) list \<times> (nat \<times> bytes) option" where
  "scan parse skip m 0 ec b = ([], Some (ec, b))"
| "scan parse skip m (Suc k) ec b =
     (case parse b of
        Ok None \<Rightarrow> ([], Some (ec, b))
      | Ok (Some (f, n)) \<Rightarrow> apfst (Cons (Ok f)) (scan parse skip m k 0 (drop n b))
      | Err e \<Rightarrow>
          if ec + 1 \<ge> m then ([Err (TooManyErrors (ec + 1) (Some e))], None)
          else apfst (Cons (Err e)) (scan parse skip m k (ec + 1) (drop (skip e b) b)))"

definition scan_all :: "(bytes \<Rightarrow> parse_error + (frame \<times> nat) option) \<Rightarrow>
    (parse_error \<Rightarrow> bytes \<Rightarrow> nat) \<Rightarrow> nat \<Rightarrow> nat \<Rightarrow> bytes \<Rightarrow>
    (parse_error + frame) list \<times> (nat \<times> bytes) option" where
  "scan_all parse skip m ec b = scan parse skip m (Suc (length b)) ec b"

fun scan_chunks :: "(bytes \<Rightarrow> parse_error + (frame \<times> nat) option) \<Rightarrow>
    (parse_error \<Rightarrow> bytes \<Rightarrow> nat) \<Rightarrow> nat \<Rightarrow> (nat \<times> bytes) option \<Rightarrow> bytes list \<Rightarrow>
    (parse_error + frame) list \<times> (nat \<times> bytes) option" where
  "scan_chunks parse skip m st [] = ([], st)"
| "scan_chunks parse skip m st (c # cs) =
     (case st of
        None \<Rightarrow> ([], None)
      | Some (ec, r) \<Rightarrow>
          (let (items, st') = scan_all parse skip m ec (r @ c)
           in apfst (append items) (scan_chunks parse skip m st' cs)))"

locale frame_parser =
  fixes parse :: "bytes \<Rightarrow> parse_error + (frame \<times> nat) option"
    and skip :: "parse_error \<Rightarrow> bytes \<Rightarrow> nat"
  assumes parse_empty: "parse [] = Ok None"
    and parse_bound: "parse b = Ok (Some (f, n)) \<Longrightarrow> 0 < n \<and> n \<le> length b"
    and parse_final: "parse b \<noteq> Ok None \<Longrightarrow> parse (b @ x) = parse b"
    and skip_bound: "parse b = Err e \<Longrightarrow> 0 < skip e b \<and> skip e b \<le> length b"
    and skip_final: "parse b = Err e \<Longrightarrow> skip e (b @ x) = skip e b"
begin

lemma scan_fuel: "length b < k \<Longrightarrow> scan parse skip m k ec b = scan_all parse skip m ec b"
proof (induction k arbitrary: ec b rule: less_induct)
  case (less k)
  show ?case
  proof (cases k)
    case (Suc k')
    have step: "scan parse skip m k' ec' (drop n b) = scan parse skip m (length b) ec' (drop n b)"
      if "0 < n" "n \<le> length b" for n ec'
    proof (cases "length b = k'")
      case False
      with that less.prems Suc have "length (drop n b) < k'" "length (drop n b) < length b" "length b < k"
        by simp_all
      then show ?thesis using less.IH [of k'] less.IH [of "length b"] Suc by simp
    qed simp
    show ?thesis
      unfolding scan_all_def Suc scan.simps
      by (auto split: sum.split option.split dest!: parse_bound skip_bound simp: step)
  qed (use less.prems in simp)
qed

lemma scan_all_unfold:
  "scan_all parse skip m ec b =
     (case parse b of
        Ok None \<Rightarrow> ([], Some (ec, b))
      | Ok (Some (f, n)) \<Rightarrow> apfst (Cons (Ok f)) (scan_all parse skip m 0 (drop n b))
      | Err e \<Rightarrow>
          if ec + 1 \<ge> m then ([Err (TooManyErrors (ec + 1) (Some e))], None)
          else apfst (Cons (Err e)) (scan_all parse skip m (ec + 1) (drop (skip e b) b)))"
  unfolding scan_all_def [of _ _ _ ec b] scan.simps
  by (auto split: sum.split option.split dest!: parse_bound skip_bound intro!: arg_cong [of _ _ "apfst _"] scan_fuel)

lemma apfst_Cons_append: "apfst (Cons a) (apfst (append i) p) = apfst (append (a # i)) p"
  by (cases p) simp

lemma apfst_append_Nil: "apfst (append []) p = p"
  by (cases p) simp

lemma scan_append:
  "scan_all parse skip m ec (a @ x) =
     (case scan_all parse skip m ec a of
        (items, None) \<Rightarrow> (items, None)
      | (items, Some (ec', r)) \<Rightarrow> apfst (append items) (scan_all parse skip m ec' (r @ x)))"
proof (induction "length a" arbitrary: a ec rule: less_induct)
  case less
  show ?case
  proof (cases "parse a")
    case (Inl e)
    then have "parse (a @ x) = Err e" "skip e (a @ x) = skip e a" "0 < skip e a" "skip e a \<le> length a"
      using parse_final [of a x] skip_final skip_bound [of a e] by auto
    then show ?thesis
      using Inl less.hyps [of "drop (skip e a) a"]
      by (simp add: scan_all_unfold [of m ec a] scan_all_unfold [of m ec "a @ x"]
            apfst_Cons_append split: prod.splits option.splits)
  next
    case (Inr r)
    show ?thesis
    proof (cases r)
      case None
      then show ?thesis by (simp add: Inr scan_all_unfold [of m ec a] apfst_append_Nil)
    next
      case (Some fn)
      obtain f n where fn: "fn = (f, n)" by (cases fn)
      then have "parse (a @ x) = Ok (Some (f, n))" "0 < n" "n \<le> length a"
        using Inr Some parse_final [of a x] parse_bound [of a f n] by auto
      then show ?thesis
        using Inr Some fn less.hyps [of "drop n a"]
        by (simp add: scan_all_unfold [of m ec a] scan_all_unfold [of m ec "a @ x"]
            apfst_Cons_append split: prod.splits option.splits)
    qed
  qed
qed

lemma scan_all_rest:
  "snd (scan_all parse skip m ec b) = Some (ec', r) \<Longrightarrow> parse r = Ok None"
proof (induction "length b" arbitrary: b ec rule: less_induct)
  case less
  show ?case
  proof (cases "parse b")
    case (Inl e)
    then show ?thesis
      using less.prems less.hyps [of "drop (skip e b) b" "ec + 1"] skip_bound [of b e]
      by (simp add: scan_all_unfold [of m ec b] split: if_splits)
  next
    case (Inr o')
    then show ?thesis
      using less.prems less.hyps [of "drop (snd (the o')) b" 0] parse_bound [of b "fst (the o')" "snd (the o')"]
      by (auto simp: scan_all_unfold [of m ec b] split: option.splits)
  qed
qed

text \<open>Where the bytes are cut makes no difference.\<close>

lemma scan_chunks_concat:
  "parse r = Ok None \<Longrightarrow>
     scan_chunks parse skip m (Some (ec, r)) cs = scan_all parse skip m ec (r @ concat cs)"
proof (induction cs arbitrary: ec r)
  case Nil
  then show ?case by (simp add: scan_all_unfold)
next
  case (Cons c cs)
  have stop: "scan_chunks parse skip m None cs = ([], None)" for cs by (cases cs) simp_all
  obtain items st where s: "scan_all parse skip m ec (r @ c) = (items, st)" by force
  show ?case
  proof (cases st)
    case None
    then show ?thesis using scan_append [of m ec "r @ c" "concat cs"] by (simp add: s stop)
  next
    case (Some er)
    obtain ec' r' where "er = (ec', r')" by force
    then show ?thesis
      using scan_append [of m ec "r @ c" "concat cs"] Cons.IH [of r' ec']
        scan_all_rest [of m ec "r @ c" ec' r'] Some by (simp add: s)
  qed
qed

end

subsection \<open>The decoder implements the specification\<close>

text \<open>How many bytes the recovery skips.\<close>

definition recovery_skip :: "parse_error \<Rightarrow> bytes \<Rightarrow> nat" where
  "recovery_skip e b =
     (let total = unat (be_word (take 4 b) :: u32);
          whole = (if 12 \<le> length b \<and> 16 \<le> total \<and> total \<le> length b then total else 1) in
      (case e of
         MessageCrcMismatch _ _ \<Rightarrow> whole
       | HeaderParseFailed _ \<Rightarrow> whole
       | InvalidHeaderType _ \<Rightarrow> whole
       | Incomplete _ _ \<Rightarrow> whole
       | _ \<Rightarrow> 1))"

lemma try_recover_skip:
  "buffer d \<noteq> [] \<Longrightarrow> try_recover e d = skip_bytes (recovery_skip e (buffer d)) d"
  by (simp add: try_recover_def recovery_skip_def Let_def split: parse_error.split)

lemma recovery_skip_pos: "0 < recovery_skip e b"
  by (simp add: recovery_skip_def Let_def split: parse_error.split)

lemma parse_frame_ErrD:
  "parse_frame crc b = Err e \<Longrightarrow> 12 \<le> length b \<and>
     ((\<exists>x y. e = PreludeCrcMismatch x y \<or> e = MessageTooSmall x y \<or> e = MessageTooLarge x y) \<or>
      16 \<le> unat (be_word (take 4 b) :: u32) \<and> unat (be_word (take 4 b) :: u32) \<le> length b)"
  by (auto simp: parse_frame_def Let_def word_less_nat_alt not_less split: if_splits)

interpretation frames: frame_parser "parse_frame crc" recovery_skip
proof unfold_locales
  fix b e x
  assume e: "parse_frame crc b = Err e"
  show "0 < recovery_skip e b \<and> recovery_skip e b \<le> length b"
    using parse_frame_ErrD [OF e] recovery_skip_pos
    by (auto simp: recovery_skip_def Let_def split: parse_error.split)
  show "recovery_skip e (b @ x) = recovery_skip e b"
    using parse_frame_ErrD [OF e]
    by (auto simp: recovery_skip_def Let_def split: parse_error.split)
qed (auto simp: parse_frame_final dest: parse_frame_bounds)

text \<open>The state of a scan that a decoder stands for.\<close>

definition scan_state :: "decoder \<Rightarrow> (nat \<times> bytes) option" where
  "scan_state d = (if is_stopped d then None else Some (error_count d, buffer d))"

lemma drain_stopped: "state d = Stopped \<Longrightarrow> drain crc d = ([], d)"
  by (simp add: drain.simps decode_iter_next_def is_stopped_def)

lemma drain_scan:
  "\<not> is_stopped d \<Longrightarrow>
     scan_all (parse_frame crc) recovery_skip (max_errors d) (error_count d) (buffer d) =
       map_prod id scan_state (drain crc d)"
proof (induction crc d rule: drain.induct)
  case (1 crc d)
  show ?case
  proof (cases "buffer d = []")
    case True
    with "1.prems" show ?thesis
      by (simp add: drain.simps [of crc d] decode_iter_next_def decode_def is_stopped_def
          frames.scan_all_unfold [of crc _ _ "[]"] scan_state_def)
  next
    case False
    note unf = drain.simps [of crc d] frames.scan_all_unfold [of crc _ _ "buffer d"]
      decode_iter_next_def decode_def Let_def
    show ?thesis
    proof (cases "parse_frame crc (buffer d)")
      case (Inl e)
      show ?thesis
      proof (cases "max_errors d \<le> error_count d + 1")
        case True
        then show ?thesis using Inl False "1.prems"
          by (simp add: unf is_stopped_def scan_state_def drain_stopped)
      next
        case less: False
        show ?thesis using Inl False less "1.prems" "1.IH"
          by (simp add: unf is_stopped_def try_recover_skip skip_bytes_def apfst_def
              split: prod.splits)
      qed
    next
      case (Inr r)
      show ?thesis
      proof (cases r)
        case None
        then show ?thesis using False Inr "1.prems"
          by (simp add: unf is_stopped_def scan_state_def)
      next
        case (Some fn)
        then show ?thesis using False Inr "1.prems" "1.IH"
          by (cases fn) (simp add: unf is_stopped_def apfst_def split: prod.splits)
      qed
    qed
  qed
qed


lemma decode_iter_next_keeps:
  "decode_iter_next crc d = (r, d') \<Longrightarrow>
     max_errors d' = max_errors d \<and> max_buffer_size d' = max_buffer_size d"
  by (auto simp: decode_iter_next_def decode_def try_recover_def skip_bytes_def Let_def
      split: if_splits sum.splits option.splits prod.splits parse_error.splits)

lemma drain_keeps:
  "drain crc d = (items, d') \<Longrightarrow>
     max_errors d' = max_errors d \<and> max_buffer_size d' = max_buffer_size d"
proof (induction crc d arbitrary: items d' rule: drain.induct)
  case (1 crc d)
  show ?case
    using "1.prems" "1.IH"
    by (subst (asm) drain.simps) (force split: prod.splits option.splits dest: decode_iter_next_keeps)
qed

subsection \<open>Streams\<close>

text \<open>What the callers do with each chunk: feed it, then drain the decoder.\<close>

definition feed_and_drain :: "(bytes \<Rightarrow> u32) \<Rightarrow> bytes \<Rightarrow> decoder \<Rightarrow>
    (parse_error + unit) \<times> (parse_error + frame) list \<times> decoder" where
  "feed_and_drain crc chunk d = (let (r, d1) = feed chunk d in (r, drain crc d1))"

primrec run_chunks :: "(bytes \<Rightarrow> u32) \<Rightarrow> bytes list \<Rightarrow> decoder \<Rightarrow>
    (parse_error + frame) list \<times> decoder" where
  "run_chunks crc [] d = ([], d)"
| "run_chunks crc (c # cs) d =
     (let (_, items, d1) = feed_and_drain crc c d; (rest, d2) = run_chunks crc cs d1
      in (items @ rest, d2))"

text \<open>A decoder between two chunks: stopped, or waiting for the rest of a message.\<close>

definition waiting :: "(bytes \<Rightarrow> u32) \<Rightarrow> decoder \<Rightarrow> bool" where
  "waiting crc d \<longleftrightarrow>
     max_buffer_size d = DEFAULT_MAX_BUFFER_SIZE \<and>
     (is_stopped d \<or> parse_frame crc (buffer d) = Ok None)"

lemma waiting_new [simp]: "waiting crc decoder_new"
  by (simp add: waiting_def decoder_new_def)

lemma feed_fits:
  "waiting crc d \<Longrightarrow> length c \<le> BUFFER_CHUNK_SLACK \<Longrightarrow> \<not> is_stopped d \<Longrightarrow>
     \<exists>d1. feed c d = (Ok (), d1) \<and> \<not> is_stopped d1 \<and> buffer d1 = buffer d @ c \<and>
       error_count d1 = error_count d \<and> max_errors d1 = max_errors d \<and>
       max_buffer_size d1 = max_buffer_size d"
  by (auto simp: waiting_def feed_def is_stopped_def Let_def BUFFER_CHUNK_SLACK_def
      DEFAULT_MAX_BUFFER_SIZE_def usize_max_def u64_max_def dest!: parse_frame_waits)

lemma feed_and_drain_scan:
  assumes "waiting crc d" "length c \<le> BUFFER_CHUNK_SLACK"
    and "feed_and_drain crc c d = (r, items, d')"
  shows "r = Ok () \<and> waiting crc d' \<and> max_errors d' = max_errors d \<and>
    (items, scan_state d') =
      (case scan_state d of
         None \<Rightarrow> ([], None)
       | Some (ec, b) \<Rightarrow> scan_all (parse_frame crc) recovery_skip (max_errors d) ec (b @ c))"
proof (cases "is_stopped d")
  case True
  then show ?thesis
    using assms by (auto simp: feed_and_drain_def feed_def drain_stopped scan_state_def is_stopped_def)
next
  case False
  obtain d1 where d1: "feed c d = (Ok (), d1)" "\<not> is_stopped d1" "buffer d1 = buffer d @ c"
      "error_count d1 = error_count d" "max_errors d1 = max_errors d"
      "max_buffer_size d1 = max_buffer_size d"
    using feed_fits [OF assms(1,2) False] by blast
  then have "r = Ok ()" and dr: "drain crc d1 = (items, d')"
    using assms(3) by (simp_all add: feed_and_drain_def)
  moreover have scan: "scan_all (parse_frame crc) recovery_skip (max_errors d) (error_count d)
      (buffer d @ c) = (items, scan_state d')"
    using drain_scan [OF d1(2), of crc] d1 dr by simp
  moreover have "waiting crc d'"
    using frames.scan_all_rest [of crc "max_errors d" "error_count d" "buffer d @ c"] scan
      drain_keeps [OF dr] d1(6) assms(1)
    by (simp add: waiting_def scan_state_def split: if_splits)
  ultimately show ?thesis
    using False drain_keeps [OF dr] d1(5) by (simp add: scan_state_def)
qed

lemma run_chunks_scan:
  "waiting crc d \<Longrightarrow> \<forall>c \<in> set cs. length c \<le> BUFFER_CHUNK_SLACK \<Longrightarrow>
     map_prod id scan_state (run_chunks crc cs d) =
       scan_chunks (parse_frame crc) recovery_skip (max_errors d) (scan_state d) cs"
proof (induction cs arbitrary: d)
  case (Cons c cs)
  obtain r items d1 where fd: "feed_and_drain crc c d = (r, items, d1)" by (metis prod_cases3)
  have step: "waiting crc d1" "max_errors d1 = max_errors d"
    "(items, scan_state d1) =
      (case scan_state d of
         None \<Rightarrow> ([], None)
       | Some (ec, b) \<Rightarrow> scan_all (parse_frame crc) recovery_skip (max_errors d) ec (b @ c))"
    using feed_and_drain_scan [OF Cons.prems(1) _ fd] Cons.prems(2) by auto
  have small: "\<forall>c \<in> set cs. length c \<le> BUFFER_CHUNK_SLACK" using Cons.prems(2) by simp
  note IH = Cons.IH [OF step(1) small, unfolded step(2)]
  have stop: "scan_chunks (parse_frame crc) recovery_skip m None cs = ([], None)" for m
    by (cases cs) simp_all
  show ?case
    using IH [symmetric] step(3)
    by (cases "run_chunks crc cs d1") (auto simp: fd stop split: option.splits prod.splits)
qed simp

subsection \<open>What a damaged stream decodes to\<close>










text \<open>
  C1. However the bytes of a stream are cut into chunks, the decoder yields the same. Feed a new
  decoder the chunks one after the other, each of at most 64 KiB, and drain it after each: for any
  two ways of cutting the same bytes the sequence of frames and errors is the same, and so are the
  number of errors in a row, the bytes kept for the next chunk, and whether the decoder stopped.
\<close>
theorem run_chunks_cut:
  assumes "\<forall>c \<in> set cs. length c \<le> BUFFER_CHUNK_SLACK"
    and "\<forall>c \<in> set cs'. length c \<le> BUFFER_CHUNK_SLACK"
    and "concat cs = concat cs'"
  shows "map_prod id scan_state (run_chunks crc cs decoder_new) =
    map_prod id scan_state (run_chunks crc cs' decoder_new)"
  using assms
  by (simp add: run_chunks_scan scan_state_def is_stopped_def decoder_new_def
      frames.scan_chunks_concat waiting_new [unfolded decoder_new_def])

lemma run_chunks_cut_witness:
  "map_prod id scan_state (run_chunks (\<lambda>_. 0) [[0, 0], [0, 16, 0]] decoder_new) =
   map_prod id scan_state (run_chunks (\<lambda>_. 0) [[0], [0, 0, 16], [], [0]] decoder_new)"
  by (rule run_chunks_cut) (simp_all add: BUFFER_CHUNK_SLACK_def)



subsection \<open>Every state the decoder can reach\<close>

text \<open>Chunks of any size, in any order with the iterations of the drain.\<close>

inductive decoder_step :: "(bytes \<Rightarrow> u32) \<Rightarrow> decoder \<Rightarrow> decoder \<Rightarrow> bool" for crc where
  step_feed: "feed data d = (r, d') \<Longrightarrow> decoder_step crc d d'"
| step_decode: "decode crc d = (r, d') \<Longrightarrow> decoder_step crc d d'"
| step_next: "decode_iter_next crc d = (r, d') \<Longrightarrow> decoder_step crc d d'"

inductive decoder_reaches :: "(bytes \<Rightarrow> u32) \<Rightarrow> decoder \<Rightarrow> bool" for crc where
  reaches_new: "decoder_reaches crc decoder_new"
| reaches_step: "decoder_reaches crc d \<Longrightarrow> decoder_step crc d d' \<Longrightarrow> decoder_reaches crc d'"

definition decoder_inv :: "decoder \<Rightarrow> bool" where
  "decoder_inv d \<longleftrightarrow>
     max_errors d = DEFAULT_MAX_ERRORS \<and> max_buffer_size d = DEFAULT_MAX_BUFFER_SIZE \<and>
     length (buffer d) \<le> DEFAULT_MAX_BUFFER_SIZE \<and>
     (if is_stopped d then buffer d = [] \<and> error_count d = DEFAULT_MAX_ERRORS
      else error_count d < DEFAULT_MAX_ERRORS)"

lemma decoder_inv_new [kiro_intros]: "decoder_inv decoder_new"
  by (simp add: decoder_inv_def decoder_new_def is_stopped_def DEFAULT_MAX_ERRORS_def)

lemma decoder_inv_feed [kiro_intros]: "decoder_inv d \<Longrightarrow> decoder_inv (snd (feed data d))"
  by (auto simp: decoder_inv_def feed_def is_stopped_def Let_def usize_max_def u64_max_def
      DEFAULT_MAX_BUFFER_SIZE_def BUFFER_CHUNK_SLACK_def)

lemma decoder_inv_decode [kiro_intros]: "decoder_inv d \<Longrightarrow> decoder_inv (snd (decode crc d))"
  by (auto simp: decoder_inv_def decode_def is_stopped_def Let_def try_recover_skip skip_bytes_def
      DEFAULT_MAX_ERRORS_def split: sum.split option.split)

lemma decoder_inv_next [kiro_intros]: "decoder_inv d \<Longrightarrow> decoder_inv (snd (decode_iter_next crc d))"
  using decoder_inv_decode [of d crc]
  by (auto simp: decode_iter_next_def split: sum.split option.split prod.split)

lemma decoder_inv_step: "decoder_step crc d d' \<Longrightarrow> decoder_inv d \<Longrightarrow> decoder_inv d'"
  by (induction rule: decoder_step.induct) (metis kiro_intros snd_conv)+

text \<open>
  C30. Whatever is fed and however the calls of \<open>feed\<close>, \<open>decode\<close> and the iterator interleave, a
  decoder never holds more than the buffer limit; it has stopped iff five errors came in a row; a
  stopped decoder holds no bytes, and stays as it is: further chunks are accepted and dropped, and
  its iterator yields nothing.
\<close>
theorem decoder_bounded:
  assumes "decoder_reaches crc d"
  shows "length (buffer d) \<le> DEFAULT_MAX_BUFFER_SIZE \<and>
    error_count d \<le> DEFAULT_MAX_ERRORS \<and>
    (is_stopped d \<longleftrightarrow> error_count d = DEFAULT_MAX_ERRORS) \<and>
    (is_stopped d \<longrightarrow>
       buffer d = [] \<and> (\<forall>data. feed data d = (Ok (), d)) \<and> drain crc d = ([], d))"
proof -
  from assms have "decoder_inv d"
    by (induction rule: decoder_reaches.induct) (auto intro: decoder_inv_new decoder_inv_step)
  then show ?thesis
    by (auto simp: decoder_inv_def feed_def is_stopped_def drain_stopped split: if_splits)
qed

lemma decoder_bounded_witness:
  "length (buffer (snd (feed [1, 2] decoder_new))) \<le> DEFAULT_MAX_BUFFER_SIZE"
proof -
  have "decoder_reaches (\<lambda>_. 0) (snd (feed [1, 2] decoder_new))"
    by (rule reaches_step [OF reaches_new step_feed]) (rule prod.collapse [symmetric])
  from decoder_bounded [OF this] show ?thesis by (rule conjunct1)
qed

end
