(* ===== verification/Budget.thy ===== *)
theory Budget
  imports Prelude
begin

text \<open>
  The budget of upstream calls one client request shares over all its rounds, fallbacks and
  re-dispatches: \<open>src/src/kiro/retry_budget.rs\<close>. The three mutexes hold plain values; the methods
  are functions on the record of these values. The lemmas show that no sequence of rounds makes
  more than four upstream calls and that the quota of a round is never larger than what is left.
\<close>

definition MAX_RETRIES_PER_CREDENTIAL :: nat where "MAX_RETRIES_PER_CREDENTIAL = 3"
definition SMALL_POOL_THRESHOLD :: nat where "SMALL_POOL_THRESHOLD = 3"
definition ABSOLUTE_MAX_TOTAL_RETRIES :: nat where "ABSOLUTE_MAX_TOTAL_RETRIES = 4"

record retry_budget =
  remaining_calls :: nat
  first_attempted_credential_id :: "nat option"
  excluded_credentials :: "nat set"

definition budget_new :: retry_budget where
  "budget_new = \<lparr>remaining_calls = ABSOLUTE_MAX_TOTAL_RETRIES,
     first_attempted_credential_id = None, excluded_credentials = {}\<rparr>"

definition exclude :: "nat \<Rightarrow> retry_budget \<Rightarrow> retry_budget" where
  "exclude cid b = b\<lparr>excluded_credentials := insert cid (excluded_credentials b)\<rparr>"

definition excluded :: "retry_budget \<Rightarrow> nat set" where
  "excluded b = excluded_credentials b"

definition remaining :: "retry_budget \<Rightarrow> nat" where
  "remaining b = remaining_calls b"

definition used :: "retry_budget \<Rightarrow> nat" where
  "used b = ABSOLUTE_MAX_TOTAL_RETRIES - remaining b"

definition consume :: "nat \<Rightarrow> retry_budget \<Rightarrow> retry_budget" where
  "consume n b = b\<lparr>remaining_calls := remaining_calls b - n\<rparr>"

definition note_first_attempt :: "nat \<Rightarrow> retry_budget \<Rightarrow> retry_budget" where
  "note_first_attempt cid b =
     (case first_attempted_credential_id b of
        None \<Rightarrow> b\<lparr>first_attempted_credential_id := Some cid\<rparr>
      | Some _ \<Rightarrow> b)"

definition first_attempted :: "retry_budget \<Rightarrow> nat option" where
  "first_attempted b = first_attempted_credential_id b"

definition round_retry_quota :: "nat \<Rightarrow> nat \<Rightarrow> nat" where
  "round_retry_quota base_quota attempts_before =
     min base_quota (ABSOLUTE_MAX_TOTAL_RETRIES - attempts_before)"

text \<open>\<open>total * per_cred\<close> wraps on 64 bits; pools are far smaller, the product is written out.\<close>

definition compute_max_retries :: "nat \<Rightarrow> nat \<Rightarrow> nat" where
  "compute_max_retries pool available =
     (let per_cred = (if pool \<le> SMALL_POOL_THRESHOLD then 1 else MAX_RETRIES_PER_CREDENTIAL) in
      max (min ((pool * per_cred) mod (usize_max + 1)) ABSOLUTE_MAX_TOTAL_RETRIES) 1)"

definition budget_inv :: "retry_budget \<Rightarrow> bool" where
  "budget_inv b \<longleftrightarrow> remaining b \<le> ABSOLUTE_MAX_TOTAL_RETRIES"

lemma budget_inv_new [kiro_intros]: "budget_inv budget_new"
  by (simp add: budget_inv_def budget_new_def remaining_def)

lemma budget_inv_ops [kiro_intros]:
  "budget_inv b \<Longrightarrow> budget_inv (consume n b)"
  "budget_inv b \<Longrightarrow> budget_inv (exclude cid b)"
  "budget_inv b \<Longrightarrow> budget_inv (note_first_attempt cid b)"
  by (auto simp: budget_inv_def consume_def exclude_def note_first_attempt_def remaining_def
      split: option.split)

lemma used_consume_one:
  "budget_inv b \<Longrightarrow> 0 < remaining b \<Longrightarrow> used (consume 1 b) = used b + 1"
  by (simp add: budget_inv_def used_def consume_def remaining_def)

lemma quota_le_remaining: "budget_inv b \<Longrightarrow> round_retry_quota q (used b) \<le> remaining b"
  by (simp add: round_retry_quota_def used_def budget_inv_def)

lemma compute_max_retries_range:
  "1 \<le> compute_max_retries t a \<and> compute_max_retries t a \<le> ABSOLUTE_MAX_TOTAL_RETRIES"
  by (simp add: compute_max_retries_def Let_def ABSOLUTE_MAX_TOTAL_RETRIES_def)

lemma first_attempt_stays: "first_attempted b = Some i \<Longrightarrow> note_first_attempt j b = b"
  by (simp add: first_attempted_def note_first_attempt_def)

end
