(* ===== verification/Absorb.thy ===== *)
theory Absorb
  imports Budget
begin

text \<open>
  The policy that decides, after a round of failover has ended in an error, whether the request
  waits and tries another round: \<open>src/src/kiro/absorb_policy.rs\<close>, the classes of
  \<open>src/src/model/absorb.rs\<close>, and the end of the \<open>'absorb\<close> loop of \<open>call_api_with_retry\<close> in
  \<open>src/src/kiro/provider.rs\<close>. Counters, alerts and log output are left out; the class of the last
  error, which the source reads off its text, is an argument.

  The lemmas show that the waits stay within the policy's bounds for every configuration, that a
  round is only started when the remaining time can hold it and the pool will have recovered. The
  loop itself, with the calls it makes, is in \<open>RequestCalls\<close>.
\<close>

definition MAX_REQUEST_RETRY_BUDGET_SECS :: nat where "MAX_REQUEST_RETRY_BUDGET_SECS = 45"
definition ABSORB_MIN_USEFUL_ROUND_SECS :: nat where "ABSORB_MIN_USEFUL_ROUND_SECS = 20"
definition ABSORB_MIN_BACKOFF :: duration where "ABSORB_MIN_BACKOFF = millis 50"
definition SWAP_WINDOW_BACKOFF_SECS :: "nat list" where "SWAP_WINDOW_BACKOFF_SECS = [20, 40, 60]"
definition ABSORB_BUDGET_CEILING :: duration where "ABSORB_BUDGET_CEILING = secs (24 * 60 * 60)"

datatype absorb_class =
  PoolCooldown nat
| UpstreamRateLimit
| SwapWindow
| TransientServerError
| TransientCapacity400

text \<open>The fields of \<open>Config\<close> the policy reads.\<close>

record absorb_config =
  upstream_retry_absorb_enabled :: bool
  upstream_retry_absorb_budget_secs :: nat
  upstream_retry_absorb_max_rounds :: nat
  upstream_retry_absorb_min_delay_ms :: nat
  upstream_retry_absorb_max_delay_secs :: nat
  upstream_retry_absorb_suspended :: bool
  upstream_retry_absorb_server_error :: bool
  upstream_retry_absorb_capacity_400 :: bool
  upstream_retry_absorb_swap_budget_secs :: nat
  upstream_retry_absorb_exhausted_status :: nat

record absorb_policy =
  enabled :: bool
  budget :: duration
  max_rounds :: nat
  min_delay :: duration
  max_delay :: duration
  absorb_suspended :: bool
  absorb_server_error :: bool
  absorb_capacity_400 :: bool
  swap_budget :: duration
  exhausted_as_503 :: bool

definition absorb_from_config :: "absorb_config \<Rightarrow> absorb_policy" where
  "absorb_from_config cfg =
     (let swap = min (secs (upstream_retry_absorb_swap_budget_secs cfg)) ABSORB_BUDGET_CEILING;
          rounds = (if upstream_retry_absorb_suspended cfg \<and> swap = 0
                    then min (upstream_retry_absorb_max_rounds cfg) 1
                    else upstream_retry_absorb_max_rounds cfg);
          mind = max (millis (upstream_retry_absorb_min_delay_ms cfg)) ABSORB_MIN_BACKOFF;
          maxd = max (secs (upstream_retry_absorb_max_delay_secs cfg)) mind in
      \<lparr>enabled = upstream_retry_absorb_enabled cfg,
       budget = min (max (secs (upstream_retry_absorb_budget_secs cfg))
                      (secs MAX_REQUEST_RETRY_BUDGET_SECS)) ABSORB_BUDGET_CEILING,
       max_rounds = rounds,
       min_delay = mind,
       max_delay = maxd,
       absorb_suspended = upstream_retry_absorb_suspended cfg,
       absorb_server_error = upstream_retry_absorb_server_error cfg,
       absorb_capacity_400 = upstream_retry_absorb_capacity_400 cfg,
       swap_budget = swap,
       exhausted_as_503 = (upstream_retry_absorb_exhausted_status cfg = 503)\<rparr>)"

definition class_allowed :: "absorb_policy \<Rightarrow> absorb_class \<Rightarrow> bool" where
  "class_allowed p cl =
     (case cl of
        PoolCooldown _ \<Rightarrow> True
      | UpstreamRateLimit \<Rightarrow> True
      | SwapWindow \<Rightarrow> absorb_suspended p
      | TransientServerError \<Rightarrow> absorb_server_error p
      | TransientCapacity400 \<Rightarrow> absorb_capacity_400 p)"

definition class_deadline :: "absorb_policy \<Rightarrow> instant \<Rightarrow> absorb_class \<Rightarrow> instant" where
  "class_deadline p call_started cl =
     (if cl = SwapWindow \<and> swap_budget p \<noteq> 0 then call_started + swap_budget p
      else call_started + budget p)"

definition class_max_delay :: "absorb_policy \<Rightarrow> absorb_class \<Rightarrow> duration" where
  "class_max_delay p cl =
     (if cl = SwapWindow \<and> swap_budget p \<noteq> 0 then
        let ladder_top = secs (SWAP_WINDOW_BACKOFF_SECS ! (length SWAP_WINDOW_BACKOFF_SECS - 1)) in
        max (max_delay p) ladder_top
      else max_delay p)"

definition effective_max_rounds :: "absorb_policy \<Rightarrow> nat" where
  "effective_max_rounds p = (if enabled p then max_rounds p else 0)"

definition round_budget :: "absorb_policy \<Rightarrow> instant \<Rightarrow> instant \<Rightarrow> duration" where
  "round_budget p deadline round_started =
     (let full = secs MAX_REQUEST_RETRY_BUDGET_SECS in
      if enabled p then min full (deadline - round_started) else full)"

text \<open>The shift \<open>1u32 << round.min(6)\<close> is a power of two that fits.\<close>

definition required_wait :: "absorb_policy \<Rightarrow> absorb_class \<Rightarrow> nat \<Rightarrow> duration" where
  "required_wait p cl round =
     (case cl of
        PoolCooldown s \<Rightarrow> secs s
      | UpstreamRateLimit \<Rightarrow> duration_sat_mul (min_delay p) (2 ^ min round 6)
      | SwapWindow \<Rightarrow>
          if swap_budget p = 0 then duration_sat_mul (min_delay p) (2 ^ min round 6)
          else
            let idx = min round (length SWAP_WINDOW_BACKOFF_SECS - 1) in
            secs (SWAP_WINDOW_BACKOFF_SECS ! idx)
      | TransientServerError \<Rightarrow> duration_sat_mul (secs 1) (2 ^ min round 4)
      | TransientCapacity400 \<Rightarrow> duration_sat_mul (secs 2) (2 ^ min round 4))"

definition backoff :: "absorb_policy \<Rightarrow> absorb_class \<Rightarrow> nat \<Rightarrow> duration" where
  "backoff p cl round = clamp (min_delay p) (class_max_delay p cl) (required_wait p cl round)"

definition backoff_is_truncated :: "absorb_policy \<Rightarrow> absorb_class \<Rightarrow> nat \<Rightarrow> bool" where
  "backoff_is_truncated p cl round \<longleftrightarrow>
     (case cl of PoolCooldown _ \<Rightarrow> required_wait p cl round > max_delay p | _ \<Rightarrow> False)"

definition should_start_another_round :: "instant \<Rightarrow> instant \<Rightarrow> duration \<Rightarrow> bool" where
  "should_start_another_round deadline now delay \<longleftrightarrow>
     deadline - now > delay + secs ABSORB_MIN_USEFUL_ROUND_SECS"

subsection \<open>The decision at the end of a round\<close>

datatype absorb_stop =
  RoundsExhausted
| RetryQuotaExhausted
| NoError
| NotAbsorbable
| ClassAbsorbDisabled
| BackoffTruncated
| BudgetTooSmallForRound

text \<open>Either why the loop ends, or how long it sleeps and the deadline of the next round.\<close>

definition absorb_decide :: "absorb_policy \<Rightarrow> nat \<Rightarrow> retry_budget \<Rightarrow> nat \<Rightarrow>
    absorb_class option option \<Rightarrow> instant \<Rightarrow> instant \<Rightarrow> absorb_stop + duration \<times> instant" where
  "absorb_decide absorb base_retry_quota bud absorb_round last_error call_started now =
     (if absorb_round \<ge> effective_max_rounds absorb then Inl RoundsExhausted
      else if round_retry_quota base_retry_quota (used bud) = 0 then Inl RetryQuotaExhausted
      else
        (case last_error of
           None \<Rightarrow> Inl NoError
         | Some None \<Rightarrow> Inl NotAbsorbable
         | Some (Some cl) \<Rightarrow>
             if \<not> class_allowed absorb cl then Inl ClassAbsorbDisabled
             else if backoff_is_truncated absorb cl absorb_round then Inl BackoffTruncated
             else
               let delay = backoff absorb cl absorb_round;
                   deadline = class_deadline absorb call_started cl in
               if \<not> should_start_another_round deadline now delay then Inl BudgetTooSmallForRound
               else Inr (delay, deadline)))"

subsection \<open>Bounds of the waits\<close>

lemma from_config_delays:
  "ABSORB_MIN_BACKOFF \<le> min_delay (absorb_from_config cfg)"
  "min_delay (absorb_from_config cfg) \<le> max_delay (absorb_from_config cfg)"
  by (simp_all add: absorb_from_config_def Let_def)

lemma from_config_budget:
  "secs MAX_REQUEST_RETRY_BUDGET_SECS \<le> budget (absorb_from_config cfg)"
  "budget (absorb_from_config cfg) \<le> ABSORB_BUDGET_CEILING"
  "swap_budget (absorb_from_config cfg) \<le> ABSORB_BUDGET_CEILING"
  by (simp_all add: absorb_from_config_def Let_def ABSORB_BUDGET_CEILING_def
      MAX_REQUEST_RETRY_BUDGET_SECS_def)

lemma max_delay_le_class: "max_delay p \<le> class_max_delay p cl"
  by (simp add: class_max_delay_def Let_def)

text \<open>The order of the bounds is what \<open>Duration::clamp\<close> asserts.\<close>

lemma clamp_ordered: "min_delay (absorb_from_config cfg) \<le> class_max_delay (absorb_from_config cfg) cl"
  using from_config_delays(2) max_delay_le_class by (rule order_trans)

lemma duration_sat_mul_mono: "m \<le> n \<Longrightarrow> duration_sat_mul d m \<le> duration_sat_mul d n"
  by (simp add: duration_sat_mul_def min.coboundedI1)

lemma clamp_mono: "lo \<le> hi \<Longrightarrow> x \<le> y \<Longrightarrow> clamp lo hi x \<le> clamp lo hi y"
  by (auto simp: clamp_def)

lemma doubling_mono:
  "r \<le> r' \<Longrightarrow> duration_sat_mul d (2 ^ min r k) \<le> duration_sat_mul d (2 ^ min r' k)"
  by (rule duration_sat_mul_mono, rule power_increasing) simp_all

lemma ladder_mono:
  "r \<le> r' \<Longrightarrow> SWAP_WINDOW_BACKOFF_SECS ! min r 2 \<le> SWAP_WINDOW_BACKOFF_SECS ! min r' 2"
  by (rule sorted_nth_mono) (simp_all add: SWAP_WINDOW_BACKOFF_SECS_def)

lemma required_wait_mono: "r \<le> r' \<Longrightarrow> required_wait p cl r \<le> required_wait p cl r'"
  using doubling_mono ladder_mono [of r r']
  by (cases cl) (simp_all add: required_wait_def SWAP_WINDOW_BACKOFF_SECS_def numeral_2_eq_2)

text \<open>
  Whatever the configuration, the wait before another round is at least 50 ms and at most the
  policy's maximum of the error's class, so the \<open>clamp\<close> that computes it never panics; it never
  shrinks from one round to the next; and it is at least the time the pool announced for its
  recovery, unless the policy had refused the round as truncated.
\<close>
theorem backoff_bounds:
  assumes p: "p = absorb_from_config cfg"
  shows "ABSORB_MIN_BACKOFF \<le> backoff p cl r \<and> min_delay p \<le> class_max_delay p cl \<and>
    backoff p cl r \<le> class_max_delay p cl \<and>
    backoff p cl r \<le> backoff p cl (Suc r) \<and>
    (\<forall>s. cl = PoolCooldown s \<longrightarrow> \<not> backoff_is_truncated p cl r \<longrightarrow> secs s \<le> backoff p cl r)"
proof -
  have ord: "min_delay p \<le> class_max_delay p cl"
    unfolding p by (rule clamp_ordered)
  moreover have "ABSORB_MIN_BACKOFF \<le> backoff p cl r"
    using from_config_delays(1) [of cfg] clamp_ge [OF ord]
    unfolding p backoff_def by (meson order_trans)
  moreover have "backoff p cl r \<le> backoff p cl (Suc r)"
    unfolding backoff_def by (rule clamp_mono [OF ord]) (simp add: required_wait_mono)
  moreover have "secs s \<le> backoff p cl r"
    if "cl = PoolCooldown s" "\<not> backoff_is_truncated p cl r" for s
    using that ord by (auto simp: backoff_is_truncated_def backoff_def required_wait_def
        clamp_def class_max_delay_def)
  ultimately show ?thesis by (simp add: backoff_def clamp_le)
qed

subsection \<open>When another round starts\<close>

text \<open>
  C21. Another round is started only when it can help: the policy is on and has rounds left, a call
  of the shared budget is left, the class of the error is switched on, the request will sleep at
  least as long as the pool announced, and after the sleep more than 20 seconds are left before a
  deadline at most 24 hours after the request began.
\<close>
theorem absorb_decide_sound:
  assumes "absorb_decide (absorb_from_config cfg) q bud round err call_started now =
    Inr (delay, deadline)"
  shows "enabled (absorb_from_config cfg) \<and> round < max_rounds (absorb_from_config cfg) \<and>
    0 < remaining bud \<and>
    (\<exists>cl. err = Some (Some cl) \<and> class_allowed (absorb_from_config cfg) cl \<and>
       (\<forall>s. cl = PoolCooldown s \<longrightarrow> secs s \<le> delay)) \<and>
    now + delay + secs ABSORB_MIN_USEFUL_ROUND_SECS < deadline \<and>
    deadline \<le> call_started + ABSORB_BUDGET_CEILING"
proof -
  let ?p = "absorb_from_config cfg"
  from assms obtain cl where cl: "err = Some (Some cl)" "class_allowed ?p cl"
      "\<not> backoff_is_truncated ?p cl round" "delay = backoff ?p cl round"
      "deadline = class_deadline ?p call_started cl"
      "should_start_another_round deadline now delay"
    by (auto simp: absorb_decide_def Let_def split: if_splits option.splits)
  have "deadline \<le> call_started + ABSORB_BUDGET_CEILING"
    using from_config_budget by (simp add: cl(5) class_deadline_def)
  moreover have "secs s \<le> delay" if "cl = PoolCooldown s" for s
    using that cl(3) clamp_ordered [of cfg cl]
    by (auto simp: cl(4) backoff_is_truncated_def backoff_def required_wait_def clamp_def
        class_max_delay_def)
  moreover have "enabled ?p \<and> round < max_rounds ?p \<and> 0 < remaining bud"
    using assms by (auto simp: absorb_decide_def effective_max_rounds_def round_retry_quota_def
        used_def split: if_splits)
  ultimately show ?thesis
    using cl by (auto simp: should_start_another_round_def)
qed

text \<open>A configuration with everything switched on.\<close>

definition sample_config :: absorb_config where
  "sample_config = \<lparr>upstream_retry_absorb_enabled = True, upstream_retry_absorb_budget_secs = 45,
     upstream_retry_absorb_max_rounds = 3, upstream_retry_absorb_min_delay_ms = 150,
     upstream_retry_absorb_max_delay_secs = 15, upstream_retry_absorb_suspended = False,
     upstream_retry_absorb_server_error = True, upstream_retry_absorb_capacity_400 = True,
     upstream_retry_absorb_swap_budget_secs = 0, upstream_retry_absorb_exhausted_status = 503\<rparr>"

lemmas sample_eval = sample_config_def absorb_decide_def absorb_from_config_def Let_def
  effective_max_rounds_def round_retry_quota_def used_def remaining_def budget_new_def consume_def
  ABSOLUTE_MAX_TOTAL_RETRIES_def class_allowed_def backoff_is_truncated_def required_wait_def
  backoff_def clamp_def class_max_delay_def class_deadline_def should_start_another_round_def
  ABSORB_MIN_USEFUL_ROUND_SECS_def MAX_REQUEST_RETRY_BUDGET_SECS_def ABSORB_BUDGET_CEILING_def
  ABSORB_MIN_BACKOFF_def secs_def millis_def

lemma backoff_bounds_witness:
  "secs 10 \<le> backoff (absorb_from_config sample_config) (PoolCooldown 10) 0 \<and>
   ABSORB_MIN_BACKOFF \<le> backoff (absorb_from_config sample_config) (PoolCooldown 10) 0"
  using backoff_bounds [OF refl, of sample_config "PoolCooldown 10" 0]
  by (simp add: sample_eval)

lemma sample_decision:
  "absorb_decide (absorb_from_config sample_config) 3 (consume 1 budget_new) 0
     (Some (Some (PoolCooldown 10))) 0 (secs 2) = Inr (secs 10, secs 45)"
  by (simp add: sample_eval)

lemma absorb_decide_sound_witness: "secs (2 + 10 + 20) < secs 45 \<and> secs 10 \<le> secs 10"
  using absorb_decide_sound [OF sample_decision]
  by (simp add: ABSORB_MIN_USEFUL_ROUND_SECS_def secs_def)

end
