(* ===== verification/RequestCalls.thy ===== *)
theory RequestCalls
  imports Absorb
begin

text \<open>
  The upstream calls of one client request: the loops of \<open>src/src/kiro/provider.rs\<close> that send, with
  the budget they share: the chain of endpoints, the attempts, the rounds of the absorb layer and the
  fallback model of \<open>call_api_with_retry\<close>, \<open>call_mcp_with_retry\<close> and \<open>call_mcp_direct\<close>, and
  \<open>try_custom_api_passthrough\<close>.

  The functions translate the control flow between two sends: guards, breaks, which loop goes on, when
  the budget is read and consumed. What a loop meets (clocks, gates, credentials, answers) comes in
  records, one for each turn; the branches that classify the answer of an endpoint (3779 to 4742) touch
  neither the budget nor the chain and come as the way they leave the attempt, \<open>fate\<close>. The last number
  of a state counts the calls sent, apart from the budget.
\<close>

subsection \<open>The chain of endpoints of one attempt\<close>

datatype send_result = Response nat | SendFailed bool  \<comment> \<open>no response headers in time\<close>

record hop =
  hop_dead :: bool
  hop_protocol_broken :: bool
  hop_sealed :: bool
  hop_client_built :: bool
  hop_gate_free :: bool
  hop_credential_gate_free :: bool
  hop_result :: send_result

datatype chain_exit =
  GotResponse nat
| NoResponse
| Bailed                \<comment> \<open>ends the attempts\<close>
| ClientFailed          \<comment> \<open>\<open>continue 'attempt\<close> without a pause\<close>

definition transient_status :: "nat \<Rightarrow> bool" where
  "transient_status s \<longleftrightarrow> s \<in> {408, 429, 500, 502, 503, 504, 524}"

text \<open>\<open>chain[chain_idx..]\<close>; the index never leaves the chain, which has at least the selected endpoint.\<close>

fun endpoint_chain :: "hop list \<Rightarrow> retry_budget \<Rightarrow> nat \<Rightarrow> chain_exit \<times> retry_budget \<times> nat" where
  "endpoint_chain [] b n = (Bailed, b, n)"
| "endpoint_chain (h # hs) b n =
     (if remaining b = 0 then (Bailed, b, n)
      else if hs \<noteq> [] \<and> (hop_dead h \<or> hop_protocol_broken h \<or> hop_sealed h) then endpoint_chain hs b n
      else if \<not> hop_client_built h then (ClientFailed, b, n)
      else if \<not> hop_gate_free h then (Bailed, b, n)
      else if \<not> hop_credential_gate_free h then
        (if hs \<noteq> [] then endpoint_chain hs b n else (NoResponse, b, n))
      else
        let n1 = n + 1; b1 = consume 1 b in
        (case hop_result h of
           Response status \<Rightarrow>
             if transient_status status \<and> hs \<noteq> [] then endpoint_chain hs b1 n1
             else (GotResponse status, b1, n1)
         | SendFailed headers_timeout \<Rightarrow>
             if \<not> headers_timeout \<and> hs \<noteq> [] then endpoint_chain hs b1 n1
             else (if headers_timeout then Bailed else NoResponse, b1, n1)))"

subsection \<open>The attempts of one round\<close>

text \<open>How an answer leaves the attempt.\<close>

datatype fate = Served | GiveUp | NextAttempt | SameCredential

record attempt_env =
  wall_over :: bool
  acquired :: "nat option"
  endpoint_selected :: bool
  hops :: "hop list"
  fate_of :: "nat \<Rightarrow> fate"

text \<open>\<open>for attempt in 0..max_retries\<close>; \<open>same\<close> is the credential of \<open>reuse_ctx\<close>.\<close>

fun attempt_loop :: "(nat \<Rightarrow> attempt_env) \<Rightarrow> nat \<Rightarrow> nat \<Rightarrow> nat option \<Rightarrow> retry_budget \<Rightarrow> nat \<Rightarrow>
    bool \<times> retry_budget \<times> nat" where
  "attempt_loop env attempt 0 same b n = (False, b, n)"
| "attempt_loop env attempt (Suc left) same b n =
     (let E = env attempt; next_attempt = attempt_loop env (attempt + 1) left in
      if attempt > 0 \<and> wall_over E then (False, b, n)
      else
        (case (case same of Some i \<Rightarrow> Some i | None \<Rightarrow> acquired E) of
           None \<Rightarrow> next_attempt None b n
         | Some i \<Rightarrow>
             let b1 = note_first_attempt i b in
             if \<not> endpoint_selected E then next_attempt None b1 n
             else
               (case endpoint_chain (hops E) b1 n of
                  (Bailed, b2, n2) \<Rightarrow> (False, b2, n2)
                | (NoResponse, b2, n2) \<Rightarrow> next_attempt None b2 n2
                | (ClientFailed, b2, n2) \<Rightarrow> next_attempt None b2 n2
                | (GotResponse status, b2, n2) \<Rightarrow>
                    (case fate_of E status of
                       Served \<Rightarrow> (True, b2, n2)
                     | GiveUp \<Rightarrow> (False, b2, n2)
                     | NextAttempt \<Rightarrow> next_attempt None b2 n2
                     | SameCredential \<Rightarrow> next_attempt (Some i) b2 n2))))"

subsection \<open>The rounds, and the fallback model\<close>

record round_env =
  attempts_of :: "nat \<Rightarrow> attempt_env"
  last_error_of :: "absorb_class option option"
  ended_at :: instant

text \<open>The number of the last round is returned with what the attempts return.\<close>

function absorb_loop :: "absorb_policy \<Rightarrow> nat \<Rightarrow> instant \<Rightarrow> (nat \<Rightarrow> round_env) \<Rightarrow> nat \<Rightarrow> retry_budget \<Rightarrow> nat \<Rightarrow>
    nat \<times> bool \<times> retry_budget \<times> nat" where
  "absorb_loop absorb base_retry_quota call_started rounds absorb_round b n =
     (let R = rounds absorb_round;
          max_retries = round_retry_quota base_retry_quota (used b);
          (served, b1, n1) = attempt_loop (attempts_of R) 0 max_retries None b n in
      if served then (absorb_round, True, b1, n1)
      else
        (case absorb_decide absorb base_retry_quota b1 absorb_round (last_error_of R) call_started (ended_at R) of
           Inl stop \<Rightarrow> (absorb_round, False, b1, n1)
         | Inr (delay, deadline) \<Rightarrow>
             absorb_loop absorb base_retry_quota call_started rounds (absorb_round + 1) b1 n1))"
  by pat_completeness auto

text \<open>It ends: every round but the last was granted by \<open>absorb_decide\<close>, which grants no more than the
  configured number.\<close>

termination
  by (relation "measure (\<lambda>(absorb, q, t, rounds, r, b, n). effective_max_rounds absorb - r)")
    (auto simp: absorb_decide_def split: if_splits)

declare absorb_loop.simps [simp del]

record fallback_env =
  model_unavailable :: bool
  fallback_configured :: bool
  fallback_acquired :: bool
  fallback_client_built :: bool
  fallback_endpoint :: bool
  fallback_served :: bool

definition overload_fallback :: "fallback_env \<Rightarrow> retry_budget \<Rightarrow> nat \<Rightarrow> bool \<times> retry_budget \<times> nat" where
  "overload_fallback F b n =
     (if \<not> model_unavailable F then (False, b, n)
      else if used b \<ge> ABSOLUTE_MAX_TOTAL_RETRIES then (False, b, n)
      else if fallback_configured F \<and> fallback_acquired F \<and> fallback_client_built F \<and> fallback_endpoint F
      then (fallback_served F, consume 1 b, n + 1)
      else (False, b, n))"

definition call_api_with_retry :: "absorb_policy \<Rightarrow> nat \<Rightarrow> instant \<Rightarrow> (nat \<Rightarrow> round_env) \<Rightarrow> fallback_env \<Rightarrow>
    retry_budget \<Rightarrow> nat \<Rightarrow> bool \<times> retry_budget \<times> nat" where
  "call_api_with_retry absorb base_retry_quota call_started rounds F b n =
     (let (_, served, b1, n1) = absorb_loop absorb base_retry_quota call_started rounds 0 b n in
      if served then (True, b1, n1) else overload_fallback F b1 n1)"

subsection \<open>Searches\<close>

text \<open>\<open>Retried\<close> and \<open>RetriedSilently\<close> go on with the next attempt, the second without a new error.\<close>

datatype mcp_answer = McpNotSent | McpServed | McpRefused | Retried | RetriedSilently

record mcp_env =
  mcp_wall_over :: bool
  mcp_acquired :: bool
  mcp_endpoint_selected :: bool
  mcp_client_built :: bool
  mcp_answer_of :: mcp_answer

text \<open>The error says whether it bears the mark that no credential could be had.\<close>

datatype mcp_result = McpOk | McpFailed bool

fun mcp_attempts :: "(nat \<Rightarrow> mcp_env) \<Rightarrow> nat \<Rightarrow> nat \<Rightarrow> bool \<Rightarrow> retry_budget \<Rightarrow> nat \<Rightarrow>
    mcp_result \<times> retry_budget \<times> nat" where
  "mcp_attempts env attempt 0 no_pool b n = (McpFailed no_pool, b, n)"
| "mcp_attempts env attempt (Suc left) no_pool b n =
     (let E = env attempt; next_attempt = mcp_attempts env (attempt + 1) left in
      if attempt > 0 \<and> mcp_wall_over E then (McpFailed no_pool, b, n)
      else if \<not> mcp_acquired E then next_attempt True b n
      else if \<not> mcp_endpoint_selected E then next_attempt False b n
      else if \<not> mcp_client_built E then (McpFailed False, b, n)
      else
        let n1 = n + 1; b1 = consume 1 b in
        (case mcp_answer_of E of
           McpNotSent \<Rightarrow> next_attempt False b1 n1
         | McpServed \<Rightarrow> (McpOk, b1, n1)
         | McpRefused \<Rightarrow> (McpFailed False, b1, n1)
         | Retried \<Rightarrow> next_attempt False b1 n1
         | RetriedSilently \<Rightarrow> next_attempt no_pool b1 n1))"

definition call_mcp_with_retry :: "nat \<Rightarrow> (nat \<Rightarrow> mcp_env) \<Rightarrow> retry_budget \<Rightarrow> nat \<Rightarrow>
    mcp_result \<times> retry_budget \<times> nat" where
  "call_mcp_with_retry selectable env b n =
     mcp_attempts env 0 (min (compute_max_retries selectable selectable) (remaining b)) False b n"

text \<open>Without a selected credential: one token after the other, each tried once.\<close>

record direct_env =
  direct_blocked :: bool
  direct_client_built :: bool
  direct_served :: bool

fun call_mcp_direct :: "direct_env list \<Rightarrow> retry_budget \<Rightarrow> nat \<Rightarrow> bool \<times> retry_budget \<times> nat" where
  "call_mcp_direct [] b n = (False, b, n)"
| "call_mcp_direct (d # ds) b n =
     (if direct_blocked d then call_mcp_direct ds b n
      else if \<not> direct_client_built d then (False, b, n)
      else
        let n1 = n + 1; b1 = consume 1 b in
        if direct_served d then (True, b1, n1)
        else if remaining b1 = 0 then (False, b1, n1)
        else call_mcp_direct ds b1 n1)"

definition call_mcp :: "nat \<Rightarrow> (nat \<Rightarrow> mcp_env) \<Rightarrow> bool \<Rightarrow> direct_env list \<Rightarrow> retry_budget \<Rightarrow> nat \<Rightarrow>
    bool \<times> retry_budget \<times> nat" where
  "call_mcp selectable env bypass_enabled tokens b n =
     (case call_mcp_with_retry selectable env b n of
        (McpOk, b1, n1) \<Rightarrow> (True, b1, n1)
      | (McpFailed no_pool, b1, n1) \<Rightarrow>
          if no_pool \<and> bypass_enabled then call_mcp_direct tokens b1 n1 else (False, b1, n1))"

subsection \<open>Relays\<close>

definition MAX_PASSTHROUGH_FAILOVER_HOPS :: nat where "MAX_PASSTHROUGH_FAILOVER_HOPS = 6"
definition MAX_GATE_SKIPS :: nat where "MAX_GATE_SKIPS = MAX_PASSTHROUGH_FAILOVER_HOPS * 2"

record relay_answer =
  relay_status :: nat
  local_failure :: bool
  capacity_text :: bool  \<comment> \<open>\<open>default_is_model_temporarily_unavailable\<close> of the error\<close>
  hopeless_text :: bool  \<comment> \<open>\<open>is_hopeless_upstream_400\<close> of the error\<close>
  wall_over_after :: bool

record relay_env =
  relay_wall_over :: bool
  relay_selected :: "nat option"
  relay_gate :: bool
  relay_credential_gate :: bool
  relay_answers :: "nat \<Rightarrow> relay_answer"

definition passthrough_absorb_should_retry :: "absorb_config \<Rightarrow> relay_answer \<Rightarrow> nat \<Rightarrow> bool" where
  "passthrough_absorb_should_retry cfg a attempt =
     (if local_failure a \<or> attempt = 0 \<or> upstream_retry_absorb_max_rounds cfg = 0 \<or>
         attempt > upstream_retry_absorb_max_rounds cfg then False
      else if relay_status a = 429 then upstream_retry_absorb_enabled cfg
      else if relay_status a = 400 \<and> upstream_retry_absorb_enabled cfg \<and>
              upstream_retry_absorb_capacity_400 cfg \<and> capacity_text a then True
      else if 500 \<le> relay_status a \<and> relay_status a < 600
      then upstream_retry_absorb_enabled cfg \<and> upstream_retry_absorb_server_error cfg
      else False)"

definition should_failover :: "relay_answer \<Rightarrow> bool" where
  "should_failover a \<longleftrightarrow>
     relay_status a \<in> {401, 402, 403, 429} \<or> (500 \<le> relay_status a \<and> relay_status a < 600) \<or>
     (relay_status a \<in> {400, 404} \<and> \<not> hopeless_text a)"

text \<open>\<open>'retry_same_cred\<close>: the answers of one relay until one is kept.\<close>

function retry_same_cred :: "absorb_config \<Rightarrow> (nat \<Rightarrow> relay_answer) \<Rightarrow> nat \<Rightarrow> nat \<Rightarrow> nat \<Rightarrow> retry_budget \<Rightarrow> nat \<Rightarrow>
    relay_answer \<times> nat \<times> retry_budget \<times> nat" where
  "retry_same_cred cfg answers hop_cap same_cred_attempt upstream_hops b n =
     (let a = answers same_cred_attempt; hops1 = upstream_hops + 1; b1 = consume 1 b; n1 = n + 1 in
      if passthrough_absorb_should_retry cfg a (same_cred_attempt + 1) \<and> hops1 < hop_cap \<and> \<not> wall_over_after a
      then retry_same_cred cfg answers hop_cap (same_cred_attempt + 1) hops1 b1 n1
      else (a, hops1, b1, n1))"
  by pat_completeness auto
termination
  by (relation "measure (\<lambda>(cfg, answers, hop_cap, k, upstream_hops, b, n). hop_cap - upstream_hops)") auto

declare retry_same_cred.simps [simp del]

lemma retry_same_cred_hops:
  "retry_same_cred cfg answers hop_cap k h b n = (a, h', b', n') \<Longrightarrow> h < h' \<and> (h < hop_cap \<longrightarrow> h' \<le> hop_cap)"
proof (induction cfg answers hop_cap k h b n arbitrary: a h' b' n' rule: retry_same_cred.induct)
  case (1 cfg answers hop_cap k h b n)
  show ?case
  proof (cases "passthrough_absorb_should_retry cfg (answers k) (k + 1) \<and> h + 1 < hop_cap \<and> \<not> wall_over_after (answers k)")
    case True
    then show ?thesis
      using 1 by (fastforce simp: retry_same_cred.simps [of cfg answers hop_cap k h] Let_def)
  next
    case False
    then show ?thesis using 1(2) by (auto simp: retry_same_cred.simps [of cfg answers hop_cap k h] Let_def)
  qed
qed

function passthrough_loop :: "absorb_config \<Rightarrow> (nat \<Rightarrow> relay_env) \<Rightarrow> nat \<Rightarrow> nat \<Rightarrow> nat \<Rightarrow> nat \<Rightarrow> retry_budget \<Rightarrow> nat \<Rightarrow>
    bool \<times> retry_budget \<times> nat" where
  "passthrough_loop cfg env turn hop_cap upstream_hops gate_skips b n =
     (let E = env turn in
      if upstream_hops \<ge> hop_cap then (False, b, n)
      else if gate_skips \<ge> MAX_GATE_SKIPS then (False, b, n)
      else if relay_wall_over E then (False, b, n)
      else
        (case relay_selected E of
           None \<Rightarrow> (False, b, n)
         | Some i \<Rightarrow>
             let b1 = note_first_attempt i b in
             if \<not> relay_gate E \<or> \<not> relay_credential_gate E
             then passthrough_loop cfg env (turn + 1) hop_cap upstream_hops (gate_skips + 1) b1 n
             else
               (case retry_same_cred cfg (relay_answers E) hop_cap 0 upstream_hops b1 n of
                  (a, hops1, b2, n2) \<Rightarrow>
                    if (200 \<le> relay_status a \<and> relay_status a < 300) \<or> \<not> should_failover a then (True, b2, n2)
                    else passthrough_loop cfg env (turn + 1) hop_cap hops1 gate_skips b2 n2)))"
  by pat_completeness auto
termination
proof (relation "measure (\<lambda>(cfg, env, turn, hop_cap, upstream_hops, gate_skips, b, n).
    (hop_cap - upstream_hops) + (MAX_GATE_SKIPS - gate_skips))", goal_cases)
  case (3 cfg env turn hop_cap h skips b n E i b1 a y hops1 z b2 n2)
  then have "retry_same_cred cfg (relay_answers E) hop_cap 0 h b1 n = (a, hops1, b2, n2)" "h < hop_cap" by simp_all
  then have "h < hops1" "h < hop_cap" using retry_same_cred_hops by blast+
  then show ?case by simp
qed auto

declare passthrough_loop.simps [simp del]

definition try_custom_api_passthrough :: "absorb_config \<Rightarrow> (nat \<Rightarrow> relay_env) \<Rightarrow> retry_budget \<Rightarrow> nat \<Rightarrow>
    bool \<times> retry_budget \<times> nat" where
  "try_custom_api_passthrough cfg env b n =
     passthrough_loop cfg env 0 (min MAX_PASSTHROUGH_FAILOVER_HOPS (remaining b)) 0 0 b n"


subsection \<open>Every call is counted\<close>

text \<open>The budget and the number of calls after a path: each call took one from the budget.\<close>

definition counted :: "retry_budget \<Rightarrow> nat \<Rightarrow> retry_budget \<Rightarrow> nat \<Rightarrow> bool" where
  "counted b n b' n' \<longleftrightarrow> n \<le> n' \<and> n' + remaining b' = n + remaining b"

lemma counted_refl [simp, intro]: "counted b n b n"
  by (simp add: counted_def)

lemma counted_trans: "counted b n b1 n1 \<Longrightarrow> counted b1 n1 b2 n2 \<Longrightarrow> counted b n b2 n2"
  by (simp add: counted_def)

lemma counted_consume: "0 < remaining b \<Longrightarrow> counted b n (consume 1 b) (n + 1)"
  by (simp add: counted_def consume_def remaining_def)

lemma remaining_note [simp]: "remaining (note_first_attempt i b) = remaining b"
  by (simp add: note_first_attempt_def remaining_def split: option.split)

lemma remaining_consume [simp]: "remaining (consume k b) = remaining b - k"
  by (simp add: consume_def remaining_def)

lemma counted_note: "counted (note_first_attempt i b) n b' n' \<longleftrightarrow> counted b n b' n'"
  by (simp add: counted_def)

lemma chain_counted: "endpoint_chain hs b n = (x, b', n') \<Longrightarrow> counted b n b' n'"
proof (induction hs arbitrary: b n)
  case (Cons h hs)
  show ?case
  proof (cases "remaining b = 0")
    case False
    then have c: "counted b n (consume 1 b) (n + 1)" by (intro counted_consume) simp
    have on: "counted b n b' n'" if "endpoint_chain hs (consume 1 b) (n + 1) = (x, b', n')"
      by (rule counted_trans [OF c Cons.IH [OF that]])
    show ?thesis
      using Cons.prems False Cons.IH [of b n] c on
      by (auto simp: Let_def split: if_splits send_result.splits)
  qed (use Cons.prems in simp)
qed simp

lemma attempts_counted: "attempt_loop env k left same b n = (x, b', n') \<Longrightarrow> counted b n b' n'"
proof (induction left arbitrary: k same b n)
  case (Suc left)
  show ?case
  proof (cases "case same of Some i \<Rightarrow> Some i | None \<Rightarrow> acquired (env k)")
    case None
    then show ?thesis using Suc by (auto simp: Let_def split: if_splits)
  next
    case (Some i)
    let ?b1 = "note_first_attempt i b"
    obtain e b2 n2 where e: "endpoint_chain (hops (env k)) ?b1 n = (e, b2, n2)" by (cases "endpoint_chain (hops (env k)) ?b1 n") auto
    have c: "counted b n b2 n2" using chain_counted [OF e] by (simp add: counted_note)
    show ?thesis
    proof (cases "k > 0 \<and> wall_over (env k)")
      case False
      show ?thesis
      proof (cases "endpoint_selected (env k)")
        case True
        then show ?thesis
          using Suc.prems Suc.IH [of "k + 1"] False Some e c counted_trans [OF c]
          by (auto simp: Let_def split: chain_exit.splits fate.splits)
      next
        case not: False
        then have "attempt_loop env (k + 1) left None ?b1 n = (x, b', n')"
          using Suc.prems False Some by (simp add: Let_def)
        from Suc.IH [OF this] show ?thesis by (simp add: counted_note)
      qed
    qed (use Suc.prems in simp)
  qed
qed simp

lemma rounds_counted:
  "absorb_loop absorb q t rounds r b n = (r', x, b', n') \<Longrightarrow> counted b n b' n'"
proof (induction absorb q t rounds r b n arbitrary: r' x b' n' rule: absorb_loop.induct)
  case (1 absorb q t rounds r b n)
  let ?a = "attempt_loop (attempts_of (rounds r)) 0 (round_retry_quota q (used b)) None b n"
  obtain s b1 n1 where a: "?a = (s, b1, n1)" by (cases ?a) auto
  have c: "counted b n b1 n1" by (rule attempts_counted [OF a])
  show ?case
  proof (cases "s \<or> isl (absorb_decide absorb q b1 r (last_error_of (rounds r)) t (ended_at (rounds r)))")
    case True
    then show ?thesis
      using 1(2) a c by (auto simp: absorb_loop.simps [of absorb q t rounds r] Let_def isl_def split: if_splits)
  next
    case False
    then obtain d w where d: "absorb_decide absorb q b1 r (last_error_of (rounds r)) t (ended_at (rounds r)) = Inr (d, w)"
      by (cases "absorb_decide absorb q b1 r (last_error_of (rounds r)) t (ended_at (rounds r))") auto
    then have "absorb_loop absorb q t rounds (r + 1) b1 n1 = (r', x, b', n')"
      using 1(2) a False by (simp add: absorb_loop.simps [of absorb q t rounds r] Let_def)
    from counted_trans [OF c "1.IH" [OF refl refl a [symmetric] refl refl _ d refl this]] False show ?thesis by simp
  qed
qed

lemma absorb_decide_granted: "absorb_decide p q b r e t u = Inr x \<Longrightarrow> r < effective_max_rounds p"
  by (auto simp: absorb_decide_def split: if_splits)

lemma rounds_bounded:
  "absorb_loop absorb q t rounds r b n = (r', x, b', n') \<Longrightarrow> r \<le> effective_max_rounds absorb \<Longrightarrow>
     r' \<le> effective_max_rounds absorb"
proof (induction absorb q t rounds r b n arbitrary: r' x b' n' rule: absorb_loop.induct)
  case (1 absorb q t rounds r b n)
  let ?a = "attempt_loop (attempts_of (rounds r)) 0 (round_retry_quota q (used b)) None b n"
  obtain s b1 n1 where a: "?a = (s, b1, n1)" by (cases ?a) auto
  show ?case
  proof (cases "s \<or> isl (absorb_decide absorb q b1 r (last_error_of (rounds r)) t (ended_at (rounds r)))")
    case True
    then show ?thesis
      using 1(2,3) a by (auto simp: absorb_loop.simps [of absorb q t rounds r] Let_def isl_def split: if_splits)
  next
    case False
    then obtain d w where d: "absorb_decide absorb q b1 r (last_error_of (rounds r)) t (ended_at (rounds r)) = Inr (d, w)"
      by (cases "absorb_decide absorb q b1 r (last_error_of (rounds r)) t (ended_at (rounds r))") auto
    then have "absorb_loop absorb q t rounds (r + 1) b1 n1 = (r', x, b', n')"
      using 1(2) a False by (simp add: absorb_loop.simps [of absorb q t rounds r] Let_def)
    from "1.IH" [OF refl refl a [symmetric] refl refl _ d refl this] False absorb_decide_granted [OF d]
    show ?thesis by simp
  qed
qed

lemma fallback_counted: "overload_fallback F b n = (x, b', n') \<Longrightarrow> counted b n b' n'"
  using counted_consume [of b n] by (auto simp: overload_fallback_def used_def split: if_splits)

lemma api_counted: "call_api_with_retry p q t rounds F b n = (x, b', n') \<Longrightarrow> counted b n b' n'"
  by (auto simp: call_api_with_retry_def split: prod.splits if_splits
      intro: rounds_counted counted_trans fallback_counted)

text \<open>A search fails for want of a credential only if an attempt of it sent nothing, so a call is left.\<close>

lemma mcp_attempts_counted:
  "mcp_attempts env k left no_pool b n = (x, b', n') \<Longrightarrow> left + (if no_pool then 1 else 0) \<le> remaining b \<Longrightarrow>
     counted b n b' n' \<and> (x = McpFailed True \<longrightarrow> 0 < remaining b')"
proof (induction left arbitrary: k no_pool b n)
  case (Suc left)
  let ?E = "env k"
  have c: "counted b n (consume 1 b) (n + 1)" using Suc.prems(2) by (intro counted_consume) simp
  show ?case
  proof (cases "k > 0 \<and> mcp_wall_over ?E \<or> \<not> mcp_acquired ?E \<or> \<not> mcp_endpoint_selected ?E \<or> \<not> mcp_client_built ?E")
    case True
    then show ?thesis
      using Suc.prems Suc.IH [of "k + 1" True b n] Suc.IH [of "k + 1" False b n]
      by (auto simp: Let_def split: if_splits)
  next
    case False
    then show ?thesis
      using Suc.prems Suc.IH [of "k + 1" False "consume 1 b" "n + 1"]
        Suc.IH [of "k + 1" no_pool "consume 1 b" "n + 1"] c counted_trans [OF c]
      by (auto simp: Let_def split: mcp_answer.splits)
  qed
qed (auto split: if_splits)

lemma direct_counted: "call_mcp_direct ds b n = (x, b', n') \<Longrightarrow> 0 < remaining b \<Longrightarrow> counted b n b' n'"
proof (induction ds b n arbitrary: x b' n' rule: call_mcp_direct.induct)
  case (2 d ds b n)
  have c: "counted b n (consume 1 b) (n + 1)" using "2.prems"(2) by (rule counted_consume)
  show ?case
    using 2 c counted_trans [OF c] by (auto simp: Let_def split: if_splits)
qed simp

lemma mcp_counted: "call_mcp s env bypass ds b n = (x, b', n') \<Longrightarrow> counted b n b' n'"
proof -
  assume a: "call_mcp s env bypass ds b n = (x, b', n')"
  obtain r b1 n1 where r: "call_mcp_with_retry s env b n = (r, b1, n1)" by (cases "call_mcp_with_retry s env b n") auto
  then have "counted b n b1 n1" "r = McpFailed True \<Longrightarrow> 0 < remaining b1"
    using mcp_attempts_counted [of env 0 _ False b n] unfolding call_mcp_with_retry_def by auto
  then show ?thesis
    using a r direct_counted counted_trans by (cases r) (auto simp: call_mcp_def split: if_splits)
qed

lemma same_cred_counted:
  "retry_same_cred cfg answers cap k h b n = (a, h', b', n') \<Longrightarrow> h < cap \<Longrightarrow> cap \<le> h + remaining b \<Longrightarrow>
     counted b n b' n' \<and> cap \<le> h' + remaining b'"
proof (induction cfg answers cap k h b n arbitrary: a h' b' n' rule: retry_same_cred.induct)
  case (1 cfg answers cap k h b n)
  have c: "counted b n (consume 1 b) (n + 1)" using "1.prems" by (intro counted_consume) simp
  show ?case
  proof (cases "passthrough_absorb_should_retry cfg (answers k) (k + 1) \<and> h + 1 < cap \<and> \<not> wall_over_after (answers k)")
    case True
    then have "retry_same_cred cfg answers cap (k + 1) (h + 1) (consume 1 b) (n + 1) = (a, h', b', n')"
      using "1.prems"(1) by (simp add: retry_same_cred.simps [of cfg answers cap k h] Let_def)
    from "1.IH" [OF refl refl refl refl True this] "1.prems" True counted_trans [OF c] show ?thesis by auto
  next
    case False
    then show ?thesis
      using "1.prems" c by (auto simp: retry_same_cred.simps [of cfg answers cap k h] Let_def)
  qed
qed

lemma passthrough_counted:
  "passthrough_loop cfg env turn cap h skips b n = (x, b', n') \<Longrightarrow> cap \<le> h + remaining b \<Longrightarrow> counted b n b' n'"
proof (induction cfg env turn cap h skips b n arbitrary: x b' n' rule: passthrough_loop.induct)
  case (1 cfg env turn cap h skips b n)
  note eq = passthrough_loop.simps [of cfg env turn cap h skips b n]
  show ?case
  proof (cases "h \<ge> cap \<or> skips \<ge> MAX_GATE_SKIPS \<or> relay_wall_over (env turn) \<or> relay_selected (env turn) = None")
    case True
    then show ?thesis using "1.prems"(1) by (auto simp: eq Let_def split: if_splits)
  next
    case False
    then obtain i where i: "relay_selected (env turn) = Some i" "\<not> cap \<le> h" "\<not> MAX_GATE_SKIPS \<le> skips"
        "\<not> relay_wall_over (env turn)" by auto
    let ?b1 = "note_first_attempt i b"
    show ?thesis
    proof (cases "\<not> relay_gate (env turn) \<or> \<not> relay_credential_gate (env turn)")
      case True
      then have "passthrough_loop cfg env (turn + 1) cap h (skips + 1) ?b1 n = (x, b', n')"
        using "1.prems"(1) i by (simp add: eq Let_def)
      from "1.IH"(1) [OF refl i(2-4,1) refl True this] "1.prems"(2) show ?thesis by (simp add: counted_note)
    next
      case gates: False
      obtain a h1 b2 n2 where s: "retry_same_cred cfg (relay_answers (env turn)) cap 0 h ?b1 n = (a, h1, b2, n2)"
        by (cases "retry_same_cred cfg (relay_answers (env turn)) cap 0 h ?b1 n") auto
      have c: "counted b n b2 n2" "cap \<le> h1 + remaining b2"
        using same_cred_counted [OF s] i(2) "1.prems"(2) by (simp_all add: counted_note)
      show ?thesis
      proof (cases "(200 \<le> relay_status a \<and> relay_status a < 300) \<or> \<not> should_failover a")
        case True
        then show ?thesis using "1.prems"(1) i gates s c by (auto simp: eq Let_def split: if_splits)
      next
        case kept: False
        then have "passthrough_loop cfg env (turn + 1) cap h1 skips b2 n2 = (x, b', n')"
          using "1.prems"(1) i gates s by (auto simp: eq Let_def split: if_splits)
        from counted_trans [OF c(1) "1.IH"(2) [OF refl i(2-4,1) refl gates s [symmetric] refl refl kept this c(2)]]
        show ?thesis .
      qed
    qed
  qed
qed

lemma relays_counted: "try_custom_api_passthrough cfg env b n = (x, b', n') \<Longrightarrow> counted b n b' n'"
  unfolding try_custom_api_passthrough_def by (rule passthrough_counted) auto


subsection \<open>One client request\<close>

text \<open>
  What the handlers of \<open>src/src/anthropic\<close> do with the one budget of a request: calls of the API (the
  first one, its repetition with a compressed context, a reopened stream, a round of a search loop),
  searches, relays, and the exclusion of a credential that fell silent. Any order is allowed.
\<close>

datatype request_op =
  Api absorb_policy nat instant "nat \<Rightarrow> round_env" fallback_env
| Mcp nat "nat \<Rightarrow> mcp_env" bool "direct_env list"
| Relays absorb_config "nat \<Rightarrow> relay_env"
| Silenced nat

fun request_op_apply :: "request_op \<Rightarrow> retry_budget \<times> nat \<Rightarrow> retry_budget \<times> nat" where
  "request_op_apply (Api absorb base_retry_quota call_started rounds F) (b, n) =
     snd (call_api_with_retry absorb base_retry_quota call_started rounds F b n)"
| "request_op_apply (Mcp selectable env bypass_enabled tokens) (b, n) =
     snd (call_mcp selectable env bypass_enabled tokens b n)"
| "request_op_apply (Relays cfg env) (b, n) = snd (try_custom_api_passthrough cfg env b n)"
| "request_op_apply (Silenced i) (b, n) = (exclude i b, n)"

definition request_calls :: "request_op list \<Rightarrow> retry_budget \<times> nat" where
  "request_calls ops = fold request_op_apply ops (budget_new, 0)"

lemma op_counted: "request_op_apply x (b, n) = (b', n') \<Longrightarrow> counted b n b' n'"
proof (cases x)
  case (Silenced i)
  then show "request_op_apply x (b, n) = (b', n') \<Longrightarrow> counted b n b' n'"
    by (auto simp: counted_def exclude_def remaining_def)
qed (auto simp: snd_def intro: api_counted mcp_counted relays_counted split: prod.splits)

lemma ops_counted: "fold request_op_apply ops (b, n) = (b', n') \<Longrightarrow> counted b n b' n'"
proof (induction ops arbitrary: b n)
  case (Cons x ops)
  obtain b1 n1 where "request_op_apply x (b, n) = (b1, n1)" by fastforce
  then show ?case using Cons op_counted counted_trans by fastforce
qed simp

text \<open>
  C31. Whatever a client request does with its budget - calls of the API with all their rounds, attempts,
  endpoints and the fallback model, searches with a credential and without, relays, in any order, with
  any answers - the provider sends at most four calls for it, and the budget has counted each of them.
  Within one call of the API the absorb layer starts no more rounds than it is configured for.
\<close>
theorem request_calls_bounded:
  "snd (request_calls ops) \<le> ABSOLUTE_MAX_TOTAL_RETRIES \<and>
   used (fst (request_calls ops)) = snd (request_calls ops) \<and>
   fst (absorb_loop absorb base_retry_quota call_started rounds 0 b n) \<le>
     (if enabled absorb then max_rounds absorb else 0)"
proof -
  obtain b' n' where r: "request_calls ops = (b', n')" by fastforce
  then have "counted budget_new 0 b' n'" unfolding request_calls_def by (rule ops_counted)
  then have "n' + remaining b' = ABSOLUTE_MAX_TOTAL_RETRIES"
    by (simp add: counted_def budget_new_def remaining_def)
  then have "n' \<le> ABSOLUTE_MAX_TOTAL_RETRIES" "used b' = n'" by (simp_all add: used_def)
  moreover obtain r' x b1 n1 where "absorb_loop absorb base_retry_quota call_started rounds 0 b n = (r', x, b1, n1)"
    by (cases "absorb_loop absorb base_retry_quota call_started rounds 0 b n") auto
  ultimately show ?thesis
    using rounds_bounded [of absorb base_retry_quota call_started rounds 0 b n r' x b1 n1] r
    by (simp add: effective_max_rounds_def)
qed

text \<open>The bound is reached: three relays that answer 500, then a search and a call of the API; the
  search takes the last call, and the API is not called any more.\<close>

definition sample_relay :: relay_env where
  "sample_relay = \<lparr>relay_wall_over = False, relay_selected = Some 1, relay_gate = True,
     relay_credential_gate = True,
     relay_answers = (\<lambda>_. \<lparr>relay_status = 500, local_failure = False, capacity_text = False,
       hopeless_text = False, wall_over_after = True\<rparr>)\<rparr>"

definition sample_relays :: "nat \<Rightarrow> relay_env" where
  "sample_relays k = (if k < 3 then sample_relay else sample_relay\<lparr>relay_selected := None\<rparr>)"

definition sample_mcp :: "nat \<Rightarrow> mcp_env" where
  "sample_mcp _ = \<lparr>mcp_wall_over = False, mcp_acquired = True, mcp_endpoint_selected = True,
     mcp_client_built = True, mcp_answer_of = McpServed\<rparr>"

definition sample_round :: "nat \<Rightarrow> round_env" where
  "sample_round _ = \<lparr>attempts_of = (\<lambda>_. \<lparr>wall_over = False, acquired = Some 1, endpoint_selected = True,
       hops = [\<lparr>hop_dead = False, hop_protocol_broken = False, hop_sealed = False, hop_client_built = True,
         hop_gate_free = True, hop_credential_gate_free = True, hop_result = Response 200\<rparr>],
       fate_of = (\<lambda>_. Served)\<rparr>),
     last_error_of = Some None, ended_at = 0\<rparr>"

definition sample_fallback :: fallback_env where
  "sample_fallback = \<lparr>model_unavailable = False, fallback_configured = False, fallback_acquired = False,
     fallback_client_built = False, fallback_endpoint = False, fallback_served = False\<rparr>"

lemmas request_eval = request_calls_def sample_relay_def sample_relays_def sample_mcp_def sample_round_def
  sample_fallback_def try_custom_api_passthrough_def passthrough_loop.simps retry_same_cred.simps
  passthrough_absorb_should_retry_def should_failover_def MAX_GATE_SKIPS_def MAX_PASSTHROUGH_FAILOVER_HOPS_def
  call_mcp_def call_mcp_with_retry_def compute_max_retries_def SMALL_POOL_THRESHOLD_def
  call_api_with_retry_def absorb_loop.simps overload_fallback_def note_first_attempt_def sample_eval

lemma request_of_one_call:
  "request_calls [Api (absorb_from_config sample_config) 3 0 sample_round sample_fallback] =
     (budget_new\<lparr>remaining_calls := 3, first_attempted_credential_id := Some 1\<rparr>, 1)"
  by (simp add: request_eval numeral_3_eq_3)

lemma request_of_four_calls:
  "snd (request_calls [Relays sample_config sample_relays, Mcp 1 sample_mcp False [],
     Api (absorb_from_config sample_config) 3 0 sample_round sample_fallback]) = 4"
  by (simp add: request_eval)


end
