(* ===== verification/Expiry.thy ===== *)
theory Expiry
  imports Prelude
begin

text \<open>
  The interface of the in-memory tables whose entries expire: an operation first treats what is
  out of date as absent (and may drop it), and a background task sweeps the table from time to
  time. \<open>run_timed\<close> runs operations at given times, each preceded by a sweep or not; the locale
  states what makes the sweeps unobservable and proves it for every schedule.
\<close>

fun run_timed :: "('o \<Rightarrow> instant \<Rightarrow> 's \<Rightarrow> 'r \<times> 's) \<Rightarrow> (instant \<Rightarrow> 's \<Rightarrow> 's) \<Rightarrow>
    (instant \<times> bool \<times> 'o) list \<Rightarrow> 's \<Rightarrow> 'r list" where
  "run_timed step sweep [] s = []"
| "run_timed step sweep ((t, swept, x) # xs) s =
     (let (r, s') = step x t (if swept then sweep t s else s)
      in r # run_timed step sweep xs s')"

fun in_time_order :: "instant \<Rightarrow> (instant \<times> bool \<times> 'o) list \<Rightarrow> bool" where
  "in_time_order now [] = True"
| "in_time_order now ((t, _) # xs) = (now \<le> t \<and> in_time_order t xs)"

text \<open>The same operations at the same times without any sweep.\<close>

definition unswept :: "(instant \<times> bool \<times> 'o) list \<Rightarrow> (instant \<times> bool \<times> 'o) list" where
  "unswept = map (\<lambda>(t, _, x). (t, False, x))"

locale lazy_expiry =
  fixes step :: "'o \<Rightarrow> instant \<Rightarrow> 's \<Rightarrow> 'r \<times> 's"
    and sweep :: "instant \<Rightarrow> 's \<Rightarrow> 's"
    and agree :: "instant \<Rightarrow> 's \<Rightarrow> 's \<Rightarrow> bool"
  assumes agree_refl: "agree t s s"
    and agree_trans: "agree t a b \<Longrightarrow> agree t b c \<Longrightarrow> agree t a c"
    and agree_later: "agree t a b \<Longrightarrow> t \<le> t' \<Longrightarrow> agree t' a b"
    and sweep_agree: "agree t (sweep t s) s"
    and step_result: "agree t a b \<Longrightarrow> fst (step x t a) = fst (step x t b)"
    and step_agree: "agree t a b \<Longrightarrow> agree t (snd (step x t a)) (snd (step x t b))"
begin

lemma run_timed_agree:
  "agree now a b \<Longrightarrow> in_time_order now xs \<Longrightarrow>
     run_timed step sweep xs a = run_timed step sweep (unswept xs) b"
proof (induction xs arbitrary: now a b)
  case (Cons x xs)
  obtain t swept y where x: "x = (t, swept, y)" by (metis prod_cases3)
  have t: "now \<le> t" "in_time_order t xs" using Cons.prems(2) by (simp_all add: x)
  let ?a = "if swept then sweep t a else a"
  have ab: "agree t ?a b"
    using agree_trans [OF sweep_agree agree_later [OF Cons.prems(1) t(1)]]
      agree_later [OF Cons.prems(1) t(1)] by simp
  show ?case
    using Cons.IH [OF step_agree [OF ab, of y] t(2)] step_result [OF ab, of y]
    by (simp add: x unswept_def case_prod_unfold Let_def)
qed (simp add: unswept_def)

lemma sweeps_unobservable:
  "in_time_order now xs \<Longrightarrow>
     run_timed step sweep xs s = run_timed step sweep (unswept xs) s"
  by (rule run_timed_agree [OF agree_refl])

end

end
