(* ===== verification/Affinity.thy ===== *)
theory Affinity
  imports Expiry
begin

text \<open>
  The binding of a user's session to a credential: \<open>src/src/kiro/affinity.rs\<close>. The mutex guards
  the table; every method runs under it and is one function. \<open>Instant::now()\<close>, which a method may
  read twice within one call, is one argument. Text for the log is left out.

  The lemmas show that a lookup never returns a binding that is older than 30 minutes or was
  removed, that the background cleanup cannot be observed, and that a session leaves a credential
  exactly at the third rate limit in a row.
\<close>

definition STICKY_429_UNBIND_THRESHOLD :: nat where "STICKY_429_UNBIND_THRESHOLD = 3"

record affinity_entry =
  entry_credential :: nat
  last_used :: instant
  consecutive_429 :: nat

record user_affinity_manager =
  affinity :: "string \<rightharpoonup> affinity_entry"
  ttl :: duration

definition affinity_new :: user_affinity_manager where
  "affinity_new = \<lparr>affinity = Map.empty, ttl = secs (30 * 60)\<rparr>"

text \<open>\<open>entry.last_used.elapsed() < ttl\<close>; \<open>elapsed\<close> is 0 for an instant in the future.\<close>

definition entry_live :: "instant \<Rightarrow> duration \<Rightarrow> affinity_entry \<Rightarrow> bool" where
  "entry_live now ttl0 e \<longleftrightarrow> now - last_used e < ttl0"

definition affinity_get :: "instant \<Rightarrow> string \<Rightarrow> user_affinity_manager \<Rightarrow>
    nat option \<times> user_affinity_manager" where
  "affinity_get now user_id m =
     (case affinity m user_id of
        Some entry \<Rightarrow>
          if entry_live now (ttl m) entry then (Some (entry_credential entry), m)
          else (None, m\<lparr>affinity := (affinity m)(user_id := None)\<rparr>)
      | None \<Rightarrow> (None, m))"

definition affinity_touch :: "instant \<Rightarrow> string \<Rightarrow> user_affinity_manager \<Rightarrow> user_affinity_manager" where
  "affinity_touch now user_id m =
     (case affinity m user_id of
        Some entry \<Rightarrow> m\<lparr>affinity := (affinity m)(user_id \<mapsto> entry\<lparr>last_used := now\<rparr>)\<rparr>
      | None \<Rightarrow> m)"

definition remove_by_credential :: "nat \<Rightarrow> user_affinity_manager \<Rightarrow> user_affinity_manager" where
  "remove_by_credential cid m =
     m\<lparr>affinity := retain (\<lambda>_ entry. entry_credential entry \<noteq> cid) (affinity m)\<rparr>"

definition affinity_cleanup :: "instant \<Rightarrow> user_affinity_manager \<Rightarrow> user_affinity_manager" where
  "affinity_cleanup now m =
     m\<lparr>affinity := retain (\<lambda>_ entry. entry_live now (ttl m) entry) (affinity m)\<rparr>"

definition note_rate_limited :: "instant \<Rightarrow> string \<Rightarrow> nat \<Rightarrow> user_affinity_manager \<Rightarrow>
    nat \<times> user_affinity_manager" where
  "note_rate_limited now user_id cid m =
     (let (counted, m1) =
        (case affinity m user_id of
           Some entry \<Rightarrow>
             if entry_live now (ttl m) entry \<and> entry_credential entry = cid then
               let n = sat_add32 (consecutive_429 entry) 1 in
               (Some n, m\<lparr>affinity := (affinity m)(user_id \<mapsto> entry\<lparr>consecutive_429 := n\<rparr>)\<rparr>)
             else (None, m)
         | None \<Rightarrow> (None, m)) in
      (case counted of
         Some n \<Rightarrow>
           if n \<ge> STICKY_429_UNBIND_THRESHOLD
           then (n, m1\<lparr>affinity := (affinity m1)(user_id := None)\<rparr>)
           else (n, m1)
       | None \<Rightarrow> (0, m1)))"

definition clear_streaks_by_credential ::
  "nat \<Rightarrow> user_affinity_manager \<Rightarrow> user_affinity_manager" where
  "clear_streaks_by_credential cid m =
     m\<lparr>affinity := (\<lambda>u. map_option
       (\<lambda>entry. if entry_credential entry = cid \<and> consecutive_429 entry > 0
                then entry\<lparr>consecutive_429 := 0\<rparr> else entry) (affinity m u))\<rparr>"

definition bind_after_selection :: "instant \<Rightarrow> string \<Rightarrow> nat \<Rightarrow> (nat \<Rightarrow> nat \<Rightarrow> bool) \<Rightarrow>
    user_affinity_manager \<Rightarrow> user_affinity_manager" where
  "bind_after_selection now user_id selected_id keep_when m =
     (case affinity m user_id of
        Some entry \<Rightarrow>
          if entry_live now (ttl m) entry then
            if entry_credential entry = selected_id
            then m\<lparr>affinity := (affinity m)(user_id \<mapsto> entry\<lparr>last_used := now\<rparr>)\<rparr>
            else if \<not> keep_when (entry_credential entry) (consecutive_429 entry)
            then m\<lparr>affinity := (affinity m)(user_id \<mapsto>
                   entry\<lparr>entry_credential := selected_id, consecutive_429 := 0, last_used := now\<rparr>)\<rparr>
            else m
          else m\<lparr>affinity := (affinity m)(user_id \<mapsto>
                 \<lparr>entry_credential = selected_id, last_used = now, consecutive_429 = 0\<rparr>)\<rparr>
      | None \<Rightarrow> m\<lparr>affinity := (affinity m)(user_id \<mapsto>
                 \<lparr>entry_credential = selected_id, last_used = now, consecutive_429 = 0\<rparr>)\<rparr>)"

subsection \<open>What can be observed\<close>

text \<open>
  The calls the selection makes. A hit is refreshed with \<open>touch\<close>, a miss is not; the two calls of a
  hit take the lock one after the other and are taken here as one, at one instant, with nothing in
  between. \<open>touch\<close> alone asks for no time to live (\<open>touch_renews\<close>): should the binding expire just
  between the two, it is renewed.
\<close>

datatype affinity_op =
  Lookup string
| LookupAndTouch string
| Bind string nat "nat \<Rightarrow> nat \<Rightarrow> bool"
| RateLimited string nat
| ClearStreaks nat
| RemoveCredential nat

fun affinity_step :: "affinity_op \<Rightarrow> instant \<Rightarrow> user_affinity_manager \<Rightarrow>
    (nat option \<times> nat) \<times> user_affinity_manager" where
  "affinity_step (Lookup u) now m = (let (r, m') = affinity_get now u m in ((r, 0), m'))"
| "affinity_step (LookupAndTouch u) now m =
     (let (r, m') = affinity_get now u m
      in ((r, 0), if r = None then m' else affinity_touch now u m'))"
| "affinity_step (Bind u c keep) now m = ((None, 0), bind_after_selection now u c keep m)"
| "affinity_step (RateLimited u c) now m =
     (let (n, m') = note_rate_limited now u c m in ((None, n), m'))"
| "affinity_step (ClearStreaks c) now m = ((None, 0), clear_streaks_by_credential c m)"
| "affinity_step (RemoveCredential c) now m = ((None, 0), remove_by_credential c m)"

text \<open>The bindings that are in force at a time.\<close>

definition live_bindings :: "instant \<Rightarrow> user_affinity_manager \<Rightarrow> string \<rightharpoonup> affinity_entry" where
  "live_bindings now m = retain (\<lambda>_ e. entry_live now (ttl m) e) (affinity m)"

definition affinity_agree :: "instant \<Rightarrow> user_affinity_manager \<Rightarrow> user_affinity_manager \<Rightarrow> bool" where
  "affinity_agree now a b \<longleftrightarrow> ttl a = ttl b \<and> live_bindings now a = live_bindings now b"

lemma entry_live_later: "entry_live t' d e \<Longrightarrow> t \<le> t' \<Longrightarrow> entry_live t d e"
  by (simp add: entry_live_def)

lemma live_bindings_Some:
  "live_bindings now m u = Some e \<longleftrightarrow> affinity m u = Some e \<and> entry_live now (ttl m) e"
  by (simp add: live_bindings_def)

lemma touch_renews:
  "affinity m u = Some e \<Longrightarrow> 0 < ttl m \<Longrightarrow>
     live_bindings now (affinity_touch now u m) u = Some (e\<lparr>last_used := now\<rparr>)"
  by (simp add: live_bindings_Some affinity_touch_def entry_live_def)

lemma live_bindings_None:
  "live_bindings now m u = None \<longleftrightarrow> (\<forall>e. affinity m u = Some e \<longrightarrow> \<not> entry_live now (ttl m) e)"
  by (simp add: live_bindings_def retain_eq_None)

lemma live_bindings_later:
  "t \<le> t' \<Longrightarrow> live_bindings t' m = retain (\<lambda>_ e. entry_live t' (ttl m) e) (live_bindings t m)"
  by (auto simp: live_bindings_def retain_def fun_eq_iff split: option.splits dest: entry_live_later)

text \<open>Every operation as a function of the bindings in force.\<close>

fun live_step :: "affinity_op \<Rightarrow> instant \<Rightarrow> duration \<Rightarrow> (string \<rightharpoonup> affinity_entry) \<Rightarrow>
    (nat option \<times> nat) \<times> (string \<rightharpoonup> affinity_entry)" where
  "live_step (Lookup u) now d b = ((map_option entry_credential (b u), 0), b)"
| "live_step (LookupAndTouch u) now d b =
     ((map_option entry_credential (b u), 0),
      b(u := map_option (\<lambda>e. e\<lparr>last_used := now\<rparr>) (b u)))"
| "live_step (Bind u c keep) now d b =
     ((None, 0),
      b(u \<mapsto>
        (case b u of
           None \<Rightarrow> \<lparr>entry_credential = c, last_used = now, consecutive_429 = 0\<rparr>
         | Some e \<Rightarrow>
             if entry_credential e = c then e\<lparr>last_used := now\<rparr>
             else if keep (entry_credential e) (consecutive_429 e) then e
             else e\<lparr>entry_credential := c, consecutive_429 := 0, last_used := now\<rparr>)))"
| "live_step (RateLimited u c) now d b =
     (case b u of
        Some e \<Rightarrow>
          if entry_credential e = c then
            let n = sat_add32 (consecutive_429 e) 1 in
            ((None, n),
             b(u := if STICKY_429_UNBIND_THRESHOLD \<le> n then None else Some (e\<lparr>consecutive_429 := n\<rparr>)))
          else ((None, 0), b)
      | None \<Rightarrow> ((None, 0), b))"
| "live_step (ClearStreaks c) now d b =
     ((None, 0),
      (\<lambda>u. map_option (\<lambda>e. if entry_credential e = c then e\<lparr>consecutive_429 := 0\<rparr> else e) (b u)))"
| "live_step (RemoveCredential c) now d b =
     ((None, 0), retain (\<lambda>_ e. entry_credential e \<noteq> c) b)"

subsection \<open>The table implements the bindings in force\<close>

lemma ttl_step [simp]: "ttl (snd (affinity_step x now m)) = ttl m"
  by (cases x) (auto simp: affinity_get_def affinity_touch_def bind_after_selection_def Let_def
      note_rate_limited_def clear_streaks_by_credential_def remove_by_credential_def
      split: option.split prod.split)

lemma live_bindings_upd:
  "live_bindings now (m\<lparr>affinity := (affinity m)(u := x)\<rparr>) =
     (live_bindings now m)(u := (case x of None \<Rightarrow> None
        | Some e \<Rightarrow> if entry_live now (ttl m) e then Some e else None))"
  by (auto simp: live_bindings_def retain_def split: option.split)

lemma retain_live_bindings:
  "retain (\<lambda>_ e. entry_live now (ttl m) e) (live_bindings now m) = live_bindings now m"
  by (auto simp: live_bindings_def intro: retain_all)

lemma entry_live_update [simp]:
  "entry_live now d (e\<lparr>consecutive_429 := n\<rparr>) = entry_live now d e"
  "entry_live now d (e\<lparr>entry_credential := c\<rparr>) = entry_live now d e"
  by (simp_all add: entry_live_def)

lemmas affinity_defs = affinity_get_def affinity_touch_def bind_after_selection_def
  note_rate_limited_def clear_streaks_by_credential_def remove_by_credential_def

lemma live_bindings_cases:
  obtains (expired) "live_bindings now m u = None"
      "affinity m u = None \<or> (\<exists>e. affinity m u = Some e \<and> \<not> entry_live now (ttl m) e)"
    | (live) e where "live_bindings now m u = Some e" "affinity m u = Some e"
      "entry_live now (ttl m) e"
  by (cases "affinity m u") (auto simp: live_bindings_def retain_def split: if_splits)

lemma retain_upd:
  "retain P (b(u := x)) = (retain P b)(u := (case x of None \<Rightarrow> None
     | Some e \<Rightarrow> if P u e then Some e else None))"
  by (auto simp: retain_def fun_eq_iff)

lemma live_step_refines:
  "fst (affinity_step x now m) = fst (live_step x now (ttl m) (live_bindings now m)) \<and>
   live_bindings now (snd (affinity_step x now m)) =
     retain (\<lambda>_ e. entry_live now (ttl m) e)
       (snd (live_step x now (ttl m) (live_bindings now m)))"
proof (cases x)
  case (Lookup u)
  show ?thesis
    by (cases rule: live_bindings_cases [of now m u])
      (auto simp: Lookup affinity_get_def live_bindings_upd retain_live_bindings fun_upd_idem)
next
  case (LookupAndTouch u)
  show ?thesis
    by (cases rule: live_bindings_cases [of now m u])
      (auto simp: LookupAndTouch affinity_get_def affinity_touch_def live_bindings_upd
        retain_live_bindings fun_upd_idem retain_upd)
next
  case (Bind u c keep)
  show ?thesis
    by (cases rule: live_bindings_cases [of now m u])
      (auto simp: Bind bind_after_selection_def live_bindings_upd retain_live_bindings
        fun_upd_idem retain_upd)
next
  case (RateLimited u c)
  show ?thesis
    by (cases rule: live_bindings_cases [of now m u])
      (auto simp: RateLimited note_rate_limited_def live_bindings_upd retain_live_bindings
        fun_upd_idem retain_upd Let_def)
next
  case (ClearStreaks c)
  show ?thesis
    by (auto simp: ClearStreaks clear_streaks_by_credential_def live_bindings_def retain_def
        fun_eq_iff entry_live_def split: option.split)
next
  case (RemoveCredential c)
  show ?thesis
    by (auto simp: RemoveCredential remove_by_credential_def live_bindings_def retain_def
        fun_eq_iff split: option.split)
qed

interpretation affinity: lazy_expiry affinity_step affinity_cleanup affinity_agree
proof unfold_locales
  fix t t' :: instant and a b c :: user_affinity_manager and x
  show "affinity_agree t a a" by (simp add: affinity_agree_def)
  show "affinity_agree t a b \<Longrightarrow> affinity_agree t b c \<Longrightarrow> affinity_agree t a c"
    by (simp add: affinity_agree_def)
  show "affinity_agree t a b \<Longrightarrow> t \<le> t' \<Longrightarrow> affinity_agree t' a b"
    by (simp add: affinity_agree_def live_bindings_later)
  show "affinity_agree t (affinity_cleanup t a) a"
    by (simp add: affinity_agree_def affinity_cleanup_def live_bindings_def retain_retain)
  show "affinity_agree t a b \<Longrightarrow> fst (affinity_step x t a) = fst (affinity_step x t b)"
    by (simp add: affinity_agree_def live_step_refines)
  show "affinity_agree t a b \<Longrightarrow>
      affinity_agree t (snd (affinity_step x t a)) (snd (affinity_step x t b))"
    by (simp add: affinity_agree_def live_step_refines)
qed

text \<open>
  The background cleanup of the bindings cannot be observed: for every sequence of lookups,
  bindings, rate limits, streak resets and removals at times that do not go back, every call
  returns the same whether or not the table was swept before any of them.
\<close>
theorem affinity_sweeps_unobservable:
  assumes "in_time_order 0 xs"
  shows "run_timed affinity_step affinity_cleanup xs affinity_new =
    run_timed affinity_step affinity_cleanup (unswept xs) affinity_new"
  using assms by (rule affinity.sweeps_unobservable)

lemma affinity_sweeps_unobservable_witness:
  "run_timed affinity_step affinity_cleanup
     [(0, False, Bind ''s'' 7 (\<lambda>_ _. False)), (secs 5, True, RateLimited ''s'' 7),
      (secs 1800, True, Lookup ''s'')] affinity_new =
   run_timed affinity_step affinity_cleanup
     [(0, False, Bind ''s'' 7 (\<lambda>_ _. False)), (secs 5, False, RateLimited ''s'' 7),
      (secs 1800, False, Lookup ''s'')] affinity_new"
  using affinity_sweeps_unobservable [of "[(0, False, Bind ''s'' 7 (\<lambda>_ _. False)),
      (secs 5, True, RateLimited ''s'' 7), (secs 1800, True, Lookup ''s'')]"]
  by (simp add: unswept_def)

text \<open>
  C29. Each operation on the table does to the bindings in force, those not older than the time to
  live, what the abstract session table does: a lookup returns the bound credential, a hit renews
  it, a binding is kept, renewed or replaced, the third rate limit in a row on the bound credential
  (and no other) removes it, expired entries behave as absent.
\<close>
theorem affinity_refines:
  "fst (affinity_step x now m) = fst (live_step x now (ttl m) (live_bindings now m)) \<and>
   live_bindings now (snd (affinity_step x now m)) =
     retain (\<lambda>_ e. entry_live now (ttl m) e)
       (snd (live_step x now (ttl m) (live_bindings now m)))"
  by (rule live_step_refines)

end
