(* ===== verification/Scheduling.thy ===== *)
theory Scheduling
  imports Expiry
begin

text \<open>
  The signals the selection of a credential reads: \<open>src/src/kiro/scheduling.rs\<close>. \<open>RpmTracker\<close>
  keeps, per credential and per credential and model, the instants of the requests of the last
  minute, oldest first, and drops the old ones when it next touches the queue; \<open>InflightGuard\<close>
  counts requests in flight; \<open>ramp_tier_of\<close> classifies how steeply the rate rises.

  Each method runs under the mutex of the map it touches and is one function of the time it reads.
  The lemmas show that every count is exact, the number of requests recorded in the last 60 seconds
  since the credential was last removed, however queries, sweeps and other credentials interleave.
\<close>

definition RPM_WINDOW_SECS :: nat where "RPM_WINDOW_SECS = 60"
definition RAMP_RECENT_SECS :: nat where "RAMP_RECENT_SECS = 10"
definition RAMP_MIN_SAMPLES :: nat where "RAMP_MIN_SAMPLES = 20"

definition ramp_tier_of :: "nat \<Rightarrow> nat \<Rightarrow> nat" where
  "ramp_tier_of recent tot =
     (if tot < RAMP_MIN_SAMPLES then 0
      else
        let projected = recent * (RPM_WINDOW_SECS div RAMP_RECENT_SECS);
            base = max tot 1 in
        if projected \<ge> base * 5 then 2
        else if projected \<ge> base * 2 then 1
        else 0)"

text \<open>\<open>fetch_add\<close> wraps, the decrement of \<open>drop\<close> saturates.\<close>

definition inflight_acquire :: "nat \<Rightarrow> nat" where
  "inflight_acquire c = (c + 1) mod 2 ^ 32"

definition inflight_drop :: "nat \<Rightarrow> nat" where
  "inflight_drop c = c - 1"

subsection \<open>The tracker\<close>

record rpm_tracker =
  window :: duration
  hits :: "nat \<rightharpoonup> instant list"
  model_hits :: "nat \<times> string \<rightharpoonup> instant list"

definition rpm_new :: rpm_tracker where
  "rpm_new = \<lparr>window = secs RPM_WINDOW_SECS, hits = Map.empty, model_hits = Map.empty\<rparr>"

fun prune :: "instant \<Rightarrow> duration \<Rightarrow> instant list \<Rightarrow> instant list" where
  "prune now w [] = []"
| "prune now w (front # v) = (if now - front \<ge> w then prune now w v else front # v)"

definition as_u32 :: "nat \<Rightarrow> nat" where "as_u32 n = n mod 2 ^ 32"

text \<open>\<open>entry(k).or_default()\<close>, prune, \<open>push_back(now)\<close>.\<close>

definition push_hit :: "instant \<Rightarrow> duration \<Rightarrow> 'k \<Rightarrow> ('k \<rightharpoonup> instant list) \<Rightarrow> ('k \<rightharpoonup> instant list)" where
  "push_hit now w k m =
     (let v = (case m k of None \<Rightarrow> [] | Some v \<Rightarrow> v) in m(k \<mapsto> prune now w v @ [now]))"

definition rpm_record :: "instant \<Rightarrow> nat \<Rightarrow> rpm_tracker \<Rightarrow> rpm_tracker" where
  "rpm_record now cid r = r\<lparr>hits := push_hit now (window r) cid (hits r)\<rparr>"

definition rpm_record_model :: "instant \<Rightarrow> nat \<Rightarrow> string \<Rightarrow> rpm_tracker \<Rightarrow> rpm_tracker" where
  "rpm_record_model now cid model r =
     r\<lparr>model_hits := push_hit now (window r) (cid, model) (model_hits r)\<rparr>"

text \<open>\<open>get_mut\<close> and prune in place: the pruned queue, if the key is there, and the map.\<close>

definition get_pruned :: "instant \<Rightarrow> duration \<Rightarrow> 'k \<Rightarrow> ('k \<rightharpoonup> instant list) \<Rightarrow>
    instant list option \<times> ('k \<rightharpoonup> instant list)" where
  "get_pruned now w k m =
     (case m k of
        Some v \<Rightarrow> (let v' = prune now w v in (Some v', m(k \<mapsto> v')))
      | None \<Rightarrow> (None, m))"

definition queue_len :: "instant list option \<Rightarrow> nat" where
  "queue_len v = (case v of Some v \<Rightarrow> as_u32 (length v) | None \<Rightarrow> 0)"

definition rpm_count :: "instant \<Rightarrow> nat \<Rightarrow> rpm_tracker \<Rightarrow> nat \<times> rpm_tracker" where
  "rpm_count now cid r =
     (let (v, m) = get_pruned now (window r) cid (hits r) in
      (queue_len v, r\<lparr>hits := m\<rparr>))"

text \<open>The loop over the ids, for the value each queue gives; the ids are the keys of the result.\<close>

fun query_all :: "instant \<Rightarrow> duration \<Rightarrow> (instant list option \<Rightarrow> 'a) \<Rightarrow> ('i \<Rightarrow> 'k) \<Rightarrow> 'i list \<Rightarrow>
    ('k \<rightharpoonup> instant list) \<Rightarrow> ('i \<rightharpoonup> 'a) \<Rightarrow> ('i \<rightharpoonup> 'a) \<times> ('k \<rightharpoonup> instant list)" where
  "query_all now w f key [] m out = (out, m)"
| "query_all now w f key (i # ids) m out =
     (let (v, m') = get_pruned now w (key i) m in query_all now w f key ids m' (out(i \<mapsto> f v)))"

definition rpm_counts_for :: "instant \<Rightarrow> nat list \<Rightarrow> rpm_tracker \<Rightarrow> (nat \<rightharpoonup> nat) \<times> rpm_tracker" where
  "rpm_counts_for now ids r =
     (let (out, m) = query_all now (window r) queue_len id ids (hits r) Map.empty
      in (out, r\<lparr>hits := m\<rparr>))"

definition rpm_model_counts_for ::
  "instant \<Rightarrow> nat list \<Rightarrow> string \<Rightarrow> rpm_tracker \<Rightarrow> (nat \<rightharpoonup> nat) \<times> rpm_tracker" where
  "rpm_model_counts_for now ids model r =
     (let (out, m) = query_all now (window r) queue_len (\<lambda>i. (i, model)) ids (model_hits r) Map.empty
      in (out, r\<lparr>model_hits := m\<rparr>))"

definition ramp_counts :: "instant \<Rightarrow> duration \<Rightarrow> instant list option \<Rightarrow> nat \<times> nat" where
  "ramp_counts now recent v =
     (case v of
        None \<Rightarrow> (0, 0)
      | Some v \<Rightarrow>
          (as_u32 (length (takeWhile (\<lambda>t. now - t \<le> recent) (rev v))), as_u32 (length v)))"

definition rpm_ramp_counts_for ::
  "instant \<Rightarrow> nat list \<Rightarrow> duration \<Rightarrow> rpm_tracker \<Rightarrow> (nat \<rightharpoonup> nat \<times> nat) \<times> rpm_tracker" where
  "rpm_ramp_counts_for now ids recent r =
     (let (out, m) = query_all now (window r) (ramp_counts now recent) id ids (hits r) Map.empty
      in (out, r\<lparr>hits := m\<rparr>))"

definition rpm_oldest_age :: "instant \<Rightarrow> nat \<Rightarrow> rpm_tracker \<Rightarrow> duration option \<times> rpm_tracker" where
  "rpm_oldest_age now cid r =
     (let (v, m) = get_pruned now (window r) cid (hits r) in
      ((case v of Some (t # _) \<Rightarrow> Some (now - t) | _ \<Rightarrow> None), r\<lparr>hits := m\<rparr>))"

definition rpm_kth_oldest_age ::
  "instant \<Rightarrow> nat \<Rightarrow> nat \<Rightarrow> rpm_tracker \<Rightarrow> duration option \<times> rpm_tracker" where
  "rpm_kth_oldest_age now cid k r =
     (if k = 0 then (None, r)
      else
        let (v, m) = get_pruned now (window r) cid (hits r) in
        ((case v of
            Some v \<Rightarrow> if k - 1 < length v then Some (now - v ! (k - 1)) else None
          | None \<Rightarrow> None), r\<lparr>hits := m\<rparr>))"

definition rpm_remove :: "nat \<Rightarrow> rpm_tracker \<Rightarrow> bool \<times> rpm_tracker" where
  "rpm_remove cid r =
     (let had_hit = hits r cid \<noteq> None;
          had_model = (\<exists>model. model_hits r (cid, model) \<noteq> None) in
      (had_hit \<or> had_model,
       r\<lparr>hits := (hits r)(cid := None),
         model_hits := retain (\<lambda>(c, _) _. c \<noteq> cid) (model_hits r)\<rparr>))"

definition prune_all :: "instant \<Rightarrow> duration \<Rightarrow> ('k \<rightharpoonup> instant list) \<Rightarrow> ('k \<rightharpoonup> instant list)" where
  "prune_all now w m = retain (\<lambda>_ v. v \<noteq> []) (\<lambda>k. map_option (prune now w) (m k))"

definition rpm_cleanup :: "instant \<Rightarrow> rpm_tracker \<Rightarrow> rpm_tracker" where
  "rpm_cleanup now r =
     r\<lparr>hits := prune_all now (window r) (hits r),
       model_hits := prune_all now (window r) (model_hits r)\<rparr>"

subsection \<open>Queues up to what is out of date\<close>

definition queue :: "('k \<rightharpoonup> instant list) \<Rightarrow> 'k \<Rightarrow> instant list" where
  "queue m k = (case m k of None \<Rightarrow> [] | Some v \<Rightarrow> v)"

text \<open>The queue as any operation at \<open>now\<close> sees it.\<close>

definition current :: "instant \<Rightarrow> duration \<Rightarrow> ('k \<rightharpoonup> instant list) \<Rightarrow> 'k \<Rightarrow> instant list" where
  "current now w m k = prune now w (queue m k)"

lemma prune_later [simp]: "t \<le> t' \<Longrightarrow> prune t' w (prune t w v) = prune t' w v"
  by (induction v) auto

lemma current_push_hit:
  "current t w (push_hit t w k m) = (current t w m)(k := prune t w (current t w m k @ [t]))"
  by (auto simp: current_def push_hit_def queue_def fun_eq_iff)

lemma current_get_pruned: "current t w (snd (get_pruned t w k m)) = current t w m"
  by (auto simp: current_def get_pruned_def queue_def fun_eq_iff Let_def split: option.split)

lemma get_pruned_view:
  "f None = f (Some []) \<Longrightarrow> f (fst (get_pruned t w k m)) = f (Some (current t w m k))"
  by (auto simp: current_def get_pruned_def queue_def Let_def split: option.split)

lemma query_all_view:
  "f None = f (Some []) \<Longrightarrow>
     fst (query_all t w f key ids m out) =
       (\<lambda>i. if i \<in> set ids then Some (f (Some (current t w m (key i)))) else out i) \<and>
     current t w (snd (query_all t w f key ids m out)) = current t w m"
proof (induction ids arbitrary: m out)
  case (Cons i ids)
  obtain v m' where g: "get_pruned t w (key i) m = (v, m')" by force
  have "current t w m' = current t w m" "f v = f (Some (current t w m (key i)))"
    using current_get_pruned [of t w "key i" m] get_pruned_view [of f t w "key i" m, OF Cons.prems] g
    by simp_all
  moreover have "query_all t w f key (i # ids) m out = query_all t w f key ids m' (out(i \<mapsto> f v))"
    by (simp add: g)
  ultimately show ?case
    using Cons.IH [OF Cons.prems, of m' "out(i \<mapsto> f v)"] by (simp only:) (simp add: fun_eq_iff)
qed (simp add: fun_eq_iff)

lemma current_remove:
  "current t w (m(k := None)) = (current t w m)(k := [])"
  "current t w (retain (\<lambda>k _. P k) m) = (\<lambda>k. if P k then current t w m k else [])"
  by (auto simp: current_def queue_def retain_def fun_eq_iff split: option.split)

lemma current_prune_all: "current t w (prune_all t w m) = current t w m"
  by (auto simp: current_def queue_def prune_all_def retain_def fun_eq_iff split: option.split)

lemma current_later: "t \<le> t' \<Longrightarrow> current t' w m k = prune t' w (current t w m k)"
  by (simp add: current_def)

subsection \<open>Operations\<close>

datatype rpm_op =
  Record nat
| RecordModel nat string
| Count nat
| CountsFor "nat list"
| ModelCountsFor "nat list" string
| RampCountsFor "nat list" duration
| OldestAge nat
| KthOldestAge nat nat
| RemoveId nat

datatype rpm_result =
  NoResult
| ACount nat
| Counts "nat \<rightharpoonup> nat"
| Ramps "nat \<rightharpoonup> nat \<times> nat"
| Age "duration option"

text \<open>
  The flag \<open>remove\<close> returns, whether there was an entry, is for the log only and not a result here:
  it does see whether a sweep dropped an empty queue.
\<close>

fun rpm_step :: "rpm_op \<Rightarrow> instant \<Rightarrow> rpm_tracker \<Rightarrow> rpm_result \<times> rpm_tracker" where
  "rpm_step (Record i) now r = (NoResult, rpm_record now i r)"
| "rpm_step (RecordModel i model) now r = (NoResult, rpm_record_model now i model r)"
| "rpm_step (Count i) now r = apfst ACount (rpm_count now i r)"
| "rpm_step (CountsFor ids) now r = apfst Counts (rpm_counts_for now ids r)"
| "rpm_step (ModelCountsFor ids model) now r = apfst Counts (rpm_model_counts_for now ids model r)"
| "rpm_step (RampCountsFor ids recent) now r = apfst Ramps (rpm_ramp_counts_for now ids recent r)"
| "rpm_step (OldestAge i) now r = apfst Age (rpm_oldest_age now i r)"
| "rpm_step (KthOldestAge i k) now r = apfst Age (rpm_kth_oldest_age now i k r)"
| "rpm_step (RemoveId i) now r = (NoResult, snd (rpm_remove i r))"

abbreviation current_hits :: "instant \<Rightarrow> rpm_tracker \<Rightarrow> nat \<Rightarrow> instant list" where
  "current_hits now r \<equiv> current now (window r) (hits r)"

abbreviation current_model_hits :: "instant \<Rightarrow> rpm_tracker \<Rightarrow> nat \<times> string \<Rightarrow> instant list" where
  "current_model_hits now r \<equiv> current now (window r) (model_hits r)"

definition rpm_agree :: "instant \<Rightarrow> rpm_tracker \<Rightarrow> rpm_tracker \<Rightarrow> bool" where
  "rpm_agree now a b \<longleftrightarrow> window a = window b \<and> current_hits now a = current_hits now b \<and>
     current_model_hits now a = current_model_hits now b"

text \<open>The result of each operation from the current queues, and what it makes of them.\<close>

fun rpm_view :: "rpm_op \<Rightarrow> instant \<Rightarrow> (nat \<Rightarrow> instant list) \<Rightarrow> (nat \<times> string \<Rightarrow> instant list) \<Rightarrow>
    rpm_result" where
  "rpm_view (Count i) now q mq = ACount (as_u32 (length (q i)))"
| "rpm_view (CountsFor ids) now q mq =
     Counts (\<lambda>i. if i \<in> set ids then Some (as_u32 (length (q i))) else None)"
| "rpm_view (ModelCountsFor ids model) now q mq =
     Counts (\<lambda>i. if i \<in> set ids then Some (as_u32 (length (mq (i, model)))) else None)"
| "rpm_view (RampCountsFor ids recent) now q mq =
     Ramps (\<lambda>i. if i \<in> set ids then Some (ramp_counts now recent (Some (q i))) else None)"
| "rpm_view (OldestAge i) now q mq =
     Age (case q i of [] \<Rightarrow> None | t # _ \<Rightarrow> Some (now - t))"
| "rpm_view (KthOldestAge i k) now q mq =
     Age (if 0 < k \<and> k \<le> length (q i) then Some (now - q i ! (k - 1)) else None)"
| "rpm_view _ now q mq = NoResult"

fun hits_effect :: "rpm_op \<Rightarrow> instant \<Rightarrow> duration \<Rightarrow> (nat \<Rightarrow> instant list) \<Rightarrow> nat \<Rightarrow> instant list" where
  "hits_effect (Record i) now w q = q(i := prune now w (q i @ [now]))"
| "hits_effect (RemoveId i) now w q = q(i := [])"
| "hits_effect _ now w q = q"

fun model_hits_effect :: "rpm_op \<Rightarrow> instant \<Rightarrow> duration \<Rightarrow> (nat \<times> string \<Rightarrow> instant list) \<Rightarrow>
    nat \<times> string \<Rightarrow> instant list" where
  "model_hits_effect (RecordModel i model) now w q =
     q((i, model) := prune now w (q (i, model) @ [now]))"
| "model_hits_effect (RemoveId i) now w q = (\<lambda>(c, model). if c = i then [] else q (c, model))"
| "model_hits_effect _ now w q = q"

lemma queue_len_Some [simp]: "queue_len (Some v) = as_u32 (length v)"
  by (simp add: queue_len_def)

lemma queue_len_none: "queue_len None = queue_len (Some [])"
  by (simp add: queue_len_def as_u32_def)

lemma ramp_counts_none: "ramp_counts now recent None = ramp_counts now recent (Some [])"
  by (simp add: ramp_counts_def as_u32_def)

lemma current_case_prod:
  "(\<lambda>k. if (case k of (c, _) \<Rightarrow> c \<noteq> i) then q k else []) = (\<lambda>(c, m). if c = i then [] else q (c, m))"
  by (auto simp: fun_eq_iff)

lemma rpm_step_view:
  "window (snd (rpm_step x now r)) = window r \<and>
   fst (rpm_step x now r) = rpm_view x now (current_hits now r) (current_model_hits now r) \<and>
   current_hits now (snd (rpm_step x now r)) = hits_effect x now (window r) (current_hits now r) \<and>
   current_model_hits now (snd (rpm_step x now r)) =
     model_hits_effect x now (window r) (current_model_hits now r)"
proof (cases x)
  case (Count i)
  then show ?thesis
    using get_pruned_view [of queue_len now "window r" i "hits r", OF queue_len_none]
      current_get_pruned [of now "window r" i "hits r"]
    by (auto simp: rpm_count_def split: prod.split)
next
  case (CountsFor ids)
  then show ?thesis
    using query_all_view [OF queue_len_none, of now "window r" id ids "hits r" Map.empty]
    by (auto simp: rpm_counts_for_def split: prod.split)
next
  case (ModelCountsFor ids model)
  then show ?thesis
    using query_all_view [OF queue_len_none, of now "window r" "\<lambda>i. (i, model)" ids "model_hits r" Map.empty]
    by (auto simp: rpm_model_counts_for_def split: prod.split)
next
  case (RampCountsFor ids recent)
  then show ?thesis
    using query_all_view [OF ramp_counts_none [of now recent], of now "window r" id ids "hits r" Map.empty]
    by (auto simp: rpm_ramp_counts_for_def split: prod.split)
next
  case (OldestAge i)
  then show ?thesis
    using get_pruned_view [of "\<lambda>v. case v of Some (t # _) \<Rightarrow> Some (now - t) | _ \<Rightarrow> None"
        now "window r" i "hits r"]
      current_get_pruned [of now "window r" i "hits r"]
    by (auto simp: rpm_oldest_age_def split: prod.split)
next
  case (KthOldestAge i k)
  then show ?thesis
    using get_pruned_view [of "\<lambda>v. case v of
          Some v \<Rightarrow> if k - 1 < length v then Some (now - v ! (k - 1)) else None
        | None \<Rightarrow> None" now "window r" i "hits r"]
      current_get_pruned [of now "window r" i "hits r"]
    by (auto simp: rpm_kth_oldest_age_def split: prod.split)
next
  case (RemoveId i)
  then show ?thesis
    by (simp add: rpm_remove_def Let_def current_remove case_prod_unfold)
      (auto simp: fun_eq_iff current_def queue_def retain_def split: option.split)
qed (auto simp: rpm_record_def rpm_record_model_def current_push_hit)

interpretation rpm: lazy_expiry rpm_step rpm_cleanup rpm_agree
proof unfold_locales
  fix t t' :: instant and a b c :: rpm_tracker and x
  show "rpm_agree t a a" by (simp add: rpm_agree_def)
  show "rpm_agree t a b \<Longrightarrow> rpm_agree t b c \<Longrightarrow> rpm_agree t a c"
    unfolding rpm_agree_def by metis
  show "rpm_agree t a b \<Longrightarrow> t \<le> t' \<Longrightarrow> rpm_agree t' a b"
    by (clarsimp simp: rpm_agree_def) (simp add: fun_eq_iff current_later)
  show "rpm_agree t (rpm_cleanup t a) a"
    by (simp add: rpm_agree_def rpm_cleanup_def current_prune_all)
  show "rpm_agree t a b \<Longrightarrow> fst (rpm_step x t a) = fst (rpm_step x t b)"
    by (clarsimp simp: rpm_agree_def rpm_step_view)
  show "rpm_agree t a b \<Longrightarrow> rpm_agree t (snd (rpm_step x t a)) (snd (rpm_step x t b))"
    using rpm_step_view [of x t a] rpm_step_view [of x t b] unfolding rpm_agree_def by metis
qed

subsection \<open>The counts are exact\<close>

text \<open>
  What a history of timed operations has recorded for a credential since it was last removed, and
  the tracker it leaves, with a sweep before the operations that are marked.
\<close>

fun recorded :: "nat \<Rightarrow> instant list \<Rightarrow> (instant \<times> bool \<times> rpm_op) list \<Rightarrow> instant list" where
  "recorded i acc [] = acc"
| "recorded i acc ((t, _, Record j) # xs) = recorded i (if i = j then acc @ [t] else acc) xs"
| "recorded i acc ((t, _, RemoveId j) # xs) = recorded i (if i = j then [] else acc) xs"
| "recorded i acc (_ # xs) = recorded i acc xs"

fun rpm_run :: "(instant \<times> bool \<times> rpm_op) list \<Rightarrow> rpm_tracker \<Rightarrow> rpm_tracker" where
  "rpm_run [] r = r"
| "rpm_run ((t, swept, x) # xs) r =
     rpm_run xs (snd (rpm_step x t (if swept then rpm_cleanup t r else r)))"

fun last_time :: "instant \<Rightarrow> (instant \<times> bool \<times> rpm_op) list \<Rightarrow> instant" where
  "last_time t [] = t"
| "last_time _ ((t, _) # xs) = last_time t xs"

definition within :: "duration \<Rightarrow> instant \<Rightarrow> instant list \<Rightarrow> instant list" where
  "within w now ts = filter (\<lambda>t. now - t < w) ts"

lemma prune_within:
  "sorted v \<Longrightarrow> prune now w v = within w now v"
proof (induction v)
  case (Cons a v)
  show ?case
  proof (cases "now - a \<ge> w")
    case False
    then have "now - b < w" if "b \<in> set v" for b
      using Cons.prems that by (auto intro: le_less_trans)
    then have "within w now (a # v) = a # v" using False by (simp add: within_def)
    then show ?thesis using False by simp
  qed (use Cons in \<open>simp add: within_def\<close>)
qed (simp add: within_def)

lemma within_later: "t \<le> t' \<Longrightarrow> within w t' (within w t ts) = within w t' ts"
  by (auto simp: within_def intro: filter_cong)

lemma within_snoc: "within w now (ts @ [t]) = within w now ts @ (if now - t < w then [t] else [])"
  by (simp add: within_def)

lemma sorted_within [simp]: "sorted ts \<Longrightarrow> sorted (within w now ts)"
  by (simp add: within_def sorted_wrt_filter)

definition tracks :: "nat \<Rightarrow> instant \<Rightarrow> rpm_tracker \<Rightarrow> instant list \<Rightarrow> bool" where
  "tracks i now r ts \<longleftrightarrow> sorted ts \<and> (\<forall>t \<in> set ts. t \<le> now) \<and>
     current_hits now r i = within (window r) now ts"

lemma window_cleanup [simp]: "window (rpm_cleanup t r) = window r"
  by (simp add: rpm_cleanup_def)

lemma hits_cleanup: "current_hits t (rpm_cleanup t r) = current_hits t r"
  by (simp add: rpm_cleanup_def current_prune_all)

lemma tracks_step:
  assumes "tracks i now r ts" "now \<le> t"
  shows "tracks i t (snd (rpm_step x t (if swept then rpm_cleanup t r else r)))
    (case x of Record j \<Rightarrow> if i = j then ts @ [t] else ts
       | RemoveId j \<Rightarrow> if i = j then [] else ts | _ \<Rightarrow> ts)"
proof -
  let ?r = "if swept then rpm_cleanup t r else r"
  have "current_hits t ?r i = current_hits t r i" by (simp add: hits_cleanup [simplified])
  also have "\<dots> = within (window r) t ts"
    using assms by (simp add: tracks_def current_later [OF assms(2)] prune_within within_later)
  finally have cur: "current_hits t ?r i = within (window r) t ts" .
  have win: "window ?r = window r" by simp
  have sorted: "sorted (ts @ [t])" "\<forall>u \<in> set ts. u \<le> t"
    using assms by (auto simp: tracks_def sorted_append intro: order_trans)
  have "prune t (window r) (within (window r) t ts @ [t]) = within (window r) t (ts @ [t])"
    using sorted(1) by (subst prune_within)
      (auto simp: sorted_append within_snoc within_later, auto simp: within_def)
  then show ?thesis
    using sorted rpm_step_view [of x t ?r] cur
    by (cases x) (auto simp: tracks_def win sorted_append within_def)
qed

lemma tracks_run:
  "tracks i now r ts \<Longrightarrow> in_time_order now xs \<Longrightarrow>
     tracks i (last_time now xs) (rpm_run xs r) (recorded i ts xs)"
proof (induction xs arbitrary: now r ts)
  case (Cons x xs)
  obtain t swept y where x: "x = (t, swept, y)" by (metis prod_cases3)
  have t: "now \<le> t" "in_time_order t xs" using Cons.prems(2) by (simp_all add: x)
  show ?case
    using Cons.IH [OF tracks_step [OF Cons.prems(1) t(1), of y swept] t(2)]
    by (cases y) (simp_all add: x)
qed simp

lemma tracks_new: "tracks i 0 rpm_new []"
  by (simp add: tracks_def current_def queue_def rpm_new_def within_def)

lemma window_run [simp]: "window (rpm_run xs r) = window r"
  by (induction xs r rule: rpm_run.induct) (simp_all add: rpm_step_view)

text \<open>
  The request rate the selection reads is exact. After any history of records, queries,
  sweeps and removals at times that do not go back, the count of a credential is the number of its
  requests recorded in the last 60 seconds since it was last removed (as a \<open>u32\<close>), and the age
  reported for the oldest of them is that of the first such request.
\<close>
theorem rpm_count_exact:
  assumes "in_time_order 0 xs" and "last_time 0 xs \<le> now"
  shows "fst (rpm_count now i (rpm_run xs rpm_new)) =
      as_u32 (length (within (secs RPM_WINDOW_SECS) now (recorded i [] xs))) \<and>
    fst (rpm_oldest_age now i (rpm_run xs rpm_new)) =
      (case within (secs RPM_WINDOW_SECS) now (recorded i [] xs) of
         [] \<Rightarrow> None | t # _ \<Rightarrow> Some (now - t))"
proof -
  let ?r = "rpm_run xs rpm_new"
  have "tracks i (last_time 0 xs) ?r (recorded i [] xs)"
    by (rule tracks_run [OF tracks_new assms(1)])
  then have "current_hits now ?r i = within (window ?r) now (recorded i [] xs)"
    using assms(2) by (simp add: tracks_def current_later prune_within within_later)
  moreover have "window ?r = secs RPM_WINDOW_SECS" by (simp add: rpm_new_def)
  ultimately show ?thesis
    using rpm_step_view [of "Count i" now ?r] rpm_step_view [of "OldestAge i" now ?r] by simp
qed

lemma rpm_count_exact_witness:
  "fst (rpm_count (secs 65) 7 (rpm_run [(0, False, Record 7), (secs 10, True, Record 7),
     (secs 20, False, Record 8), (secs 61, True, Count 7)] rpm_new)) = 1"
  using rpm_count_exact [of "[(0, False, Record 7), (secs 10, True, Record 7),
     (secs 20, False, Record 8), (secs 61, True, Count 7)]" "secs 65" 7]
  by (simp add: within_def RPM_WINDOW_SECS_def as_u32_def, simp add: secs_def)

text \<open>
  The cleanup task of the tracker cannot be observed through any query: counts for one or many
  credentials, per model, ramp counts and ages.
\<close>
theorem rpm_sweeps_unobservable:
  assumes "in_time_order 0 xs"
  shows "run_timed rpm_step rpm_cleanup xs rpm_new = run_timed rpm_step rpm_cleanup (unswept xs) rpm_new"
  using assms by (rule rpm.sweeps_unobservable)

lemma rpm_sweeps_unobservable_witness:
  "run_timed rpm_step rpm_cleanup [(0, True, Record 7), (secs 60, True, CountsFor [7, 8])] rpm_new =
   run_timed rpm_step rpm_cleanup [(0, False, Record 7), (secs 60, False, CountsFor [7, 8])] rpm_new"
  using rpm_sweeps_unobservable [of "[(0, True, Record 7), (secs 60, True, CountsFor [7, 8])]"]
  by (simp add: unswept_def)

subsection \<open>Ramp tier and requests in flight\<close>

lemma ramp_tier_spec:
  "ramp_tier_of recent tot =
     (if tot < 20 then 0 else if 5 * tot \<le> 6 * recent then 2 else if 2 * tot \<le> 6 * recent then 1 else 0)"
  by (simp add: ramp_tier_of_def RAMP_MIN_SAMPLES_def RPM_WINDOW_SECS_def RAMP_RECENT_SECS_def
      Let_def max_def mult.commute)

lemma ramp_tier_mono: "r \<le> r' \<Longrightarrow> ramp_tier_of r tot \<le> ramp_tier_of r' tot"
  by (simp add: ramp_tier_spec)

lemma inflight_balance: "c < 2 ^ 32 - 1 \<Longrightarrow> inflight_drop (inflight_acquire c) = c"
  by (simp add: inflight_drop_def inflight_acquire_def)

end
