(* ===== verification/Throttle.thy ===== *)
theory Throttle
  imports Prelude
begin

text \<open>
  The inbound throttle: \<open>src/src/kiro/throttle.rs\<close>. A token bucket in thousandths of a token admits
  requests; its target rate is halved when the upstream answers 429 and raised step by step when it
  does not (AIMD); for the first minute after start the rate ramps up from a quarter; a ring of 60
  one-second buckets counts what was admitted.

  The atomics and the two mutexes hold plain values, one record here. Every method takes the time
  since start in nanoseconds. The queueing loop of \<open>acquire_inner\<close> is given as what it does before it
  waits and at each wake-up; how long a wait really lasts is open. Log output is left out.

  The lemmas show that the target stays between its bounds, that no schedule of requests and rate
  changes admits more than the burst and the maximal rate allow, that a queued request always ends,
  and that the observed rate counts exactly the admissions of the last 60 seconds.
\<close>

definition DEFAULT_STEP_UP :: nat where "DEFAULT_STEP_UP = 10"
definition AIMD_PROBE_SECS :: nat where "AIMD_PROBE_SECS = 20"
definition MD_FACTOR_PCT :: nat where "MD_FACTOR_PCT = 50"
definition MD_DEBOUNCE_SECS :: nat where "MD_DEBOUNCE_SECS = 3"
definition ONE_TOKEN_MILLI :: nat where "ONE_TOKEN_MILLI = 1000"
definition BOOT_SLOW_START_SECS :: nat where "BOOT_SLOW_START_SECS = 60"
definition OBSERVED_WINDOW_SECS :: nat where "OBSERVED_WINDOW_SECS = 60"
definition BOOT_START_PCT :: nat where "BOOT_START_PCT = 25"

subsection \<open>The ring of admissions per second\<close>

record observed_rate =
  buckets :: "nat list"
  last_sec :: nat

definition observed_new :: observed_rate where
  "observed_new = \<lparr>buckets = replicate OBSERVED_WINDOW_SECS 0, last_sec = 0\<rparr>"

definition observed_advance :: "nat \<Rightarrow> observed_rate \<Rightarrow> observed_rate" where
  "observed_advance now_sec o' =
     (if now_sec = last_sec o' then o'
      else
        let gap = now_sec - last_sec o' in
        if gap \<ge> OBSERVED_WINDOW_SECS
        then \<lparr>buckets = replicate OBSERVED_WINDOW_SECS 0, last_sec = now_sec\<rparr>
        else \<lparr>buckets = foldl (\<lambda>b s. b[s mod OBSERVED_WINDOW_SECS := 0]) (buckets o')
                          [last_sec o' + 1 ..< now_sec + 1],
              last_sec = now_sec\<rparr>)"

subsection \<open>The throttle\<close>

text \<open>The plain \<open>u64\<close> operations that absurd settings can overflow wrap in the release build.\<close>

definition wrap64 :: "nat \<Rightarrow> nat" where "wrap64 n = n mod 2 ^ 64"

record bucket =
  tokens_milli :: nat
  last_refill_nanos :: nat
  target_rpm :: nat
  last_md_nanos :: nat
  last_probe_nanos :: nat

record throttle =
  th_enabled :: bool
  th_auto :: bool
  rpm_min :: nat
  rpm_max :: nat
  burst_secs :: nat
  queue_max_wait_secs :: nat
  queue_timeout_passthrough :: bool
  th_bucket :: bucket
  queued_total :: nat
  md_total :: nat
  ai_total :: nat
  observed :: observed_rate
  admitted_total :: nat

definition throttle_new ::
  "bool \<Rightarrow> bool \<Rightarrow> nat \<Rightarrow> nat \<Rightarrow> nat \<Rightarrow> nat \<Rightarrow> nat \<Rightarrow> bool \<Rightarrow> throttle" where
  "throttle_new en au target mn mx burst wait passthrough =
     (let lo = max mn 1; hi = max (max mx 1) lo; tgt = clamp lo hi target in
      \<lparr>th_enabled = en, th_auto = au, rpm_min = lo, rpm_max = hi, burst_secs = max burst 1,
       queue_max_wait_secs = max wait 1, queue_timeout_passthrough = passthrough,
       th_bucket = \<lparr>
         tokens_milli = max (wrap64 (max ((tgt * BOOT_START_PCT div 100) * 1000 div 60) 1 * max burst 1))
                            ONE_TOKEN_MILLI,
         last_refill_nanos = 0, target_rpm = tgt, last_md_nanos = 0, last_probe_nanos = 0\<rparr>,
       queued_total = 0, md_total = 0, ai_total = 0, observed = observed_new, admitted_total = 0\<rparr>)"

definition capacity_milli :: "nat \<Rightarrow> throttle \<Rightarrow> nat" where
  "capacity_milli rpm th =
     max (wrap64 (max (rpm * 1000 div 60) 1 * burst_secs th)) ONE_TOKEN_MILLI"

definition boot_ramp_rpm :: "nat \<Rightarrow> nat \<Rightarrow> nat" where
  "boot_ramp_rpm now rpm =
     (let elapsed = now div 1000000000 in
      if elapsed \<ge> BOOT_SLOW_START_SECS then rpm
      else
        let pct = BOOT_START_PCT + (100 - BOOT_START_PCT) * elapsed div max BOOT_SLOW_START_SECS 1
        in max (rpm * pct div 100) 1)"

definition refill :: "nat \<Rightarrow> throttle \<Rightarrow> bucket" where
  "refill now th =
     (let b = th_bucket th;
          effective_rpm = boot_ramp_rpm now (target_rpm b);
          per_sec_milli = effective_rpm * 1000 div 60;
          cap = capacity_milli effective_rpm th;
          elapsed = now - last_refill_nanos b in
      if per_sec_milli > 0 then
        let add = sat_mul64 per_sec_milli elapsed div 1000000000 in
        if add > 0 then
          let tokens = min (wrap64 (tokens_milli b + add)) cap;
              consumed_nanos = sat_mul64 add 1000000000 div per_sec_milli;
              last = sat_add64 (last_refill_nanos b) consumed_nanos in
          b\<lparr>tokens_milli := tokens, last_refill_nanos := (if tokens \<ge> cap then now else last)\<rparr>
        else b
      else b\<lparr>last_refill_nanos := now\<rparr>)"

definition try_take :: "nat \<Rightarrow> throttle \<Rightarrow> bool \<times> throttle" where
  "try_take now th =
     (let b = refill now th in
      if tokens_milli b \<ge> ONE_TOKEN_MILLI
      then (True, th\<lparr>th_bucket := b\<lparr>tokens_milli := tokens_milli b - ONE_TOKEN_MILLI\<rparr>\<rparr>)
      else (False, th\<lparr>th_bucket := b\<rparr>))"

definition record_admitted :: "nat \<Rightarrow> throttle \<Rightarrow> throttle" where
  "record_admitted now th =
     (let now_sec = now div 1000000000;
          o' = observed_advance now_sec (observed th);
          idx = now_sec mod OBSERVED_WINDOW_SECS in
      th\<lparr>admitted_total := (admitted_total th + 1) mod 2 ^ 64,
         observed := o'\<lparr>buckets := (buckets o')[idx := sat_add32 (buckets o' ! idx) 1]\<rparr>\<rparr>)"

definition observed_inbound_rpm :: "nat \<Rightarrow> throttle \<Rightarrow> nat \<times> throttle" where
  "observed_inbound_rpm now th =
     (let o' = observed_advance (now div 1000000000) (observed th)
      in (sum_list (buckets o') mod 2 ^ 32, th\<lparr>observed := o'\<rparr>))"

definition aimd_counters :: "throttle \<Rightarrow> nat \<times> nat \<times> nat" where
  "aimd_counters th = (queued_total th, md_total th, ai_total th)"

definition report_upstream_429 :: "nat \<Rightarrow> throttle \<Rightarrow> throttle" where
  "report_upstream_429 now th =
     (if \<not> th_enabled th \<or> \<not> th_auto th then th
      else
        let floor = rpm_min th; debounce = secs MD_DEBOUNCE_SECS; b = th_bucket th in
        if last_md_nanos b \<noteq> 0 \<and> now - last_md_nanos b < debounce then th
        else
          let cur = target_rpm b;
              nxt = max (max (cur * MD_FACTOR_PCT div 100) floor) 1 in
          if nxt \<noteq> cur
          then th\<lparr>th_bucket := b\<lparr>target_rpm := nxt, last_md_nanos := now\<rparr>,
                  md_total := (md_total th + 1) mod 2 ^ 64\<rparr>
          else th)"

definition maybe_step_up :: "nat \<Rightarrow> throttle \<Rightarrow> throttle" where
  "maybe_step_up now th =
     (if \<not> th_enabled th \<or> \<not> th_auto th then th
      else
        let probe_gap = secs AIMD_PROBE_SECS; ceil = rpm_max th; b = th_bucket th;
            since_md = now - last_md_nanos b; since_probe = now - last_probe_nanos b in
        if since_md < probe_gap \<or> since_probe < probe_gap then th
        else
          let cur = target_rpm b; b1 = b\<lparr>last_probe_nanos := now\<rparr> in
          if cur \<ge> ceil then th\<lparr>th_bucket := b1\<rparr>
          else th\<lparr>th_bucket := b1\<lparr>target_rpm := min (sat_add32 cur DEFAULT_STEP_UP) ceil\<rparr>,
                  ai_total := (ai_total th + 1) mod 2 ^ 64\<rparr>)"

definition throttle_update ::
  "bool \<Rightarrow> bool \<Rightarrow> nat \<Rightarrow> nat \<Rightarrow> nat \<Rightarrow> nat \<Rightarrow> nat \<Rightarrow> bool \<Rightarrow> throttle \<Rightarrow> throttle" where
  "throttle_update en au target mn mx burst wait passthrough th =
     (let lo = max mn 1; hi = max (max mx 1) lo; b = th_bucket th in
      th\<lparr>th_enabled := en, th_auto := au, queue_timeout_passthrough := passthrough,
         rpm_min := lo, rpm_max := hi, burst_secs := max burst 1, queue_max_wait_secs := max wait 1,
         th_bucket := b\<lparr>target_rpm :=
           (if au then clamp lo hi (target_rpm b) else clamp lo hi target)\<rparr>\<rparr>)"

definition current_target_rpm :: "throttle \<Rightarrow> nat" where
  "current_target_rpm th = target_rpm (th_bucket th)"

subsection \<open>Acquiring\<close>

datatype acquire_step =
  Admitted
| Rejected nat                \<comment> \<open>retry after so many seconds\<close>
| Queued instant              \<comment> \<open>first wait, until this deadline at most\<close>
| WaitFor duration

definition acquire_begin :: "nat \<Rightarrow> throttle \<Rightarrow> acquire_step \<times> throttle" where
  "acquire_begin now th =
     (if \<not> th_enabled th then (Admitted, record_admitted now th)
      else
        let (ok, th1) = try_take now th in
        if ok then (Admitted, record_admitted now th1)
        else (Queued (now + secs (queue_max_wait_secs th1)),
              th1\<lparr>queued_total := (queued_total th1 + 1) mod 2 ^ 64\<rparr>))"

text \<open>The head of the loop: end at the deadline, or how long to wait for a token.\<close>

definition acquire_wait :: "nat \<Rightarrow> instant \<Rightarrow> throttle \<Rightarrow> acquire_step \<times> throttle" where
  "acquire_wait now deadline th =
     (let rpm = max (current_target_rpm th) 1; per_token = millis (max (60000 div rpm) 1) in
      if now \<ge> deadline then
        if queue_timeout_passthrough th then (Admitted, record_admitted now th)
        else (Rejected (max (queue_max_wait_secs th) 1), th)
      else (WaitFor (min per_token (deadline - now)), th))"

text \<open>After a wait, or a notification that cut it short.\<close>

definition acquire_wake :: "nat \<Rightarrow> throttle \<Rightarrow> acquire_step option \<times> throttle" where
  "acquire_wake now th =
     (let (ok, th1) = try_take now th in
      if ok then (Some Admitted, record_admitted now th1) else (None, th1))"

subsection \<open>The target stays between its bounds\<close>

definition throttle_inv :: "throttle \<Rightarrow> bool" where
  "throttle_inv th \<longleftrightarrow>
     1 \<le> rpm_min th \<and> rpm_min th \<le> target_rpm (th_bucket th) \<and>
     target_rpm (th_bucket th) \<le> rpm_max th \<and> rpm_max th \<le> u32_max \<and> 1 \<le> burst_secs th \<and> 1 \<le> queue_max_wait_secs th"

lemma refill_keeps [simp]:
  "target_rpm (refill now th) = target_rpm (th_bucket th)"
  "last_md_nanos (refill now th) = last_md_nanos (th_bucket th)"
  "last_probe_nanos (refill now th) = last_probe_nanos (th_bucket th)"
  by (simp_all add: refill_def Let_def)

lemma throttle_new_sel:
  "rpm_min (throttle_new en au target mn mx burst wait pt) = max mn 1"
  "rpm_max (throttle_new en au target mn mx burst wait pt) = max (max mx 1) (max mn 1)"
  "burst_secs (throttle_new en au target mn mx burst wait pt) = max burst 1"
  "queue_max_wait_secs (throttle_new en au target mn mx burst wait pt) = max wait 1"
  "observed (throttle_new en au target mn mx burst wait pt) = observed_new"
  "last_refill_nanos (th_bucket (throttle_new en au target mn mx burst wait pt)) = 0"
  "last_md_nanos (th_bucket (throttle_new en au target mn mx burst wait pt)) = 0"
  "last_probe_nanos (th_bucket (throttle_new en au target mn mx burst wait pt)) = 0"
  "target_rpm (th_bucket (throttle_new en au target mn mx burst wait pt)) =
     clamp (max mn 1) (max (max mx 1) (max mn 1)) target"
  "tokens_milli (th_bucket (throttle_new en au target mn mx burst wait pt)) =
     max (wrap64 (max ((clamp (max mn 1) (max (max mx 1) (max mn 1)) target * BOOT_START_PCT div 100) * 1000 div 60) 1
       * max burst 1)) ONE_TOKEN_MILLI"
  by (simp_all only: throttle_new_def Let_def throttle.simps bucket.simps)

lemma throttle_inv_new [kiro_intros]:
  "mn \<le> u32_max \<Longrightarrow> mx \<le> u32_max \<Longrightarrow> throttle_inv (throttle_new en au target mn mx burst wait pt)"
  using clamp_bounds [of "max mn 1" "max (max mx 1) (max mn 1)" target]
  by (simp add: throttle_inv_def throttle_new_sel u32_max_def)

lemma throttle_inv_update [kiro_intros]:
  "mn \<le> u32_max \<Longrightarrow> mx \<le> u32_max \<Longrightarrow> throttle_inv (throttle_update en au target mn mx burst wait pt th)"
  using clamp_bounds [of "max mn 1" "max (max mx 1) (max mn 1)"]
  by (auto simp: throttle_inv_def throttle_update_def Let_def u32_max_def)

lemma throttle_inv_try_take [kiro_intros]: "throttle_inv th \<Longrightarrow> throttle_inv (snd (try_take now th))"
  by (simp add: throttle_inv_def try_take_def Let_def)

lemma throttle_inv_record [kiro_intros]: "throttle_inv th \<Longrightarrow> throttle_inv (record_admitted now th)"
  by (simp add: throttle_inv_def record_admitted_def Let_def)

lemma throttle_inv_429 [kiro_intros]: "throttle_inv th \<Longrightarrow> throttle_inv (report_upstream_429 now th)"
  by (auto simp: throttle_inv_def report_upstream_429_def Let_def MD_FACTOR_PCT_def)

lemma throttle_inv_step_up [kiro_intros]: "throttle_inv th \<Longrightarrow> throttle_inv (maybe_step_up now th)"
  by (auto simp: throttle_inv_def maybe_step_up_def Let_def DEFAULT_STEP_UP_def sat_add32_def)

subsection \<open>How much is admitted\<close>

lemma boot_ramp_le: "1 \<le> rpm \<Longrightarrow> boot_ramp_rpm now rpm \<le> rpm"
proof -
  assume rpm: "1 \<le> rpm"
  have "rpm * pct div 100 \<le> rpm" if "pct \<le> 100" for pct
  proof -
    have "rpm * pct div 100 \<le> rpm * 100 div 100"
      using that by (intro div_le_mono mult_le_mono2)
    then show ?thesis by simp
  qed
  with rpm show ?thesis
    by (auto simp: boot_ramp_rpm_def Let_def BOOT_SLOW_START_SECS_def BOOT_START_PCT_def)
qed

text \<open>
  The potential of a bucket at a time: its tokens and what the time since the last refill is worth
  at the rate \<open>R\<close>, in \<open>10 ^ -9\<close> of a thousandth of a token.
\<close>

definition potential :: "nat \<Rightarrow> nat \<Rightarrow> bucket \<Rightarrow> nat" where
  "potential R now b = tokens_milli b * 1000000000 + R * (now - last_refill_nanos b)"

lemma sat_mul64_div_exact: "sat_mul64 (sat_mul64 p e div k) k = sat_mul64 p e div k * k"
proof -
  have "sat_mul64 p e div k * k \<le> sat_mul64 p e" by simp
  also have "\<dots> \<le> u64_max" by simp
  finally show ?thesis by (rule sat_mul64_exact)
qed

lemma refill_potential:
  assumes last: "last_refill_nanos (th_bucket th) \<le> now" and now: "now \<le> u64_max"
    and rpm: "1 \<le> target_rpm (th_bucket th)" "target_rpm (th_bucket th) \<le> rpm_max th"
  defines "R \<equiv> rpm_max th * 1000 div 60"
  shows "potential R now (refill now th) \<le> potential R now (th_bucket th) + R \<and>
    last_refill_nanos (refill now th) \<le> now"
proof -
  define b where "b = th_bucket th"
  define per where "per = boot_ramp_rpm now (target_rpm b) * 1000 div 60"
  define e where "e = now - last_refill_nanos b"
  define add where "add = sat_mul64 per e div 1000000000"
  define consumed where "consumed = add * 1000000000 div per"
  have per_R: "per \<le> R"
    using order_trans [OF boot_ramp_le [OF rpm(1), of now] rpm(2)]
    unfolding per_def R_def b_def by (intro div_le_mono mult_le_mono1)
  show ?thesis
  proof (cases "per > 0 \<and> add > 0")
    case False
    then show ?thesis
      using last by (auto simp: refill_def Let_def potential_def b_def per_def e_def add_def)
  next
    case True
    have mul: "sat_mul64 add 1000000000 = add * 1000000000"
      unfolding add_def by (rule sat_mul64_div_exact)
    have "add * 1000000000 \<le> sat_mul64 per e" unfolding add_def by simp
    also have "\<dots> \<le> per * e" by (rule sat_mul64_le)
    finally have "consumed \<le> per * e div per" unfolding consumed_def by (rule div_le_mono)
    then have ce: "consumed \<le> e" using True by simp
    have "add * 1000000000 < per * (consumed + 1)"
      using True dividend_less_times_div [of per "add * 1000000000"] by (simp add: consumed_def)
    also have "\<dots> \<le> R * (consumed + 1)" using per_R by (rule mult_le_mono1)
    finally have gain: "add * 1000000000 \<le> R * consumed + R" by simp
    have sat: "sat_add64 (last_refill_nanos b) consumed = last_refill_nanos b + consumed"
      using ce last now by (intro sat_add64_exact) (simp add: e_def b_def)
    let ?t = "min (wrap64 (tokens_milli b + add)) (capacity_milli (boot_ramp_rpm now (target_rpm b)) th)"
    have tokens: "?t \<le> tokens_milli b + add" by (simp add: wrap64_def min.coboundedI1)
    have "refill now th = b\<lparr>tokens_milli := ?t, last_refill_nanos :=
        (if ?t \<ge> capacity_milli (boot_ramp_rpm now (target_rpm b)) th then now
         else last_refill_nanos b + consumed)\<rparr>"
      using True unfolding refill_def Let_def
      by (simp add: b_def [symmetric] per_def [symmetric] e_def [symmetric] add_def [symmetric]
          mul consumed_def [symmetric] sat)
    moreover have "?t * 1000000000 + R * (e - consumed) \<le> tokens_milli b * 1000000000 + R * e + R"
    proof -
      have "?t * 1000000000 + R * (e - consumed) \<le>
          tokens_milli b * 1000000000 + (R * consumed + R) + R * (e - consumed)"
        using mult_le_mono1 [OF tokens, of 1000000000] gain by simp
      also have "\<dots> = tokens_milli b * 1000000000 + R * (consumed + (e - consumed)) + R"
        by (simp only: distrib_left ac_simps)
      finally show ?thesis using ce by simp
    qed
    ultimately show ?thesis
      using last ce by (auto simp: potential_def e_def b_def)
  qed
qed

text \<open>
  What happens to a throttle between two changes of its settings, at given times: a request arrives, a
  queued one comes to the head of its loop with its deadline or wakes up, the upstream answers 429, the
  step-up runs.
\<close>

datatype throttle_event = Arrive | Check instant | Wake | Upstream429 | StepUp

fun throttle_event_step :: "throttle_event \<Rightarrow> nat \<Rightarrow> throttle \<Rightarrow> acquire_step option \<times> throttle" where
  "throttle_event_step Arrive now th = (let (r, th1) = acquire_begin now th in (Some r, th1))"
| "throttle_event_step (Check deadline) now th = (let (r, th1) = acquire_wait now deadline th in (Some r, th1))"
| "throttle_event_step Wake now th = acquire_wake now th"
| "throttle_event_step Upstream429 now th = (None, report_upstream_429 now th)"
| "throttle_event_step StepUp now th = (None, maybe_step_up now th)"

text \<open>The number of requests admitted, by a token or without.\<close>

fun throttle_run :: "(nat \<times> throttle_event) list \<Rightarrow> throttle \<Rightarrow> nat \<times> throttle" where
  "throttle_run [] th = (0, th)"
| "throttle_run ((t, ev) # evs) th =
     (let (r, th1) = throttle_event_step ev t th; (n, th2) = throttle_run evs th1
      in ((if r = Some Admitted then 1 else 0) + n, th2))"

text \<open>
  The admissions that cost no token: all while the throttle is switched off, else those of queued
  requests whose deadline has passed if these are let through.
\<close>

fun needs_no_token :: "throttle \<Rightarrow> nat \<times> throttle_event \<Rightarrow> bool" where
  "needs_no_token th (t, Arrive) = (\<not> th_enabled th)"
| "needs_no_token th (t, Check deadline) = (queue_timeout_passthrough th \<and> deadline \<le> t)"
| "needs_no_token th (t, _) = False"

definition admitted_without_token :: "throttle \<Rightarrow> (nat \<times> throttle_event) list \<Rightarrow> nat" where
  "admitted_without_token th evs = length (filter (needs_no_token th) evs)"

fun times_ascend :: "nat \<Rightarrow> (nat \<times> 'e) list \<Rightarrow> bool" where
  "times_ascend t [] = True"
| "times_ascend t ((u, _) # evs) = (t \<le> u \<and> u \<le> u64_max \<and> times_ascend u evs)"

fun end_time :: "nat \<Rightarrow> (nat \<times> 'e) list \<Rightarrow> nat" where
  "end_time t [] = t"
| "end_time _ ((u, _) # evs) = end_time u evs"

lemma end_time_ge: "times_ascend t evs \<Longrightarrow> t \<le> end_time t evs"
  by (induction t evs rule: end_time.induct) auto

lemma take_potential:
  assumes inv: "throttle_inv th" and last: "last_refill_nanos (th_bucket th) \<le> now" "now \<le> u64_max"
    and take: "try_take now th = (ok, th')"
  defines "R \<equiv> rpm_max th * 1000 div 60"
  shows "throttle_inv th' \<and> rpm_max th' = rpm_max th \<and> th_enabled th' = th_enabled th \<and>
    queue_timeout_passthrough th' = queue_timeout_passthrough th \<and> last_refill_nanos (th_bucket th') \<le> now \<and>
    (if ok then ONE_TOKEN_MILLI * 1000000000 else 0) + potential R now (th_bucket th') \<le>
      potential R now (th_bucket th) + R"
proof -
  have r: "potential R now (refill now th) \<le> potential R now (th_bucket th) + R"
      "last_refill_nanos (refill now th) \<le> now"
    using refill_potential [OF last] inv by (simp_all add: throttle_inv_def R_def)
  show ?thesis
    using take r throttle_inv_try_take [OF inv, of now]
    by (auto simp: try_take_def Let_def potential_def ONE_TOKEN_MILLI_def diff_mult_distrib split: if_splits)
qed

lemma record_admitted_keeps [simp]:
  "rpm_max (record_admitted now th) = rpm_max th" "th_enabled (record_admitted now th) = th_enabled th"
  "queue_timeout_passthrough (record_admitted now th) = queue_timeout_passthrough th"
  "th_bucket (record_admitted now th) = th_bucket th"
  by (simp_all add: record_admitted_def Let_def)

lemma aimd_keeps [simp]:
  "rpm_max (report_upstream_429 now th) = rpm_max th" "rpm_max (maybe_step_up now th) = rpm_max th"
  "th_enabled (report_upstream_429 now th) = th_enabled th" "th_enabled (maybe_step_up now th) = th_enabled th"
  "queue_timeout_passthrough (report_upstream_429 now th) = queue_timeout_passthrough th"
  "queue_timeout_passthrough (maybe_step_up now th) = queue_timeout_passthrough th"
  "tokens_milli (th_bucket (report_upstream_429 now th)) = tokens_milli (th_bucket th)"
  "tokens_milli (th_bucket (maybe_step_up now th)) = tokens_milli (th_bucket th)"
  "last_refill_nanos (th_bucket (report_upstream_429 now th)) = last_refill_nanos (th_bucket th)"
  "last_refill_nanos (th_bucket (maybe_step_up now th)) = last_refill_nanos (th_bucket th)"
  by (simp_all add: report_upstream_429_def maybe_step_up_def Let_def)

lemma event_step_potential:
  assumes inv: "throttle_inv th" and last: "last_refill_nanos (th_bucket th) \<le> now" "now \<le> u64_max"
    and step: "throttle_event_step ev now th = (r, th')"
  defines "R \<equiv> rpm_max th * 1000 div 60"
  shows "throttle_inv th' \<and> rpm_max th' = rpm_max th \<and> th_enabled th' = th_enabled th \<and>
    queue_timeout_passthrough th' = queue_timeout_passthrough th \<and> last_refill_nanos (th_bucket th') \<le> now \<and>
    (if r = Some Admitted \<and> \<not> needs_no_token th (now, ev) then ONE_TOKEN_MILLI * 1000000000 else 0) +
      potential R now (th_bucket th') \<le> potential R now (th_bucket th) + R"
proof -
  obtain ok th1 where t: "try_take now th = (ok, th1)" by force
  note take = take_potential [OF inv last t]
  show ?thesis
  proof (cases ev)
    case Arrive
    show ?thesis
    proof (cases "th_enabled th \<and> \<not> ok")
      case True
      then have r: "r = Some (Queued (now + secs (queue_max_wait_secs th1)))"
          "th' = th1\<lparr>queued_total := (queued_total th1 + 1) mod 2 ^ 64\<rparr>"
        using step Arrive by (simp_all add: acquire_begin_def t)
      show ?thesis using take True unfolding R_def by (simp add: r throttle_inv_def)
    next
      case False
      then have r: "r = Some Admitted" "th' = record_admitted now (if th_enabled th then th1 else th)"
        using step Arrive by (cases "th_enabled th"; cases ok; simp add: acquire_begin_def t)+
      show ?thesis
        using take False inv last(1) throttle_inv_record Arrive unfolding R_def r
        by (cases "th_enabled th") simp_all
    qed
  next
    case (Check deadline)
    then have "th' = th \<or> th' = record_admitted now th" "r = Some Admitted \<Longrightarrow> needs_no_token th (now, ev)"
      using step by (auto simp: acquire_wait_def Let_def split: if_splits)
    then show ?thesis using inv last(1) throttle_inv_record [OF inv, of now] by auto
  next
    case Wake
    then have r: "r = (if ok then Some Admitted else None)" "th' = (if ok then record_admitted now th1 else th1)"
      using step by (auto simp: acquire_wake_def t split: if_splits)
    show ?thesis using take throttle_inv_record [of th1 now] unfolding R_def r by (cases ok) (simp_all add: Wake)
  next
    case Upstream429
    then show ?thesis
      using step last throttle_inv_429 [OF inv, of now] by (auto simp: potential_def)
  next
    case StepUp
    then show ?thesis
      using step last throttle_inv_step_up [OF inv, of now] by (auto simp: potential_def)
  qed
qed

lemma needs_no_token_cong:
  "th_enabled th' = th_enabled th \<Longrightarrow> queue_timeout_passthrough th' = queue_timeout_passthrough th \<Longrightarrow>
     needs_no_token th' = needs_no_token th"
proof
  fix x assume "th_enabled th' = th_enabled th" "queue_timeout_passthrough th' = queue_timeout_passthrough th"
  then show "needs_no_token th' x = needs_no_token th x" by (cases x; cases "snd x") auto
qed

lemma run_bound_arith:
  fixes n :: nat
  assumes "n \<le> f + p' + e + l" "a \<le> b + c" "c + p' \<le> (p + d) + r"
  shows "a + n \<le> b + f + p + (d + e) + (r + l)"
  using assms by simp

lemma throttle_run_potential:
  assumes "throttle_inv th" "last_refill_nanos (th_bucket th) \<le> t" "times_ascend t evs"
  defines "R \<equiv> rpm_max th * 1000 div 60"
  shows "fst (throttle_run evs th) * (ONE_TOKEN_MILLI * 1000000000) \<le>
    admitted_without_token th evs * (ONE_TOKEN_MILLI * 1000000000) +
    potential R t (th_bucket th) + R * (end_time t evs - t) + R * length evs"
  using assms(1-3) unfolding R_def
proof (induction evs arbitrary: t th)
  case (Cons e evs)
  obtain u ev where e: "e = (u, ev)" by force
  let ?R = "rpm_max th * 1000 div 60"
  obtain r th' where step: "throttle_event_step ev u th = (r, th')" by force
  have t: "t \<le> u" "u \<le> u64_max" "times_ascend u evs" using Cons.prems by (simp_all add: e)
  note ev = event_step_potential [OF Cons.prems(1) order_trans [OF Cons.prems(2) t(1)] t(2) step]
  have s: "throttle_inv th'" "rpm_max th' = rpm_max th" "last_refill_nanos (th_bucket th') \<le> u"
      "th_enabled th' = th_enabled th" "queue_timeout_passthrough th' = queue_timeout_passthrough th"
      "(if r = Some Admitted \<and> \<not> needs_no_token th (u, ev) then ONE_TOKEN_MILLI * 1000000000 else 0) +
         potential ?R u (th_bucket th') \<le> potential ?R u (th_bucket th) + ?R"
    using ev by blast+
  have same: "needs_no_token th' = needs_no_token th" by (rule needs_no_token_cong [OF s(4,5)])
  have pot: "potential ?R u (th_bucket th) = potential ?R t (th_bucket th) + ?R * (u - t)"
    using Cons.prems(2) t(1) by (simp add: potential_def diff_mult_distrib2 [symmetric] flip: distrib_left)
  have time: "?R * (u - t) + ?R * (end_time u evs - u) = ?R * (end_time u evs - t)"
    using end_time_ge [OF t(3)] t(1) by (simp flip: distrib_left)
  have one: "(if r = Some Admitted then 1 else 0) * (ONE_TOKEN_MILLI * 1000000000) \<le>
      (if needs_no_token th (u, ev) then 1 else 0) * (ONE_TOKEN_MILLI * 1000000000) +
      (if r = Some Admitted \<and> \<not> needs_no_token th (u, ev) then ONE_TOKEN_MILLI * 1000000000 else 0)"
    by simp
  have free: "admitted_without_token th (e # evs) =
      (if needs_no_token th (u, ev) then 1 else 0) + admitted_without_token th' evs"
    by (simp add: admitted_without_token_def e same)
  have run: "fst (throttle_run (e # evs) th) =
      (if r = Some Admitted then 1 else 0) + fst (throttle_run evs th')"
    by (simp add: e step split_beta)
  have ih: "fst (throttle_run evs th') * (ONE_TOKEN_MILLI * 1000000000) \<le>
      admitted_without_token th' evs * (ONE_TOKEN_MILLI * 1000000000) +
      potential ?R u (th_bucket th') + ?R * (end_time u evs - u) + ?R * length evs"
    using Cons.IH [OF s(1,3) t(3)] s(2) by simp
  have lens: "?R * length (e # evs) = ?R + ?R * length evs" by simp
  have ends: "end_time t (e # evs) = end_time u evs" by (simp add: e)
  show ?case
    unfolding run free lens ends add_mult_distrib time [symmetric]
    using ih one s(6) unfolding pot by (rule run_bound_arith)
qed (simp add: admitted_without_token_def)

text \<open>
  C22. The throttle admits no more than its settings promise. From any state in which the settings are in
  order, and as long as they are not changed, over any sequence of arriving requests, checks and wake-ups
  of queued ones, upstream 429s and step-ups at times that do not go back, the number of requests
  admitted is at most: the tokens in the bucket, what the maximal rate yields over the time that passed
  since the last refill, for the rounding of the refills one nanosecond's worth of that rate per event,
  and the requests that need no token, which are all if the throttle is switched off and, by default,
  the queued ones that reach their deadline. (One token is \<open>10 ^ 12\<close> units of \<open>10 ^ -9\<close> of a thousandth.)
  The boot ramp and the halving of the rate never push above this.
\<close>
theorem throttle_rate_bound:
  assumes "throttle_inv th" and "last_refill_nanos (th_bucket th) \<le> t" and "times_ascend t evs"
  shows "fst (throttle_run evs th) * 1000000000000 \<le>
    admitted_without_token th evs * 1000000000000 +
    tokens_milli (th_bucket th) * 1000000000 +
    (rpm_max th * 1000 div 60) *
      (end_time t evs - last_refill_nanos (th_bucket th) + length evs)"
proof -
  let ?R = "rpm_max th * 1000 div 60" and ?l = "last_refill_nanos (th_bucket th)"
  have "fst (throttle_run evs th) * 1000000000000 \<le> admitted_without_token th evs * 1000000000000 +
      (potential ?R t (th_bucket th) + ?R * (end_time t evs - t) + ?R * length evs)"
    using throttle_run_potential [OF assms] by (simp add: ONE_TOKEN_MILLI_def)
  also have "potential ?R t (th_bucket th) + ?R * (end_time t evs - t) + ?R * length evs =
      tokens_milli (th_bucket th) * 1000000000 +
      (?R * ((t - ?l) + (end_time t evs - t)) + ?R * length evs)"
    by (simp only: potential_def distrib_left distrib_right ac_simps)
  also have "(t - ?l) + (end_time t evs - t) = end_time t evs - ?l"
    using assms(2) end_time_ge [OF assms(3)] by simp
  finally show ?thesis by (simp only: distrib_left add.assoc)
qed

lemma throttle_rate_bound_witness:
  "fst (throttle_run [(0, Arrive), (1, Arrive), (secs 1, Upstream429), (secs 31, Check (secs 30)), (secs 70, Arrive)]
      (throttle_new True True 100 20 300 2 30 True)) * 1000000000000 \<le>
    1000000000000 + 832 * 1000000000 + 5000 * (secs 70 + 5) + 168 * 1000000000"
proof -
  let ?th = "throttle_new True True 100 20 300 2 30 True"
  have th: "tokens_milli (th_bucket ?th) = 1000" "rpm_max ?th = 300"
      "last_refill_nanos (th_bucket ?th) = 0" "th_enabled ?th"
    by (simp_all add: throttle_new_sel clamp_def BOOT_START_PCT_def wrap64_def ONE_TOKEN_MILLI_def)
      (simp add: throttle_new_def Let_def)
  have f: "admitted_without_token ?th
      [(0, Arrive), (1, Arrive), (secs 1, Upstream429), (secs 31, Check (secs 30)), (secs 70, Arrive)] \<le> 1"
    using th(4) by (simp add: admitted_without_token_def)
  show ?thesis
    using throttle_rate_bound [of ?th 0
        "[(0, Arrive), (1, Arrive), (secs 1, Upstream429), (secs 31, Check (secs 30)), (secs 70, Arrive)]"] f
    by (simp add: th throttle_inv_new u32_max_def u64_max_def secs_def)
qed

subsection \<open>Queued requests end\<close>

text \<open>Before the deadline every wait is positive and does not reach past it, and the loop ends there.\<close>

lemma acquire_wait_cases:
  "now < deadline \<Longrightarrow> \<exists>d. acquire_wait now deadline th = (WaitFor d, th) \<and> 0 < d \<and> now + d \<le> deadline"
  "deadline \<le> now \<Longrightarrow> \<exists>r. fst (acquire_wait now deadline th) = Admitted \<or>
     fst (acquire_wait now deadline th) = Rejected r \<and> 1 \<le> r"
  by (auto simp: acquire_wait_def Let_def millis_def intro: exI [of _ "max (queue_max_wait_secs th) 1"])

subsection \<open>The observed rate is exact\<close>

definition ring_counts :: "nat list \<Rightarrow> observed_rate \<Rightarrow> bool" where
  "ring_counts log o' \<longleftrightarrow> length (buckets o') = 60 \<and> (\<forall>s \<in> set log. s \<le> last_sec o') \<and>
     (\<forall>k < 60. buckets o' ! k = length (filter (\<lambda>s. s mod 60 = k \<and> last_sec o' < s + 60) log))"

lemma zero_seconds:
  "length b = 60 \<Longrightarrow> k < 60 \<Longrightarrow>
     foldl (\<lambda>b s. b[s mod 60 := 0]) b xs ! k = (if k \<in> (\<lambda>s. s mod 60) ` set xs then 0 else b ! k)"
  by (induction xs arbitrary: b) (auto simp: nth_list_update)

lemma length_zero_seconds: "length (foldl (\<lambda>b s. b[s mod 60 := (0 :: nat)]) b xs) = length b"
  by (induction xs arbitrary: b) simp_all

lemma ring_counts_new: "ring_counts [] observed_new"
  by (simp add: ring_counts_def observed_new_def OBSERVED_WINDOW_SECS_def)

lemma passed_second:
  fixes s l now k :: nat
  assumes "s \<le> l" "l < s + 60" "s mod 60 = k" "k \<notin> (\<lambda>s. s mod 60) ` {l + 1 ..< now + 1}"
  shows "now < s + 60"
proof (rule ccontr)
  assume "\<not> now < s + 60"
  then have "s + 60 \<in> {l + 1 ..< now + 1}" using assms by auto
  moreover have "(s + 60) mod 60 = k" using assms by simp
  ultimately show False using assms(4) by blast
qed

lemma cleared_second:
  fixes s l now k :: nat
  assumes "s \<le> l" "s mod 60 = k" "k \<in> (\<lambda>s. s mod 60) ` {l + 1 ..< now + 1}"
  shows "\<not> now < s + 60"
proof -
  from assms(3) obtain u where "u \<in> {l + 1 ..< now + 1}" "k = u mod 60" by blast
  with assms(2) have u: "l < u" "u \<le> now" "u mod 60 = s mod 60" by simp_all
  then have "s < u" using assms(1) by simp
  then have "s + 60 \<le> u" using u(3)
    by (metis add.commute add_le_mono1 le_add_diff_inverse2 less_imp_le mod_eq_dvd_iff_nat nat_dvd_not_less
        not_le zero_less_diff)
  then show ?thesis using u(2) by simp
qed

lemma ring_counts_advance:
  assumes ring: "ring_counts log o'" and now: "last_sec o' \<le> now"
  shows "ring_counts log (observed_advance now o')"
proof -
  let ?l = "last_sec o'"
  have b: "length (buckets o') = 60" "\<forall>s \<in> set log. s \<le> ?l"
      "\<forall>k < 60. buckets o' ! k = length (filter (\<lambda>s. s mod 60 = k \<and> ?l < s + 60) log)"
    using ring by (simp_all add: ring_counts_def)
  consider "now = ?l" | "now \<noteq> ?l" "now - ?l \<ge> 60" | "now \<noteq> ?l" "now - ?l < 60" by linarith
  then show ?thesis
  proof cases
    case 2
    then have "\<forall>s \<in> set log. \<not> now < s + 60" using b(2) by fastforce
    then show ?thesis
      using 2 b(2) by (auto simp: ring_counts_def observed_advance_def OBSERVED_WINDOW_SECS_def
          Let_def filter_empty_conv)
  next
    case 3
    define xs where "xs = [?l + 1 ..< now + 1]"
    have set_xs: "set xs = {?l + 1 ..< now + 1}" unfolding xs_def by (rule set_upt)
    have "length (filter (\<lambda>s. s mod 60 = k \<and> ?l < s + 60) log) =
        length (filter (\<lambda>s. s mod 60 = k \<and> now < s + 60) log)"
      if "k \<notin> (\<lambda>s. s mod 60) ` set xs" for k
      using b(2) now that passed_second unfolding set_xs
      by (intro arg_cong [of _ _ length] filter_cong) fastforce+
    moreover have "filter (\<lambda>s. s mod 60 = k \<and> now < s + 60) log = []"
      if "k \<in> (\<lambda>s. s mod 60) ` set xs" for k
      using b(2) that cleared_second unfolding set_xs by (fastforce simp: filter_empty_conv)
    moreover have "observed_advance now o' =
        \<lparr>buckets = foldl (\<lambda>b s. b[s mod 60 := 0]) (buckets o') xs, last_sec = now\<rparr>"
      using 3 by (simp add: observed_advance_def OBSERVED_WINDOW_SECS_def xs_def)
    moreover have "\<forall>s \<in> set log. s \<le> now" using b(2) now by fastforce
    ultimately show ?thesis
      using b by (simp add: ring_counts_def zero_seconds length_zero_seconds)
  qed (use ring in \<open>simp add: observed_advance_def\<close>)
qed

lemma ring_counts_record:
  assumes "ring_counts log (observed th)" "last_sec (observed th) \<le> now div 1000000000"
    and "length log < u32_max"
  shows "ring_counts (now div 1000000000 # log) (observed (record_admitted now th)) \<and>
    last_sec (observed (record_admitted now th)) = now div 1000000000"
proof -
  define n where "n = now div 1000000000"
  define o' where "o' = observed_advance n (observed th)"
  have r: "ring_counts log o'" unfolding o'_def
    by (rule ring_counts_advance) (use assms in \<open>simp_all add: n_def\<close>)
  have l: "last_sec o' = n"
    by (simp add: o'_def observed_advance_def Let_def)
  have "length (filter P log) < u32_max" for P
    using assms(3) length_filter_le [of P log] by (rule le_less_trans [rotated])
  then have "sat_add32 (length (filter P log)) 1 = Suc (length (filter P log))" for P
    by (simp add: sat_add32_def Suc_le_eq)
  moreover have "observed (record_admitted now th) =
      o'\<lparr>buckets := (buckets o')[n mod 60 := sat_add32 (buckets o' ! (n mod 60)) 1]\<rparr>"
    by (simp add: record_admitted_def Let_def OBSERVED_WINDOW_SECS_def n_def o'_def)
  ultimately show ?thesis
    using r l unfolding n_def [symmetric]
    by (auto simp: ring_counts_def nth_list_update)
qed

lemma sum_filter_mod:
  "(\<Sum>k<60. length (filter (\<lambda>s. s mod 60 = k \<and> P s) log)) = length (filter P (log :: nat list))"
proof (induction log)
  case (Cons a log)
  have "(\<Sum>k<60. length (filter (\<lambda>s. s mod 60 = k \<and> P s) (a # log))) =
      (\<Sum>k<60. (if k = a mod 60 \<and> P a then 1 else 0) +
        length (filter (\<lambda>s. s mod 60 = k \<and> P s) log))"
    by (rule sum.cong) auto
  also have "\<dots> = (if P a then 1 else 0) + length (filter P log)"
    by (simp add: sum.distrib Cons.IH sum.delta')
  finally show ?case by simp
qed simp

lemma ring_counts_sum:
  "ring_counts log o' \<Longrightarrow> sum_list (buckets o') = length (filter (\<lambda>s. last_sec o' < s + 60) log)"
  using sum_filter_mod [of "\<lambda>s. last_sec o' < s + 60" log]
  by (simp add: ring_counts_def sum_list_sum_nth lessThan_atLeast0 cong: sum.cong_simp)

text \<open>Admissions (\<open>True\<close>) and queries of the rate (\<open>False\<close>) at given times.\<close>

fun observe_run :: "(nat \<times> bool) list \<Rightarrow> throttle \<Rightarrow> throttle" where
  "observe_run [] th = th"
| "observe_run ((t, adm) # xs) th =
     observe_run xs (if adm then record_admitted t th else snd (observed_inbound_rpm t th))"

definition admissions :: "(nat \<times> bool) list \<Rightarrow> nat list" where
  "admissions xs = map (\<lambda>(t, _). t div 1000000000) (filter snd xs)"

lemma observe_run_ring:
  "ring_counts log (observed th) \<Longrightarrow> last_sec (observed th) \<le> t div 1000000000 \<Longrightarrow>
     times_ascend t xs \<Longrightarrow> length log + length xs < u32_max \<Longrightarrow>
     ring_counts (rev (admissions xs) @ log) (observed (observe_run xs th)) \<and>
     last_sec (observed (observe_run xs th)) \<le> end_time t xs div 1000000000"
proof (induction xs arbitrary: log th t)
  case (Cons x xs)
  obtain u adm where x: "x = (u, adm)" by force
  have u: "t \<le> u" "times_ascend u xs" using Cons.prems by (simp_all add: x)
  have le: "last_sec (observed th) \<le> u div 1000000000"
    using Cons.prems(2) div_le_mono [OF u(1), of 1000000000] by simp
  show ?case
  proof (cases adm)
    case True
    then show ?thesis
      using Cons.IH [of "u div 1000000000 # log" "record_admitted u th" u]
        ring_counts_record [OF Cons.prems(1) le] Cons.prems(4) u
      by (simp add: x admissions_def)
  next
    case False
    have "ring_counts log (observed (snd (observed_inbound_rpm u th)))"
        "last_sec (observed (snd (observed_inbound_rpm u th))) = u div 1000000000"
      using ring_counts_advance [OF Cons.prems(1) le]
      by (simp_all add: observed_inbound_rpm_def Let_def) (simp add: observed_advance_def Let_def)
    then show ?thesis
      using Cons.IH [of log "snd (observed_inbound_rpm u th)" u] Cons.prems(4) u False
      by (simp add: x admissions_def)
  qed
qed (simp add: admissions_def)

text \<open>
  The observed inbound rate is exact: after any sequence of admissions and queries at times
  that do not go back (fewer than \<open>2 ^ 32 - 1\<close> of them), the rate read is the number of requests
  admitted in the current second and the 59 before it, although the ring is cleared only when it is
  touched.
\<close>
theorem observed_rate_exact:
  assumes "times_ascend 0 xs" and "length xs < u32_max" and "end_time 0 xs \<le> now"
  shows "fst (observed_inbound_rpm now
      (observe_run xs (throttle_new en au target mn mx burst wait passthrough))) =
    length (filter (\<lambda>s. now div 1000000000 < s + 60) (admissions xs))"
proof -
  let ?th = "throttle_new en au target mn mx burst wait passthrough"
  let ?o = "observed (observe_run xs ?th)" and ?n = "now div 1000000000"
  have run: "ring_counts (rev (admissions xs)) ?o \<and> last_sec ?o \<le> end_time 0 xs div 1000000000"
    using observe_run_ring [of "[]" ?th 0 xs] assms(1,2) ring_counts_new
    by (simp add: throttle_new_sel observed_new_def)
  then have "ring_counts (rev (admissions xs)) (observed_advance ?n ?o)"
    using div_le_mono [OF assms(3), of 1000000000] by (intro ring_counts_advance) simp_all
  then have "sum_list (buckets (observed_advance ?n ?o)) =
      length (filter (\<lambda>s. ?n < s + 60) (admissions xs))"
    by (simp add: ring_counts_sum observed_advance_def Let_def rev_filter [symmetric])
  moreover have "length (filter P (admissions xs)) < 2 ^ 32" for P
  proof -
    have "length (filter P (admissions xs)) \<le> length (admissions xs)" by (rule length_filter_le)
    also have "\<dots> \<le> length xs" by (simp add: admissions_def)
    also have "\<dots> < 2 ^ 32" using assms(2) by (simp add: u32_max_def)
    finally show ?thesis .
  qed
  ultimately show ?thesis by (simp add: observed_inbound_rpm_def Let_def)
qed

lemma observed_rate_exact_witness:
  "fst (observed_inbound_rpm (secs 62) (observe_run
     [(0, True), (secs 3, True), (secs 3, True), (secs 50, False), (secs 61, True)]
     (throttle_new False True 100 20 300 2 30 False))) = 3"
  by (subst observed_rate_exact) (simp_all add: u32_max_def u64_max_def admissions_def secs_def)

end
