(* ===== verification/Cooldown.thy ===== *)
theory Cooldown
  imports Prelude
begin

text \<open>
  The cooldowns of credentials: \<open>src/src/kiro/cooldown.rs\<close>. A credential that failed is left alone
  for a time that depends on the reason and on how often the same reason struck; the table is
  written to disk so that a restart keeps it.

  A \<open>SystemTime\<close> is the number of nanoseconds since the Unix epoch. The escalation
  \<open>(base as f64 * 1.6_f64.powi(n)) as u64\<close> is a parameter: Rust leaves the precision of \<open>powi\<close>
  unspecified; \<open>esc16 base n\<close> and \<open>esc13 base n\<close> stand for it, and \<open>escalates\<close> states what any
  rounding of these powers satisfies. JSON and the file system are left to the snapshot that is
  written and read back. The steps of a save and of the calls beside it are a transition system,
  since the flags they share are separate atomics.
\<close>

subsection \<open>Reasons and durations\<close>

datatype cooldown_reason =
  RateLimitExceeded | SuspiciousActivity | AccountSuspended | QuotaExhausted | TokenRefreshFailed
| AuthenticationFailed | AuthTransient | ServerError | ModelUnavailable

definition RATE_LIMIT_FLOOR_SECS :: nat where "RATE_LIMIT_FLOOR_SECS = 8"
definition SUSPICIOUS_FLOOR_SECS :: nat where "SUSPICIOUS_FLOOR_SECS = 12"
definition RATE_LIMIT_COOLDOWN_SECS :: nat where "RATE_LIMIT_COOLDOWN_SECS = 15"
definition SUSPICIOUS_COOLDOWN_SECS :: nat where "SUSPICIOUS_COOLDOWN_SECS = 20"
definition TOKEN_REFRESH_COOLDOWN_SECS :: nat where "TOKEN_REFRESH_COOLDOWN_SECS = 60"
definition AUTH_TRANSIENT_COOLDOWN_SECS :: nat where "AUTH_TRANSIENT_COOLDOWN_SECS = 20"
definition SERVER_ERROR_COOLDOWN_SECS :: nat where "SERVER_ERROR_COOLDOWN_SECS = 30"
definition MODEL_UNAVAILABLE_COOLDOWN_SECS :: nat where "MODEL_UNAVAILABLE_COOLDOWN_SECS = 300"
definition LONG_COOLDOWN_SECS :: nat where "LONG_COOLDOWN_SECS = 86400"
definition MAX_SHORT_COOLDOWN_SECS :: nat where "MAX_SHORT_COOLDOWN_SECS = 90"
definition SUSPICIOUS_MAX_SECS :: nat where "SUSPICIOUS_MAX_SECS = 1800"
definition DECAY_WINDOW_SECS :: nat where "DECAY_WINDOW_SECS = 60"
definition SAVE_DEBOUNCE :: duration where "SAVE_DEBOUNCE = secs 30"
definition LOG_THROTTLE :: duration where "LOG_THROTTLE = secs 10"

definition default_duration :: "cooldown_reason \<Rightarrow> duration" where
  "default_duration r =
     (case r of
        RateLimitExceeded \<Rightarrow> secs RATE_LIMIT_COOLDOWN_SECS
      | SuspiciousActivity \<Rightarrow> secs SUSPICIOUS_COOLDOWN_SECS
      | TokenRefreshFailed \<Rightarrow> secs TOKEN_REFRESH_COOLDOWN_SECS
      | AuthTransient \<Rightarrow> secs AUTH_TRANSIENT_COOLDOWN_SECS
      | ServerError \<Rightarrow> secs SERVER_ERROR_COOLDOWN_SECS
      | ModelUnavailable \<Rightarrow> secs MODEL_UNAVAILABLE_COOLDOWN_SECS
      | AuthenticationFailed \<Rightarrow> secs LONG_COOLDOWN_SECS
      | AccountSuspended \<Rightarrow> secs LONG_COOLDOWN_SECS
      | QuotaExhausted \<Rightarrow> secs LONG_COOLDOWN_SECS)"

definition is_auto_recoverable :: "cooldown_reason \<Rightarrow> bool" where
  "is_auto_recoverable r =
     (case r of
        RateLimitExceeded \<Rightarrow> True
      | SuspiciousActivity \<Rightarrow> True
      | TokenRefreshFailed \<Rightarrow> True
      | ServerError \<Rightarrow> True
      | ModelUnavailable \<Rightarrow> True
      | AuthTransient \<Rightarrow> True
      | AuthenticationFailed \<Rightarrow> False
      | AccountSuspended \<Rightarrow> False
      | QuotaExhausted \<Rightarrow> False)"

definition reason_code :: "cooldown_reason \<Rightarrow> string" where
  "reason_code r =
     (case r of
        RateLimitExceeded \<Rightarrow> ''rate_limited''
      | SuspiciousActivity \<Rightarrow> ''suspicious''
      | AccountSuspended \<Rightarrow> ''account_suspended''
      | QuotaExhausted \<Rightarrow> ''quota_exhausted''
      | TokenRefreshFailed \<Rightarrow> ''token_refresh_failed''
      | AuthenticationFailed \<Rightarrow> ''authentication_failed''
      | AuthTransient \<Rightarrow> ''auth_transient''
      | ServerError \<Rightarrow> ''server_error''
      | ModelUnavailable \<Rightarrow> ''model_unavailable'')"

subsection \<open>The table\<close>

record cooldown_entry =
  reason :: cooldown_reason
  started_at :: instant
  expires_at :: instant
  trigger_count :: nat

record cooldown_manager =
  entries :: "nat \<rightharpoonup> cooldown_entry"
  max_short_cooldown_secs :: nat
  long_cooldown_secs :: nat
  cooldown_scale_pct :: nat
  last_log_at :: "nat \<rightharpoonup> instant"

definition cooldown_new :: cooldown_manager where
  "cooldown_new = \<lparr>entries = Map.empty, max_short_cooldown_secs = MAX_SHORT_COOLDOWN_SECS,
     long_cooldown_secs = LONG_COOLDOWN_SECS, cooldown_scale_pct = 100, last_log_at = Map.empty\<rparr>"

definition cooldown_with_config :: "nat \<Rightarrow> nat \<Rightarrow> cooldown_manager" where
  "cooldown_with_config short long = cooldown_new\<lparr>max_short_cooldown_secs := short,
     long_cooldown_secs := long\<rparr>"

definition set_cooldown_scale_pct :: "nat \<Rightarrow> cooldown_manager \<Rightarrow> cooldown_manager" where
  "set_cooldown_scale_pct pct m = m\<lparr>cooldown_scale_pct := clamp 10 500 pct\<rparr>"

definition scale_floor :: "cooldown_reason \<Rightarrow> duration option" where
  "scale_floor r =
     (case r of
        RateLimitExceeded \<Rightarrow> Some (secs RATE_LIMIT_FLOOR_SECS)
      | SuspiciousActivity \<Rightarrow> Some (secs SUSPICIOUS_FLOOR_SECS)
      | _ \<Rightarrow> None)"

definition scaled_duration :: "cooldown_manager \<Rightarrow> cooldown_reason \<Rightarrow> duration \<Rightarrow> duration" where
  "scaled_duration m r base =
     (if \<not> is_auto_recoverable r then base
      else
        let pct = cooldown_scale_pct m;
            scaled = (if pct = 100 then base
                      else millis (sat_mul64 (as_millis base mod 2 ^ 64) pct div 100)) in
        (case scale_floor r of
           Some floor \<Rightarrow> max scaled (min floor base)
         | None \<Rightarrow> scaled))"

type_synonym escalation = "nat \<Rightarrow> nat \<Rightarrow> nat"

definition calculate_cooldown_duration :: "escalation \<Rightarrow> escalation \<Rightarrow> cooldown_manager \<Rightarrow>
    cooldown_reason \<Rightarrow> nat \<Rightarrow> duration" where
  "calculate_cooldown_duration esc16 esc13 m r count =
     (let base = default_duration r in
      if r = SuspiciousActivity then
        let duration_secs = esc16 (as_secs base) (count - 1) in
        scaled_duration m r (secs (min duration_secs SUSPICIOUS_MAX_SECS))
      else if is_auto_recoverable r then
        let duration_secs = esc13 (as_secs base) (count - 1);
            capped_secs = min duration_secs (max_short_cooldown_secs m) in
        scaled_duration m r (secs capped_secs)
      else secs (long_cooldown_secs m))"

definition should_log_event :: "instant \<Rightarrow> nat \<Rightarrow> cooldown_manager \<Rightarrow> bool \<times> cooldown_manager" where
  "should_log_event now cid m =
     (let allowed = (case last_log_at m cid of
                       Some prev \<Rightarrow> now - prev \<ge> LOG_THROTTLE
                     | None \<Rightarrow> True) in
      (allowed, if allowed then m\<lparr>last_log_at := (last_log_at m)(cid \<mapsto> now)\<rparr> else m))"

text \<open>
  What both ways of setting a cooldown do first with the entry: create it, let the count decay by
  one for each calm minute since it expired, count the trigger.
\<close>

definition entry_triggered :: "instant \<Rightarrow> cooldown_reason \<Rightarrow> cooldown_entry option \<Rightarrow> cooldown_entry" where
  "entry_triggered now r e0 =
     (let e = (case e0 of
                 Some e \<Rightarrow> e
               | None \<Rightarrow> \<lparr>reason = r, started_at = now, expires_at = now, trigger_count = 0\<rparr>);
          e1 = (if reason e = r \<and> now > expires_at e then
                  let calm = as_secs (now - expires_at e);
                      decay = (calm div DECAY_WINDOW_SECS) mod 2 ^ 32 in
                  if decay > 0 then e\<lparr>trigger_count := trigger_count e - decay\<rparr> else e
                else e) in
      if reason e1 = r then e1\<lparr>trigger_count := (trigger_count e1 + 1) mod 2 ^ 32\<rparr>
      else e1\<lparr>reason := r, trigger_count := 1\<rparr>)"

definition entry_extended :: "instant \<Rightarrow> duration \<Rightarrow> cooldown_entry \<Rightarrow> cooldown_entry" where
  "entry_extended now d e =
     (if now + d > expires_at e then e\<lparr>started_at := now, expires_at := now + d\<rparr> else e)"

definition set_transient_cooldown ::
  "instant \<Rightarrow> nat \<Rightarrow> cooldown_reason \<Rightarrow> cooldown_manager \<Rightarrow> duration \<times> cooldown_manager" where
  "set_transient_cooldown now cid r m =
     (let baseline = scaled_duration m r (default_duration r);
          e = entry_extended now baseline (entry_triggered now r (entries m cid)) in
      (expires_at e - now,
       snd (should_log_event now cid (m\<lparr>entries := (entries m)(cid \<mapsto> e)\<rparr>))))"

definition set_cooldown_with_duration :: "escalation \<Rightarrow> escalation \<Rightarrow> instant \<Rightarrow> nat \<Rightarrow>
    cooldown_reason \<Rightarrow> duration option \<Rightarrow> cooldown_manager \<Rightarrow> duration \<times> cooldown_manager" where
  "set_cooldown_with_duration esc16 esc13 now cid r custom m =
     (let e = entry_triggered now r (entries m cid);
          d = (case custom of
                 Some d \<Rightarrow> d
               | None \<Rightarrow> calculate_cooldown_duration esc16 esc13 m r (trigger_count e));
          e' = entry_extended now d e in
      (d, snd (should_log_event now cid (m\<lparr>entries := (entries m)(cid \<mapsto> e')\<rparr>))))"

definition set_cooldown :: "escalation \<Rightarrow> escalation \<Rightarrow> instant \<Rightarrow> nat \<Rightarrow> cooldown_reason \<Rightarrow>
    cooldown_manager \<Rightarrow> duration \<times> cooldown_manager" where
  "set_cooldown esc16 esc13 now cid r m = set_cooldown_with_duration esc16 esc13 now cid r None m"

definition check_cooldown ::
  "instant \<Rightarrow> nat \<Rightarrow> cooldown_manager \<Rightarrow> (cooldown_reason \<times> duration) option" where
  "check_cooldown now cid m =
     Option.bind (entries m cid)
       (\<lambda>e. if now < expires_at e then Some (reason e, expires_at e - now) else None)"

definition is_available :: "instant \<Rightarrow> nat \<Rightarrow> cooldown_manager \<Rightarrow> bool" where
  "is_available now cid m \<longleftrightarrow> check_cooldown now cid m = None"

definition cooldown_trigger_count :: "nat \<Rightarrow> cooldown_manager \<Rightarrow> nat" where
  "cooldown_trigger_count cid m = (case entries m cid of Some e \<Rightarrow> trigger_count e | None \<Rightarrow> 0)"

definition clear_cooldown :: "nat \<Rightarrow> cooldown_manager \<Rightarrow> bool \<times> cooldown_manager" where
  "clear_cooldown cid m =
     (entries m cid \<noteq> None, m\<lparr>entries := (entries m)(cid := None)\<rparr>)"

definition cleanup_expired :: "instant \<Rightarrow> cooldown_manager \<Rightarrow> nat \<times> cooldown_manager" where
  "cleanup_expired now m =
     (let kept = retain (\<lambda>_ e. now < expires_at e) (entries m) in
      (card (dom (entries m)) - card (dom kept), m\<lparr>entries := kept\<rparr>))"

record cooldown_info =
  info_reason :: cooldown_reason
  info_started_at_ms :: nat
  info_remaining_ms :: nat
  info_trigger_count :: nat

definition get_all_cooldowns :: "instant \<Rightarrow> cooldown_manager \<Rightarrow> (nat \<rightharpoonup> cooldown_info)" where
  "get_all_cooldowns now m =
     (\<lambda>cid. map_option (\<lambda>e. \<lparr>info_reason = reason e,
         info_started_at_ms = as_millis (now - started_at e) mod 2 ^ 64,
         info_remaining_ms = as_millis (expires_at e - now) mod 2 ^ 64,
         info_trigger_count = trigger_count e\<rparr>)
       (retain (\<lambda>_ e. now < expires_at e) (entries m) cid))"

subsection \<open>What setting a cooldown does\<close>

lemma entry_triggered_fields [simp]:
  "expires_at (entry_triggered now r e0) = (case e0 of Some e \<Rightarrow> expires_at e | None \<Rightarrow> now)"
  "reason (entry_triggered now r e0) = r"
  by (auto simp: entry_triggered_def Let_def split: option.split)

lemma entry_extended_fields [simp]:
  "expires_at (entry_extended now d e) = max (expires_at e) (now + d)"
  "reason (entry_extended now d e) = reason e"
  "trigger_count (entry_extended now d e) = trigger_count e"
  by (simp_all add: entry_extended_def)

lemma entries_should_log [simp]: "entries (snd (should_log_event now cid m)) = entries m"
  by (simp add: should_log_event_def Let_def)

definition expiry :: "instant \<Rightarrow> nat \<Rightarrow> cooldown_manager \<Rightarrow> instant" where
  "expiry now cid m = (case entries m cid of Some e \<Rightarrow> max now (expires_at e) | None \<Rightarrow> now)"

lemma check_cooldown_expiry:
  "map_option snd (check_cooldown now cid m) =
     (if now < expiry now cid m then Some (expiry now cid m - now) else None)"
  by (auto simp: check_cooldown_def expiry_def split: option.split)

text \<open>
  Setting a cooldown never shortens one. Whatever the reason and whether the duration is
  computed or given by the upstream, from then on the credential is reported as cooling down, with
  the new reason, until the later of its old expiry and now plus the duration, and not after; no
  other credential changes.
\<close>
theorem set_cooldown_effect:
  assumes "set_cooldown_with_duration esc16 esc13 now cid r custom m = (d, m')" and "now \<le> t"
  shows "check_cooldown t cid m' =
      (let until = max (expiry now cid m) (now + d) in
       if t < until then Some (r, until - t) else None) \<and>
    (\<forall>other. other \<noteq> cid \<longrightarrow> check_cooldown t other m' = check_cooldown t other m)"
  using assms
  by (auto simp: set_cooldown_with_duration_def Let_def check_cooldown_def expiry_def max_def
      split: option.splits)

lemma set_cooldown_effect_witness:
  "\<exists>d m'. set_cooldown_with_duration (\<lambda>b _. b) (\<lambda>b _. b) (secs 100) 1 RateLimitExceeded
       (Some (secs 7)) cooldown_new = (d, m') \<and>
     check_cooldown (secs 103) 1 m' = Some (RateLimitExceeded, secs 4)"
proof -
  obtain d m' where s: "set_cooldown_with_duration (\<lambda>b _. b) (\<lambda>b _. b) (secs 100) 1
      RateLimitExceeded (Some (secs 7)) cooldown_new = (d, m')" by force
  then have "d = secs 7" by (simp add: set_cooldown_with_duration_def Let_def)
  with set_cooldown_effect [OF s, of "secs 103"] s show ?thesis
    by (auto simp: expiry_def cooldown_new_def Let_def secs_def)
qed

subsection \<open>How long a cooldown is\<close>

text \<open>What every rounding of the powers satisfies: the first trigger gives the base, later ones no less.\<close>

definition escalates :: "escalation \<Rightarrow> bool" where
  "escalates esc \<longleftrightarrow> (\<forall>b. esc b 0 = b) \<and> (\<forall>b m n. m \<le> n \<longrightarrow> esc b m \<le> esc b n)"

lemma escalates_ge: "escalates esc \<Longrightarrow> b \<le> esc b n"
  unfolding escalates_def by (metis le0)

lemma as_millis_secs: "as_millis (secs n) = n * 1000"
  by (simp add: as_millis_def secs_def)

lemma millis_1000: "millis (n * 1000) = secs n"
  by (simp add: millis_def secs_def)

text \<open>
  The length of a cooldown. At every setting of the scale a rate limit cools a credential for
  at least 8 seconds, however often it struck. A suspicious activity is capped at 30 minutes before
  the scale is applied, not after: with the scale at 500 percent the cooldown grows to 150 minutes,
  although the comment in the code promises that the 30 minutes hold after scaling.
\<close>
theorem cooldown_lengths:
  assumes "escalates esc16" and "escalates esc13" and "entries m = entries cooldown_new"
    and "m = set_cooldown_scale_pct pct cooldown_new"
  shows "secs RATE_LIMIT_FLOOR_SECS \<le>
      calculate_cooldown_duration esc16 esc13 m RateLimitExceeded count \<and>
    (500 \<le> pct \<and> SUSPICIOUS_MAX_SECS \<le> esc16 SUSPICIOUS_COOLDOWN_SECS (count - 1) \<longrightarrow>
      calculate_cooldown_duration esc16 esc13 m SuspiciousActivity count = secs (150 * 60))"
proof -
  have "15 \<le> esc13 15 (count - 1)" using assms(2) by (rule escalates_ge)
  then have "secs 8 \<le> calculate_cooldown_duration esc16 esc13 m RateLimitExceeded count"
    by (simp add: calculate_cooldown_duration_def default_duration_def scaled_duration_def
        is_auto_recoverable_def scale_floor_def Let_def assms(4) set_cooldown_scale_pct_def
        cooldown_new_def MAX_SHORT_COOLDOWN_SECS_def RATE_LIMIT_COOLDOWN_SECS_def
        RATE_LIMIT_FLOOR_SECS_def)
  moreover have "calculate_cooldown_duration esc16 esc13 m SuspiciousActivity count = secs (150 * 60)"
    if "500 \<le> pct" "1800 \<le> esc16 20 (count - 1)"
    using that
    by (simp add: calculate_cooldown_duration_def default_duration_def scaled_duration_def
        is_auto_recoverable_def scale_floor_def Let_def assms(4) set_cooldown_scale_pct_def
        cooldown_new_def SUSPICIOUS_COOLDOWN_SECS_def SUSPICIOUS_MAX_SECS_def clamp_def
        SUSPICIOUS_FLOOR_SECS_def as_millis_secs sat_mul64_def u64_max_def min_def)
      (simp add: millis_def secs_def)
  ultimately show ?thesis
    by (simp add: RATE_LIMIT_FLOOR_SECS_def SUSPICIOUS_MAX_SECS_def SUSPICIOUS_COOLDOWN_SECS_def)
qed

lemma cooldown_lengths_witness:
  "calculate_cooldown_duration (\<lambda>b n. b * 2 ^ n) (\<lambda>b n. b * 2 ^ n)
     (set_cooldown_scale_pct 500 cooldown_new) SuspiciousActivity 11 = secs 9000"
  using cooldown_lengths [of "\<lambda>b n. b * 2 ^ n" "\<lambda>b n. b * 2 ^ n"
      "set_cooldown_scale_pct 500 cooldown_new" 500 11]
  by (simp add: escalates_def set_cooldown_scale_pct_def cooldown_new_def SUSPICIOUS_MAX_SECS_def
      SUSPICIOUS_COOLDOWN_SECS_def power_increasing)

subsection \<open>Persistence\<close>

record persisted_entry =
  p_reason :: cooldown_reason
  p_started_at_unix_ms :: nat
  p_expires_at_unix_ms :: nat
  p_trigger_count :: nat

definition unix_ms :: "instant \<Rightarrow> nat" where
  "unix_ms t = as_millis t mod 2 ^ 64"

definition from_unix_ms :: "nat \<Rightarrow> instant" where
  "from_unix_ms ms = millis ms"

definition cooldown_snapshot :: "instant \<Rightarrow> cooldown_manager \<Rightarrow> (nat \<rightharpoonup> persisted_entry)" where
  "cooldown_snapshot now m =
     (\<lambda>cid. map_option (\<lambda>e. \<lparr>p_reason = reason e, p_started_at_unix_ms = unix_ms (started_at e),
         p_expires_at_unix_ms = unix_ms (expires_at e), p_trigger_count = trigger_count e\<rparr>)
       (retain (\<lambda>_ e. now < expires_at e) (entries m) cid))"

definition cooldown_load ::
  "instant \<Rightarrow> (nat \<rightharpoonup> persisted_entry) \<Rightarrow> cooldown_manager \<Rightarrow> cooldown_manager" where
  "cooldown_load now parsed m =
     m\<lparr>entries := entries m ++ (\<lambda>cid. map_option
         (\<lambda>p. \<lparr>reason = p_reason p, started_at = from_unix_ms (p_started_at_unix_ms p),
               expires_at = from_unix_ms (p_expires_at_unix_ms p), trigger_count = p_trigger_count p\<rparr>)
         (retain (\<lambda>_ p. \<not> p_expires_at_unix_ms p \<le> unix_ms now) parsed cid))\<rparr>"

lemma ms_floor: "millis (as_millis t) \<le> t \<and> t < millis (as_millis t) + 1000000"
proof -
  have "t div 1000000 * 1000000 + t mod 1000000 = t" by (rule div_mult_mod_eq)
  moreover have "t mod 1000000 < 1000000" by simp
  ultimately show ?thesis unfolding millis_def as_millis_def by linarith
qed

lemma cooldown_restored:
  assumes "entries m cid = Some e" "now < expires_at e" "as_millis (expires_at e) < 2 ^ 64"
    "now \<le> t" "m' = cooldown_load now' (cooldown_snapshot now m) cooldown_new" "t0 = millis (as_millis (expires_at e))"
    "now' \<le> t"
  shows "t + 1000000 \<le> expires_at e \<Longrightarrow>
    check_cooldown t cid m' = Some (reason e, t0 - t) \<and> cooldown_trigger_count cid m' = trigger_count e"
proof -
  assume far: "t + 1000000 \<le> expires_at e"
  have "t div 1000000 + 1 \<le> expires_at e div 1000000"
    using div_le_mono [OF far, of 1000000] by simp
  then have ms: "unix_ms now' < unix_ms (expires_at e)"
    using assms(3,7) div_le_mono [OF assms(7), of 1000000] by (simp add: unix_ms_def as_millis_def)
  have "expires_at e < expires_at e div 1000000 * 1000000 + 1000000"
    using mod_less_divisor [of 1000000 "expires_at e"] div_mult_mod_eq [of "expires_at e" 1000000] by linarith
  then have "t < t0" using far by (simp add: assms(6) millis_def as_millis_def)
  then show ?thesis
    using ms assms(1-3)
    by (simp add: assms(5,6) cooldown_load_def cooldown_snapshot_def check_cooldown_def map_add_def
        retain_def cooldown_new_def from_unix_ms_def unix_ms_def cooldown_trigger_count_def)
qed

text \<open>
  A restart keeps the cooldowns. If a snapshot taken at \<open>now\<close> is loaded at \<open>now'\<close> into a new
  manager, then at any later time \<open>t\<close> every credential that still had at least a millisecond to wait
  is reported with the same reason and trigger count and the same expiry, rounded down to a
  millisecond; and no credential is reported that the old manager would not have reported.
\<close>
theorem cooldown_survives_restart:
  assumes "m' = cooldown_load now' (cooldown_snapshot now m) cooldown_new"
    and "now \<le> t" and "now' \<le> t"
    and "\<forall>e. entries m cid = Some e \<longrightarrow> as_millis (expires_at e) < 2 ^ 64"
  shows "(\<forall>r d. check_cooldown t cid m = Some (r, d) \<longrightarrow> millis 1 \<le> d \<longrightarrow>
      cooldown_trigger_count cid m' = cooldown_trigger_count cid m \<and>
      (\<exists>d'. check_cooldown t cid m' = Some (r, d') \<and> d' \<le> d \<and> d < d' + millis 1)) \<and>
    (\<forall>r d'. check_cooldown t cid m' = Some (r, d') \<longrightarrow>
      (\<exists>d. check_cooldown t cid m = Some (r, d) \<and> d' \<le> d))"
proof (intro conjI allI impI)
  fix r d assume c: "check_cooldown t cid m = Some (r, d)" "millis 1 \<le> d"
  then obtain e where e: "entries m cid = Some e" "t < expires_at e" "r = reason e" "d = expires_at e - t"
    by (auto simp: check_cooldown_def split: option.splits if_splits bind_splits)
  let ?t0 = "millis (as_millis (expires_at e))"
  have far: "t + 1000000 \<le> expires_at e" using c(2) e by (simp add: millis_def)
  have res: "check_cooldown t cid m' = Some (reason e, ?t0 - t) \<and>
      cooldown_trigger_count cid m' = trigger_count e"
    by (rule cooldown_restored [OF e(1) _ _ assms(2) assms(1) refl assms(3) far])
      (use e assms(2,4) in auto)
  then show "cooldown_trigger_count cid m' = cooldown_trigger_count cid m"
    by (simp add: cooldown_trigger_count_def e(1))
  have "?t0 \<le> expires_at e \<and> expires_at e < ?t0 + 1000000"
    by (rule ms_floor)
  then show "\<exists>d'. check_cooldown t cid m' = Some (r, d') \<and> d' \<le> d \<and> d < d' + millis 1"
    using res e(3,4) by (auto simp: millis_def)
next
  fix r d' assume c: "check_cooldown t cid m' = Some (r, d')"
  then obtain e where e: "entries m cid = Some e" "now < expires_at e" "r = reason e"
      "d' = millis (unix_ms (expires_at e)) - t" "t < millis (unix_ms (expires_at e))"
    by (auto simp: assms(1) cooldown_load_def cooldown_snapshot_def check_cooldown_def map_add_def
        cooldown_new_def from_unix_ms_def retain_def split: option.splits if_splits bind_splits)
  have "millis (unix_ms (expires_at e)) \<le> expires_at e"
    using mod_less_eq_dividend [of "as_millis (expires_at e)" "2 ^ 64"]
    by (simp add: unix_ms_def millis_def as_millis_def)
  then show "\<exists>d. check_cooldown t cid m = Some (r, d) \<and> d' \<le> d"
    using e by (simp add: check_cooldown_def)
qed

subsection \<open>The flags of a save\<close>

text \<open>
  \<open>mark_dirty\<close> first increments the version, then sets the dirty flag, then saves unless the last save
  was less than the debounce time ago, which it cannot have been if there was none; \<open>flush_now\<close> saves
  if the flag is set. \<open>save\<close>, one at a time, reads the version with its snapshot, writes, notes the
  time, and clears the flag if the version it then reads is still the same. Each access to an atomic is
  a step, and calls of \<open>mark_dirty\<close> (which does not take the save lock before it saves) run beside the
  one save in progress. \<open>on_disk\<close> is the version whose snapshot the file holds.
\<close>

datatype save_phase =
  Idle
| Snapshotted nat
| Written nat
| Clearing                    \<comment> \<open>the versions were equal, the flag is not yet cleared\<close>

record persist_state =
  dirty :: bool
  version :: nat
  marks_in_flight :: nat      \<comment> \<open>calls of \<open>mark_dirty\<close> between their two stores\<close>
  marks_deciding :: nat       \<comment> \<open>calls of \<open>mark_dirty\<close> that have set the flag and look at the clock\<close>
  saves_due :: nat            \<comment> \<open>calls of \<open>save\<close> that wait for the lock\<close>
  saved_before :: bool        \<comment> \<open>\<open>last_save_at\<close> is set\<close>
  phase :: save_phase
  on_disk :: nat

definition persist_new :: persist_state where
  "persist_new = \<lparr>dirty = False, version = 0, marks_in_flight = 0, marks_deciding = 0, saves_due = 0,
     saved_before = False, phase = Idle, on_disk = 0\<rparr>"

inductive persist_step :: "persist_state \<Rightarrow> persist_state \<Rightarrow> bool" where
  mark_version: "persist_step s (s\<lparr>version := version s + 1, marks_in_flight := marks_in_flight s + 1\<rparr>)"
| mark_flag: "marks_in_flight s = Suc n \<Longrightarrow>
    persist_step s (s\<lparr>dirty := True, marks_in_flight := n, marks_deciding := marks_deciding s + 1\<rparr>)"
| mark_debounced: "marks_deciding s = Suc n \<Longrightarrow> saved_before s \<Longrightarrow> persist_step s (s\<lparr>marks_deciding := n\<rparr>)"
| mark_saves: "marks_deciding s = Suc n \<Longrightarrow>
    persist_step s (s\<lparr>marks_deciding := n, saves_due := saves_due s + 1\<rparr>)"
| flush_saves: "dirty s \<Longrightarrow> persist_step s (s\<lparr>saves_due := saves_due s + 1\<rparr>)"
| save_snapshot: "phase s = Idle \<Longrightarrow> saves_due s = Suc n \<Longrightarrow>
    persist_step s (s\<lparr>phase := Snapshotted (version s), saves_due := n\<rparr>)"
| save_write: "phase s = Snapshotted v \<Longrightarrow>
    persist_step s (s\<lparr>phase := Written v, on_disk := v, saved_before := True\<rparr>)"
| save_fail: "phase s = Snapshotted v \<Longrightarrow> persist_step s (s\<lparr>phase := Idle\<rparr>)"
| save_changed: "phase s = Written v \<Longrightarrow> version s \<noteq> v \<Longrightarrow> persist_step s (s\<lparr>phase := Idle\<rparr>)"
| save_unchanged: "phase s = Written v \<Longrightarrow> version s = v \<Longrightarrow> persist_step s (s\<lparr>phase := Clearing\<rparr>)"
| save_clear: "phase s = Clearing \<Longrightarrow> persist_step s (s\<lparr>dirty := False, phase := Idle\<rparr>)"

inductive persist_reaches :: "persist_state \<Rightarrow> bool" where
  persist_start: "persist_reaches persist_new"
| persist_next: "persist_reaches s \<Longrightarrow> persist_step s s' \<Longrightarrow> persist_reaches s'"

text \<open>The file never goes back to an older version.\<close>

definition persist_inv :: "persist_state \<Rightarrow> bool" where
  "persist_inv s \<longleftrightarrow> on_disk s \<le> version s \<and>
     (case phase s of
        Idle \<Rightarrow> True
      | Snapshotted v \<Rightarrow> v \<le> version s \<and> on_disk s \<le> v
      | Written v \<Rightarrow> v = on_disk s
      | Clearing \<Rightarrow> True)"

lemma persist_inv_step: "persist_step s s' \<Longrightarrow> persist_inv s \<Longrightarrow> persist_inv s'"
  by (induction rule: persist_step.induct) (auto simp: persist_inv_def split: save_phase.splits)

lemma persist_inv_reaches: "persist_reaches s \<Longrightarrow> persist_inv s"
proof (induction rule: persist_reaches.induct)
  case persist_start
  show ?case by (simp add: persist_inv_def persist_new_def)
next
  case (persist_next s s')
  then show ?case by (auto intro: persist_inv_step)
qed

lemma on_disk_advances:
  assumes "persist_reaches s" and "persist_step s s'"
  shows "on_disk s \<le> on_disk s'"
  using assms(2) persist_inv_reaches [OF assms(1)] by cases (auto simp: persist_inv_def)

text \<open>
  C36. The dirty flag can lose an update. A state is reachable in which no save and no \<open>mark_dirty\<close> is
  in progress or waiting, the flag is clear, and the file lacks the last change: a call of \<open>mark_dirty\<close>
  that falls between the comparison of the versions and the store that clears the flag is undone by
  that store, and \<open>flush_now\<close>, which looks at the flag, then writes nothing. The comments in the code
  say this cannot happen.
\<close>
theorem dirty_flag_race:
  "\<exists>s. persist_reaches s \<and> phase s = Idle \<and> marks_in_flight s = 0 \<and> marks_deciding s = 0 \<and>
     saves_due s = 0 \<and> \<not> dirty s \<and> on_disk s < version s"
proof -
  let ?s = "\<lambda>d v m k w b p o'. \<lparr>dirty = d, version = v, marks_in_flight = m, marks_deciding = k,
    saves_due = w, saved_before = b, phase = p, on_disk = o'\<rparr>"
  have "persist_reaches (?s False 1 1 0 0 False Idle 0)"
    using persist_next [OF persist_start mark_version] by (simp add: persist_new_def)
  from persist_next [OF this mark_flag] have "persist_reaches (?s True 1 0 1 0 False Idle 0)" by simp
  from persist_next [OF this mark_saves] have "persist_reaches (?s True 1 0 0 1 False Idle 0)" by simp
  from persist_next [OF this save_snapshot] have "persist_reaches (?s True 1 0 0 0 False (Snapshotted 1) 0)" by simp
  from persist_next [OF this save_write] have "persist_reaches (?s True 1 0 0 0 True (Written 1) 1)" by simp
  from persist_next [OF this save_unchanged] have "persist_reaches (?s True 1 0 0 0 True Clearing 1)" by simp
  from persist_next [OF this mark_version] have "persist_reaches (?s True 2 1 0 0 True Clearing 1)" by (simp add: numeral_2_eq_2)
  from persist_next [OF this mark_flag] have "persist_reaches (?s True 2 0 1 0 True Clearing 1)" by simp
  from persist_next [OF this mark_debounced] have "persist_reaches (?s True 2 0 0 0 True Clearing 1)" by simp
  from persist_next [OF this save_clear] have "persist_reaches (?s False 2 0 0 0 True Idle 1)" by simp
  then show ?thesis by (intro exI [of _ "?s False 2 0 0 0 True Idle 1"]) simp
qed

lemma cooldown_survives_restart_witness:
  "\<exists>m m' r d d'. m' = cooldown_load (secs 102) (cooldown_snapshot (secs 101) m) cooldown_new \<and>
     check_cooldown (secs 103) 1 m = Some (r, d) \<and> check_cooldown (secs 103) 1 m' = Some (r, d') \<and>
     d < d' + millis 1"
proof -
  define m where "m = cooldown_new\<lparr>entries := [1 \<mapsto> \<lparr>reason = RateLimitExceeded, started_at = secs 100,
      expires_at = secs 107, trigger_count = 1\<rparr>]\<rparr>"
  define m' where "m' = cooldown_load (secs 102) (cooldown_snapshot (secs 101) m) cooldown_new"
  have c: "check_cooldown (secs 103) 1 m = Some (RateLimitExceeded, secs 4)"
    by (simp add: m_def check_cooldown_def secs_def)
  have "\<forall>e. entries m 1 = Some e \<longrightarrow> as_millis (expires_at e) < 2 ^ 64"
    by (simp add: m_def as_millis_def secs_def)
  from cooldown_survives_restart [where t = "secs 103", OF m'_def _ _ this] c
  show ?thesis unfolding m'_def [symmetric]
    by (intro exI [of _ m] exI [of _ m']) (auto simp: m'_def secs_def millis_def)
qed

end
