(* ===== verification/RateLimiter.thy ===== *)
theory RateLimiter
  imports Prelude
begin

text \<open>
  The per-credential rate limiter: \<open>src/src/kiro/rate_limiter.rs\<close>: a minimal, jittered interval
  between requests, a daily quota, and a backoff after failures.

  Three things come from outside the source and are arguments: the products with the \<open>f64\<close>
  settings (\<open>jitter_of base\<close> is \<open>(base as f64 * jitter_percent) as u64\<close>, \<open>grown failures\<close> is
  \<open>(base * multiplier.powi(failures - 1)) as u64\<close>), and each number \<open>fastrand\<close> draws. The lemmas hold
  for all of them. The two locks are taken in one order; a method is one function.
\<close>

datatype failure_kind = Transient | Suspended

record rate_limit_config =
  daily_max_requests :: nat
  min_interval_ms :: nat
  max_interval_ms :: nat
  jitter_of :: "nat \<Rightarrow> nat"
  backoff_max_ms :: nat
  grown :: "nat \<Rightarrow> nat"

record credential_rate_state =
  daily_count :: nat
  count_reset_at :: instant
  last_request_at :: "instant option"
  consecutive_failures :: nat
  backoff_until :: "instant option"

definition rate_state_default :: "instant \<Rightarrow> credential_rate_state" where
  "rate_state_default now = \<lparr>daily_count = 0, count_reset_at = now + secs 86400,
     last_request_at = None, consecutive_failures = 0, backoff_until = None\<rparr>"

record rate_limiter =
  rl_config :: rate_limit_config
  rl_states :: "nat \<rightharpoonup> credential_rate_state"

definition rate_limiter_new :: "rate_limit_config \<Rightarrow> rate_limiter" where
  "rate_limiter_new cfg = \<lparr>rl_config = cfg, rl_states = Map.empty\<rparr>"

definition update_config :: "rate_limit_config \<Rightarrow> rate_limiter \<Rightarrow> rate_limiter" where
  "update_config cfg rl = rl\<lparr>rl_config := cfg\<rparr>"

text \<open>\<open>draw\<close> is the number \<open>fastrand::u64(0..=2 * jitter_range)\<close> returned.\<close>

definition calculate_interval :: "rate_limit_config \<Rightarrow> nat \<Rightarrow> duration" where
  "calculate_interval cfg draw =
     (let base = (min_interval_ms cfg + max_interval_ms cfg) div 2;
          jitter_range = jitter_of cfg base;
          jitter = (if jitter_range > 0 then int draw - int jitter_range else 0);
          interval = min (max (int base + jitter) (int (min_interval_ms cfg))) (int (max_interval_ms cfg)) in
      millis (nat interval))"

definition calculate_backoff :: "rate_limit_config \<Rightarrow> nat \<Rightarrow> nat \<Rightarrow> duration" where
  "calculate_backoff cfg failures draw =
     (let mx = backoff_max_ms cfg;
          backoff_ms = min (grown cfg failures) mx;
          jitter_range = jitter_of cfg backoff_ms;
          jitter = (if jitter_range > 0 then draw else 0) in
      millis (min (backoff_ms + jitter) mx))"

definition state_of :: "instant \<Rightarrow> nat \<Rightarrow> rate_limiter \<Rightarrow> credential_rate_state" where
  "state_of now cid rl = (case rl_states rl cid of Some s \<Rightarrow> s | None \<Rightarrow> rate_state_default now)"

text \<open>
  What \<open>check_rate_limit\<close> and \<open>try_acquire\<close> share: the daily reset, the quota, the backoff and the
  interval. The state is changed even when the answer is to wait.
\<close>

definition rate_check :: "rate_limit_config \<Rightarrow> duration \<Rightarrow> instant \<Rightarrow> credential_rate_state \<Rightarrow>
    (duration + unit) \<times> credential_rate_state" where
  "rate_check cfg min_interval now s0 =
     (let s = (if now \<ge> count_reset_at s0
               then s0\<lparr>daily_count := 0, count_reset_at := now + secs 86400\<rparr> else s0) in
      if daily_count s \<ge> daily_max_requests cfg then (Err (count_reset_at s - now), s)
      else
        (case backoff_until s of
           Some b \<Rightarrow>
             if now < b then (Err (b - now), s)
             else
               let s1 = s\<lparr>backoff_until := None\<rparr> in
               (case last_request_at s1 of
                  Some l \<Rightarrow> if now - l < min_interval then (Err (min_interval - (now - l)), s1)
                            else (Ok (), s1)
                | None \<Rightarrow> (Ok (), s1))
         | None \<Rightarrow>
             (case last_request_at s of
                Some l \<Rightarrow> if now - l < min_interval then (Err (min_interval - (now - l)), s)
                          else (Ok (), s)
              | None \<Rightarrow> (Ok (), s))))"

definition check_rate_limit ::
  "nat \<Rightarrow> instant \<Rightarrow> nat \<Rightarrow> rate_limiter \<Rightarrow> (duration + unit) \<times> rate_limiter" where
  "check_rate_limit draw now cid rl =
     (let cfg = rl_config rl;
          (r, s) = rate_check cfg (calculate_interval cfg draw) now (state_of now cid rl) in
      (r, rl\<lparr>rl_states := (rl_states rl)(cid \<mapsto> s)\<rparr>))"

definition try_acquire ::
  "nat \<Rightarrow> instant \<Rightarrow> nat \<Rightarrow> rate_limiter \<Rightarrow> (duration + unit) \<times> rate_limiter" where
  "try_acquire draw now cid rl =
     (let cfg = rl_config rl;
          (r, s) = rate_check cfg (calculate_interval cfg draw) now (state_of now cid rl);
          s' = (case r of Ok _ \<Rightarrow> s\<lparr>last_request_at := Some now\<rparr> | Err _ \<Rightarrow> s) in
      (r, rl\<lparr>rl_states := (rl_states rl)(cid \<mapsto> s')\<rparr>))"

definition record_success :: "instant \<Rightarrow> nat \<Rightarrow> rate_limiter \<Rightarrow> rate_limiter" where
  "record_success now cid rl =
     (let s = state_of now cid rl in
      rl\<lparr>rl_states := (rl_states rl)(cid \<mapsto>
        s\<lparr>daily_count := (daily_count s + 1) mod 2 ^ 32, last_request_at := Some now,
          consecutive_failures := 0, backoff_until := None\<rparr>)\<rparr>)"

definition record_failure ::
  "nat \<Rightarrow> instant \<Rightarrow> nat \<Rightarrow> failure_kind \<Rightarrow> rate_limiter \<Rightarrow> duration \<times> rate_limiter" where
  "record_failure draw now cid kind rl =
     (let cfg = rl_config rl;
          s = state_of now cid rl;
          failures = (consecutive_failures s + 1) mod 2 ^ 32;
          backoff = (case kind of
                       Suspended \<Rightarrow> secs 3600
                     | Transient \<Rightarrow> calculate_backoff cfg failures draw) in
      (backoff,
       rl\<lparr>rl_states := (rl_states rl)(cid \<mapsto>
         s\<lparr>consecutive_failures := failures, last_request_at := Some now,
           backoff_until := Some (now + backoff)\<rparr>)\<rparr>))"

record rate_limit_state =
  st_daily_count :: nat
  st_daily_remaining :: nat
  st_consecutive_failures :: nat
  st_is_in_backoff :: bool
  st_backoff_remaining_ms :: nat

definition get_state :: "instant \<Rightarrow> nat \<Rightarrow> rate_limiter \<Rightarrow> rate_limit_state option" where
  "get_state now cid rl =
     map_option (\<lambda>s. \<lparr>st_daily_count = daily_count s,
         st_daily_remaining = daily_max_requests (rl_config rl) - daily_count s,
         st_consecutive_failures = consecutive_failures s,
         st_is_in_backoff = (case backoff_until s of Some t \<Rightarrow> now < t | None \<Rightarrow> False),
         st_backoff_remaining_ms =
           (case backoff_until s of Some t \<Rightarrow> as_millis (t - now) mod 2 ^ 64 | None \<Rightarrow> 0)\<rparr>)
       (rl_states rl cid)"

definition rate_reset :: "nat \<Rightarrow> rate_limiter \<Rightarrow> rate_limiter" where
  "rate_reset cid rl = rl\<lparr>rl_states := (rl_states rl)(cid := None)\<rparr>"

subsection \<open>Bounds of the interval and of the backoff\<close>

text \<open>
  The shortest interval a configuration allows. Nothing makes the minimum the smaller of the two: the
  token manager takes the minimum from its configuration and leaves the maximum at 2000 ms.
\<close>

definition floor_ms :: "rate_limit_config \<Rightarrow> nat" where
  "floor_ms cfg = min (min_interval_ms cfg) (max_interval_ms cfg)"

lemma interval_bounds:
  "millis (floor_ms cfg) \<le> calculate_interval cfg draw \<and> calculate_interval cfg draw \<le> millis (max_interval_ms cfg)"
  by (auto simp: calculate_interval_def floor_ms_def Let_def intro!: millis_mono)

lemma interval_without_jitter:
  "jitter_of cfg ((min_interval_ms cfg + max_interval_ms cfg) div 2) = 0 \<Longrightarrow>
     calculate_interval cfg draw = calculate_interval cfg draw'"
  by (simp add: calculate_interval_def)

lemma backoff_bound: "calculate_backoff cfg failures draw \<le> millis (backoff_max_ms cfg)"
  by (simp add: calculate_backoff_def Let_def millis_mono)

subsection \<open>What a permission to send means\<close>

lemma rate_check_OkD:
  "rate_check cfg iv now s = (Ok u, s') \<Longrightarrow>
     (\<forall>b. backoff_until s = Some b \<longrightarrow> b \<le> now) \<and>
     (\<forall>l. last_request_at s = Some l \<longrightarrow> iv \<le> now - l) \<and>
     daily_count s' < daily_max_requests cfg \<and> last_request_at s' = last_request_at s \<and>
     (daily_count s < daily_max_requests cfg \<or> count_reset_at s \<le> now)"
  by (auto simp: rate_check_def Let_def not_less split: if_splits option.splits)

lemma rate_check_keeps:
  "rate_check cfg iv now s = (r, s') \<Longrightarrow>
     last_request_at s' = last_request_at s \<and> consecutive_failures s' = consecutive_failures s"
  by (auto simp: rate_check_def Let_def split: if_splits option.splits)

text \<open>Every public operation that changes the limiter.\<close>

datatype rate_op =
  TryAcquire nat nat
| CheckLimit nat nat
| Success nat
| Failure nat nat failure_kind
| Reset nat
| UpdateConfig rate_limit_config

text \<open>
  What is seen of \<open>cid\<close> from outside: a permission to send, at a time and under a configuration, and a
  reset of its state, by which the token manager revives or deletes a credential.
\<close>

datatype rate_mark = Granted instant rate_limit_config | Forgotten

fun rate_op_step :: "nat \<Rightarrow> rate_op \<Rightarrow> instant \<Rightarrow> rate_limiter \<Rightarrow> rate_mark list \<times> rate_limiter" where
  "rate_op_step cid (TryAcquire draw i) now rl =
     (let (r, rl') = try_acquire draw now i rl in
      (if i = cid \<and> r = Ok () then [Granted now (rl_config rl)] else [], rl'))"
| "rate_op_step cid (CheckLimit draw i) now rl = ([], snd (check_rate_limit draw now i rl))"
| "rate_op_step cid (Success i) now rl = ([], record_success now i rl)"
| "rate_op_step cid (Failure draw i kind) now rl = ([], snd (record_failure draw now i kind rl))"
| "rate_op_step cid (Reset i) now rl = (if i = cid then [Forgotten] else [], rate_reset i rl)"
| "rate_op_step cid (UpdateConfig cfg) now rl = ([], update_config cfg rl)"

fun rate_marks :: "nat \<Rightarrow> (instant \<times> rate_op) list \<Rightarrow> rate_limiter \<Rightarrow> rate_mark list" where
  "rate_marks cid [] rl = []"
| "rate_marks cid ((t, x) # xs) rl =
     (let (ms, rl') = rate_op_step cid x t rl in ms @ rate_marks cid xs rl')"

fun ascending :: "instant \<Rightarrow> (instant \<times> 'e) list \<Rightarrow> bool" where
  "ascending now [] = True"
| "ascending now ((t, _) # xs) = (now \<le> t \<and> ascending t xs)"

text \<open>
  Every permission comes at least the shortest interval of its configuration after the one before it,
  the first after \<open>l\<close>; a reset forgets the one before.
\<close>

fun spaced :: "instant option \<Rightarrow> rate_mark list \<Rightarrow> bool" where
  "spaced l [] = True"
| "spaced l (Granted t cfg # ms) =
     ((case l of Some u \<Rightarrow> millis (floor_ms cfg) \<le> t - u | None \<Rightarrow> True) \<and> spaced (Some t) ms)"
| "spaced l (Forgotten # ms) = spaced None ms"

text \<open>The last permission for \<open>cid\<close> is not after the last request on record, which is not in the future.\<close>

definition request_after :: "nat \<Rightarrow> instant \<Rightarrow> instant option \<Rightarrow> rate_limiter \<Rightarrow> bool" where
  "request_after cid now l rl \<longleftrightarrow>
     (case l of
        None \<Rightarrow> True
      | Some u \<Rightarrow> (\<exists>s v. rl_states rl cid = Some s \<and> last_request_at s = Some v \<and> u \<le> v \<and> v \<le> now))"

lemma try_acquire_spaced:
  assumes "request_after cid now l rl" "now \<le> t" "try_acquire draw t i rl = (r, rl')"
  shows "request_after cid t (if i = cid \<and> r = Ok () then Some t else l) rl' \<and>
    (i = cid \<and> r = Ok () \<longrightarrow> (case l of Some u \<Rightarrow> millis (floor_ms (rl_config rl)) \<le> t - u | None \<Rightarrow> True))"
proof -
  obtain r' s where c: "rate_check (rl_config rl) (calculate_interval (rl_config rl) draw) t
      (state_of t i rl) = (r', s)" by force
  show ?thesis
  proof (cases r')
    case (Inl e)
    then show ?thesis
      using assms c rate_check_keeps [OF c]
      by (auto simp: try_acquire_def Let_def request_after_def state_of_def split: option.splits)
  next
    case (Inr u)
    then show ?thesis
      using assms c rate_check_OkD [of _ _ _ _ u s] interval_bounds [of "rl_config rl" draw]
      by (fastforce simp: try_acquire_def Let_def request_after_def state_of_def split: option.splits)
  qed
qed

lemma rate_op_step_spaced:
  assumes "request_after cid now l rl" "now \<le> t" "rate_op_step cid x t rl = (ms, rl')"
  shows "\<exists>l'. request_after cid t l' rl' \<and> (\<forall>rest. spaced l' rest \<longrightarrow> spaced l (ms @ rest))"
proof (cases x)
  case (TryAcquire draw i)
  obtain r rl1 where a: "try_acquire draw t i rl = (r, rl1)" by force
  show ?thesis
    using try_acquire_spaced [OF assms(1,2) a] assms(3) a TryAcquire
    by (intro exI [of _ "if i = cid \<and> r = Ok () then Some t else l"]) auto
next
  case (CheckLimit draw i)
  obtain r s where c: "rate_check (rl_config rl) (calculate_interval (rl_config rl) draw) t
      (state_of t i rl) = (r, s)" by force
  then show ?thesis
    using assms CheckLimit rate_check_keeps [OF c]
    by (intro exI [of _ l])
      (auto simp: check_rate_limit_def Let_def request_after_def state_of_def split: option.splits)
next
  case (Reset i)
  then show ?thesis using assms
    by (intro exI [of _ "if i = cid then None else l"])
      (auto simp: rate_reset_def request_after_def split: option.splits)
next
  case (UpdateConfig cfg)
  then show ?thesis using assms
    by (intro exI [of _ l]) (auto simp: update_config_def request_after_def split: option.splits)
qed (use assms in \<open>auto simp: record_success_def record_failure_def Let_def request_after_def
      state_of_def split: option.splits intro!: exI [of _ l]\<close>)

lemma marks_spaced:
  "request_after cid now l rl \<Longrightarrow> ascending now xs \<Longrightarrow> spaced l (rate_marks cid xs rl)"
proof (induction xs arbitrary: now l rl)
  case (Cons x xs)
  obtain t y where x: "x = (t, y)" by force
  obtain ms rl' where s: "rate_op_step cid y t rl = (ms, rl')" by force
  have t: "now \<le> t" "ascending t xs" using Cons.prems(2) by (simp_all add: x)
  then show ?case
    using rate_op_step_spaced [OF Cons.prems(1) t(1) s] Cons.IH by (auto simp: x s)
qed simp

text \<open>
  C27. Requests on one credential keep their distance. Over any sequence of calls of the limiter's
  operations at times that do not go back, on any number of credentials, with failures, successes,
  checks, resets and changes of the configuration in between and whatever the random numbers are, a
  permission to send comes at least the smaller of the minimal and the maximal interval of the
  configuration then in force after the permission before it on the same credential, unless the
  credential was reset between the two. The minimal interval itself is kept only if it is not set
  above the maximal one (\<open>minimum_capped\<close>).
\<close>
theorem grants_keep_distance:
  assumes "ascending 0 xs"
  shows "spaced None (rate_marks cid xs (rate_limiter_new cfg))"
  using marks_spaced [of cid 0 None "rate_limiter_new cfg" xs] assms by (simp add: request_after_def)

definition sample_rate_config :: rate_limit_config where
  "sample_rate_config = \<lparr>daily_max_requests = 500, min_interval_ms = 1000, max_interval_ms = 2000,
     jitter_of = (\<lambda>b. b div 2), backoff_max_ms = 300000, grown = (\<lambda>n. 30000 * n)\<rparr>"

lemma grants_keep_distance_witness:
  "spaced None
     (rate_marks 1 [(0, TryAcquire 3 1), (millis 500, TryAcquire 1500 1), (millis 700, TryAcquire 0 2),
        (millis 1600, TryAcquire 0 1), (millis 1700, Reset 1), (millis 1800, TryAcquire 0 1)]
       (rate_limiter_new sample_rate_config))"
  using grants_keep_distance [of "[(0, TryAcquire 3 1),
      (millis 500, TryAcquire 1500 1), (millis 700, TryAcquire 0 2), (millis 1600, TryAcquire 0 1),
      (millis 1700, Reset 1), (millis 1800, TryAcquire 0 1)]" 1 sample_rate_config]
  by (simp add: millis_def)

text \<open>
  A minimal interval above the maximal one is not kept: with 5000 ms set, as the configuration allows,
  and the fixed maximum of 2000 ms, the second permission comes after two seconds.
\<close>

lemma minimum_capped:
  "rate_marks 1 [(0, TryAcquire 0 1), (millis 2000, TryAcquire 0 1)]
     (rate_limiter_new (sample_rate_config\<lparr>min_interval_ms := 5000\<rparr>)) =
   [Granted 0 (sample_rate_config\<lparr>min_interval_ms := 5000\<rparr>),
    Granted (millis 2000) (sample_rate_config\<lparr>min_interval_ms := 5000\<rparr>)]"
  by (simp add: sample_rate_config_def rate_limiter_new_def try_acquire_def state_of_def rate_state_default_def
      rate_check_def calculate_interval_def Let_def secs_def millis_def)

end
