(* ===== verification/Text.thy ===== *)
theory Text
  imports Prelude
begin

text \<open>
  The functions of Rust's \<open>str\<close> that several components call, on strings as lists of UTF-8 bytes:
  searching, splitting, trimming, ASCII case, and parsing of decimal numbers; and of \<open>std::net\<close> the
  parser of IP addresses.
\<close>

subsection \<open>Characters\<close>

definition code :: "char \<Rightarrow> nat" where "code c = of_char c"

definition ascii_lower :: "char \<Rightarrow> char" where
  "ascii_lower c = (if 65 \<le> code c \<and> code c \<le> 90 then char_of (code c + 32) else c)"

definition to_ascii_lowercase :: "string \<Rightarrow> string" where
  "to_ascii_lowercase s = map ascii_lower s"

definition eq_ignore_ascii_case :: "string \<Rightarrow> string \<Rightarrow> bool" where
  "eq_ignore_ascii_case a b \<longleftrightarrow> to_ascii_lowercase a = to_ascii_lowercase b"

definition digit_value :: "nat \<Rightarrow> char \<Rightarrow> nat option" where
  "digit_value radix c =
     (let n = code c;
          v = (if 48 \<le> n \<and> n \<le> 57 then Some (n - 48)
               else if 97 \<le> n \<and> n \<le> 122 then Some (n - 87)
               else if 65 \<le> n \<and> n \<le> 90 then Some (n - 55)
               else None) in
      (case v of Some d \<Rightarrow> if d < radix then Some d else None | None \<Rightarrow> None))"

subsection \<open>Searching and splitting\<close>

fun starts_with :: "'a list \<Rightarrow> 'a list \<Rightarrow> bool" where
  "starts_with [] s = True"
| "starts_with (p # ps) [] = False"
| "starts_with (p # ps) (c # s) = (p = c \<and> starts_with ps s)"

text \<open>\<open>s.find(pat)\<close>: the index of the first occurrence.\<close>

fun find_sub :: "'a list \<Rightarrow> 'a list \<Rightarrow> nat option" where
  "find_sub pat [] = (if pat = [] then Some 0 else None)"
| "find_sub pat (c # s) = (if starts_with pat (c # s) then Some 0 else map_option Suc (find_sub pat s))"

definition contains :: "string \<Rightarrow> string \<Rightarrow> bool" where
  "contains pat s \<longleftrightarrow> find_sub pat s \<noteq> None"

definition split_once :: "string \<Rightarrow> string \<Rightarrow> (string \<times> string) option" where
  "split_once pat s = map_option (\<lambda>i. (take i s, drop (i + length pat) s)) (find_sub pat s)"

definition split_at_char :: "char \<Rightarrow> string \<Rightarrow> (string \<times> string) option" where
  "split_at_char c s =
     (if c \<in> set s then Some (takeWhile (\<lambda>x. x \<noteq> c) s, drop 1 (dropWhile (\<lambda>x. x \<noteq> c) s)) else None)"

text \<open>\<open>rsplit_once\<close>: around the last occurrence.\<close>

definition rsplit_at_char :: "char \<Rightarrow> string \<Rightarrow> (string \<times> string) option" where
  "rsplit_at_char c s = map_option (\<lambda>(b, a). (rev a, rev b)) (split_at_char c (rev s))"

text \<open>The last piece of \<open>s.split(c)\<close>, and the first.\<close>

definition last_piece :: "char \<Rightarrow> string \<Rightarrow> string" where
  "last_piece c s = rev (takeWhile (\<lambda>x. x \<noteq> c) (rev s))"

definition first_piece :: "char set \<Rightarrow> string \<Rightarrow> string" where
  "first_piece cs s = takeWhile (\<lambda>x. x \<notin> cs) s"

subsection \<open>Trimming\<close>

text \<open>
  How many bytes the white-space character at the start takes, 0 if there is none: the ASCII ones,
  U+0085, U+00A0, U+1680, U+2000 to U+200A, U+2028, U+2029, U+202F, U+205F and U+3000.
\<close>

fun ws_len :: "nat list \<Rightarrow> nat" where
  "ws_len (a # r) =
     (if a = 32 \<or> 9 \<le> a \<and> a \<le> 13 then 1
      else if a = 194 then (case r of b # _ \<Rightarrow> if b = 133 \<or> b = 160 then 2 else 0 | [] \<Rightarrow> 0)
      else if a = 225 then (case r of b # c # _ \<Rightarrow> if b = 154 \<and> c = 128 then 3 else 0 | _ \<Rightarrow> 0)
      else if a = 226 then
        (case r of b # c # _ \<Rightarrow>
           if b = 128 \<and> (128 \<le> c \<and> c \<le> 138 \<or> c = 168 \<or> c = 169 \<or> c = 175) \<or> b = 129 \<and> c = 159
           then 3 else 0
         | _ \<Rightarrow> 0)
      else if a = 227 then (case r of b # c # _ \<Rightarrow> if b = 128 \<and> c = 128 then 3 else 0 | _ \<Rightarrow> 0)
      else 0)"
| "ws_len [] = 0"

function trim_start :: "string \<Rightarrow> string" where
  "trim_start s =
     (let n = ws_len (map code s) in if s = [] \<or> n = 0 then s else trim_start (drop n s))"
  by pat_completeness auto
termination by (relation "measure length") (auto simp: Let_def)

declare trim_start.simps [simp del]

text \<open>The white-space character at the end; a UTF-8 sequence is recognised from its last bytes.\<close>

definition ws_suffix_len :: "nat list \<Rightarrow> nat" where
  "ws_suffix_len bs =
     (let n = length bs in
      if 1 \<le> n \<and> ws_len (drop (n - 1) bs) = 1 then 1
      else if 2 \<le> n \<and> ws_len (drop (n - 2) bs) = 2 then 2
      else if 3 \<le> n \<and> ws_len (drop (n - 3) bs) = 3 then 3
      else 0)"

function trim_end :: "string \<Rightarrow> string" where
  "trim_end s =
     (let n = ws_suffix_len (map code s) in
      if s = [] \<or> n = 0 then s else trim_end (take (length s - n) s))"
  by pat_completeness auto
termination by (relation "measure length") (auto simp: Let_def)

declare trim_end.simps [simp del]

definition trim :: "string \<Rightarrow> string" where
  "trim s = trim_end (trim_start s)"

subsection \<open>Numbers\<close>

text \<open>\<open>s.parse::<uN>()\<close>: an optional plus sign and decimal digits, the value at most \<open>mx\<close>.\<close>

fun digits_value :: "nat \<Rightarrow> string \<Rightarrow> nat option" where
  "digits_value acc [] = Some acc"
| "digits_value acc (c # s) =
     (case digit_value 10 c of None \<Rightarrow> None | Some d \<Rightarrow> digits_value (acc * 10 + d) s)"

definition parse_unsigned :: "nat \<Rightarrow> string \<Rightarrow> nat option" where
  "parse_unsigned mx s =
     (let ds = (case s of c # r \<Rightarrow> if c = CHR ''+'' then r else s | [] \<Rightarrow> []) in
      if ds = [] then None
      else (case digits_value 0 ds of
              Some n \<Rightarrow> if n \<le> mx then Some n else None
            | None \<Rightarrow> None))"

subsection \<open>IP addresses\<close>

datatype ip_addr = V4 u32 | V6 "128 word"

text \<open>
  The parser of \<open>std::net\<close>. \<open>read_number\<close> reads at most \<open>max_digits\<close> digits and fails on one more;
  what it returns is the number and the rest of the input.
\<close>

definition leading_digits :: "nat \<Rightarrow> string \<Rightarrow> string" where
  "leading_digits radix s = takeWhile (\<lambda>c. digit_value radix c \<noteq> None) s"

definition number_value :: "nat \<Rightarrow> string \<Rightarrow> nat" where
  "number_value radix ds = foldl (\<lambda>acc c. acc * radix + the (digit_value radix c)) 0 ds"

definition read_number :: "nat \<Rightarrow> nat \<Rightarrow> nat \<Rightarrow> bool \<Rightarrow> string \<Rightarrow> (nat \<times> string) option" where
  "read_number radix max_digits mx allow_zero_prefix s =
     (let ds = leading_digits radix s; n = number_value radix ds in
      if ds = [] \<or> length ds > max_digits then None
      else if \<not> allow_zero_prefix \<and> hd ds = CHR ''0'' \<and> length ds > 1 then None
      else if n > mx then None
      else Some (n, drop (length ds) s))"

definition read_char :: "char \<Rightarrow> string \<Rightarrow> string option" where
  "read_char c s = (case s of x # r \<Rightarrow> if x = c then Some r else None | [] \<Rightarrow> None)"

text \<open>\<open>read_separator\<close>: the separator is required before every element but the first.\<close>

definition read_separator :: "char \<Rightarrow> nat \<Rightarrow> (string \<Rightarrow> ('a \<times> string) option) \<Rightarrow> string \<Rightarrow> ('a \<times> string) option" where
  "read_separator sep i p s =
     (if i > 0 then Option.bind (read_char sep s) p else p s)"

definition read_ipv4 :: "string \<Rightarrow> (nat list \<times> string) option" where
  "read_ipv4 s0 =
     (let part = read_number 10 3 255 False in
      Option.bind (read_separator CHR ''.'' 0 part s0) (\<lambda>(a, s1).
      Option.bind (read_separator CHR ''.'' 1 part s1) (\<lambda>(b, s2).
      Option.bind (read_separator CHR ''.'' 2 part s2) (\<lambda>(c, s3).
      Option.bind (read_separator CHR ''.'' 3 part s3) (\<lambda>(d, s4).
        Some ([a, b, c, d], s4))))))"

text \<open>\<open>read_groups\<close> for \<open>k\<close> groups that are left, \<open>i\<close> being read: the groups, whether they end in IPv4.\<close>

fun read_groups :: "nat \<Rightarrow> nat \<Rightarrow> string \<Rightarrow> nat list \<times> bool \<times> string" where
  "read_groups 0 i s = ([], False, s)"
| "read_groups (Suc k) i s =
     (case (if k > 0 then read_separator CHR '':'' i read_ipv4 s else None) of
        Some (o4, r) \<Rightarrow> ([o4 ! 0 * 256 + o4 ! 1, o4 ! 2 * 256 + o4 ! 3], True, r)
      | None \<Rightarrow>
          (case read_separator CHR '':'' i (read_number 16 4 65535 True) s of
             None \<Rightarrow> ([], False, s)
           | Some (g, r) \<Rightarrow> (let (gs, v4, r') = read_groups k (i + 1) r in (g # gs, v4, r'))))"

definition read_ipv6 :: "string \<Rightarrow> (nat list \<times> string) option" where
  "read_ipv6 s =
     (let (head, head_ipv4, r) = read_groups 8 0 s in
      if length head = 8 then Some (head, r)
      else if head_ipv4 then None
      else Option.bind (Option.bind (read_char CHR '':'' r) (read_char CHR '':'')) (\<lambda>r2.
        let (tail, _, r3) = read_groups (8 - (length head + 1)) 0 r2 in
        Some (head @ replicate (8 - length head - length tail) 0 @ tail, r3)))"

definition of_octets :: "nat list \<Rightarrow> u32" where
  "of_octets os = word_of_int (foldl (\<lambda>acc x. acc * 256 + int x) 0 os)"

definition of_segments :: "nat list \<Rightarrow> 128 word" where
  "of_segments gs = word_of_int (foldl (\<lambda>acc x. acc * 65536 + int x) 0 gs)"

definition parse_ip :: "string \<Rightarrow> ip_addr option" where
  "parse_ip s =
     (case read_ipv4 s of
        Some (os, r) \<Rightarrow> if r = [] then Some (V4 (of_octets os)) else None
      | None \<Rightarrow>
          (case read_ipv6 s of
             Some (gs, r) \<Rightarrow> if r = [] then Some (V6 (of_segments gs)) else None
           | None \<Rightarrow> None))"

subsection \<open>Facts\<close>

lemma starts_with_iff: "starts_with p s \<longleftrightarrow> (\<exists>r. s = p @ r)"
  by (induction p s rule: starts_with.induct) auto

lemma starts_with_append [simp]: "starts_with p (p @ r)"
  by (simp add: starts_with_iff)

lemma find_sub_SomeD:
  "find_sub pat s = Some i \<Longrightarrow> \<exists>r. s = take i s @ pat @ r \<and> i + length pat \<le> length s"
proof (induction s arbitrary: i)
  case (Cons c s)
  show ?case
  proof (cases "starts_with pat (c # s)")
    case True
    then obtain r where r: "c # s = pat @ r" by (auto simp: starts_with_iff)
    moreover have "i = 0" using Cons.prems True by simp
    ultimately show ?thesis by (metis append_Nil le_add1 length_append plus_nat.add_0 take0)
  next
    case False
    then obtain j where j: "i = Suc j" "find_sub pat s = Some j" using Cons.prems by auto
    then show ?thesis using Cons.IH [of j] by auto
  qed
qed (auto split: if_splits)

lemma find_sub_None: "find_sub pat s = None \<longleftrightarrow> \<not> (\<exists>a b. s = a @ pat @ b)"
proof (induction s)
  case (Cons c s)
  have "(\<exists>a b. c # s = a @ pat @ b) \<longleftrightarrow> starts_with pat (c # s) \<or> (\<exists>a b. s = a @ pat @ b)"
    by (auto simp: starts_with_iff Cons_eq_append_conv)
  then show ?case using Cons.IH by auto
qed auto

lemma find_sub_least:
  "find_sub pat s = Some i \<Longrightarrow> j < i \<Longrightarrow> \<not> starts_with pat (drop j s)"
proof (induction s arbitrary: i j)
  case (Cons c s)
  then show ?case by (cases j) (auto split: if_splits)
qed (auto split: if_splits)

lemma split_at_char_append:
  "c \<notin> set a \<Longrightarrow> split_at_char c (a @ c # b) = Some (a, b)"
  by (induction a) (auto simp: split_at_char_def)

lemma split_at_char_None: "split_at_char c s = None \<longleftrightarrow> c \<notin> set s"
  by (simp add: split_at_char_def)

lemma split_at_char_SomeD:
  assumes "split_at_char c s = Some (a, b)"
  shows "s = a @ c # b \<and> c \<notin> set a"
proof -
  have "c \<in> set s" using assms split_at_char_None [of c s] by auto
  then obtain p q where s: "s = p @ c # q" "c \<notin> set p" by (meson split_list_first)
  then show ?thesis using assms split_at_char_append [OF s(2), of q] by auto
qed

lemma rsplit_at_char_append:
  "c \<notin> set b \<Longrightarrow> rsplit_at_char c (a @ c # b) = Some (a, b)"
  using split_at_char_append [of c "rev b" "rev a"] by (simp add: rsplit_at_char_def)

lemma rsplit_at_char_None: "rsplit_at_char c s = None \<longleftrightarrow> c \<notin> set s"
  by (simp add: rsplit_at_char_def split_at_char_def)

lemma trim_id:
  "ws_len (map code s) = 0 \<Longrightarrow> ws_suffix_len (map code s) = 0 \<Longrightarrow> trim s = s"
  by (simp add: trim_def trim_start.simps [of s] trim_end.simps [of s])

lemma last_piece_append: "c \<notin> set s \<Longrightarrow> last_piece c (pre @ c # s) = s"
  by (auto simp: last_piece_def takeWhile_append)

lemma last_piece_whole: "c \<notin> set s \<Longrightarrow> last_piece c s = s"
proof -
  assume "c \<notin> set s"
  then have "takeWhile (\<lambda>x. x \<noteq> c) (rev s) = rev s" by (subst takeWhile_eq_all_conv) auto
  then show ?thesis by (simp only: last_piece_def rev_rev_ident)
qed

subsection \<open>Character boundaries and pieces\<close>

text \<open>\<open>is_char_boundary\<close>: a byte \<open>10xxxxxx\<close> continues a character.\<close>

definition is_continuation :: "char \<Rightarrow> bool" where
  "is_continuation c \<longleftrightarrow> 128 \<le> code c \<and> code c < 192"

definition is_char_boundary :: "string \<Rightarrow> nat \<Rightarrow> bool" where
  "is_char_boundary s i \<longleftrightarrow> i = 0 \<or> i = length s \<or> i < length s \<and> \<not> is_continuation (s ! i)"

text \<open>\<open>s.split(c)\<close>.\<close>

fun split_char :: "char \<Rightarrow> string \<Rightarrow> string list" where
  "split_char c [] = [[]]"
| "split_char c (x # s) =
     (if x = c then [] # split_char c s
      else case split_char c s of p # ps \<Rightarrow> (x # p) # ps | [] \<Rightarrow> [[x]])"

text \<open>The decimal digits of a number, as \<open>Display\<close> writes it.\<close>

fun show_nat :: "nat \<Rightarrow> string" where
  "show_nat n = (if n < 10 then [char_of (48 + n)] else show_nat (n div 10) @ [char_of (48 + n mod 10)])"

declare show_nat.simps [simp del]

lemma code_char_of [simp]: "code (char_of n) = n mod 256"
  by (simp add: code_def)

lemma digit_value_char_of: "d < 10 \<Longrightarrow> digit_value 10 (char_of (48 + d)) = Some d"
  by (simp add: digit_value_def Let_def)

lemma number_value_snoc:
  "number_value r (ds @ [c]) = number_value r ds * r + the (digit_value r c)"
  by (simp add: number_value_def)

lemma number_value_show_nat: "number_value 10 (show_nat n) = n"
proof (induction n rule: show_nat.induct)
  case (1 n)
  show ?case
  proof (cases "n < 10")
    case True
    then show ?thesis by (simp add: show_nat.simps [of n] number_value_def digit_value_char_of)
  next
    case False
    then show ?thesis using 1 [OF False]
      by (simp add: show_nat.simps [of n] number_value_snoc digit_value_char_of)
  qed
qed

lemma show_nat_inject [simp]: "show_nat a = show_nat b \<longleftrightarrow> a = b"
  by (metis number_value_show_nat)

end
