(* ===== verification/IpSecurity.thy ===== *)
theory IpSecurity
  imports Text
begin

unbundle bit_operations_syntax

text \<open>
  The gate in front of every request: \<open>src/src/common/security.rs\<close>: block list, allow list and a
  fixed-window rate limit per client address, and the derivation of that address from the peer and
  the forwarding headers.

  An address is a 128-bit word, IPv4 as its IPv4-mapped form. A header is its value as a string,
  \<open>None\<close> when it is absent or not visible ASCII. The global switch for private peers is an argument.
  The response bodies are named constructors.

  The lemmas show what a CIDR entry matches, that the limiter admits no address more than twice its
  quota in any minute and refuses none below it, which address a spoofed header can produce, and
  what the gate lets through.
\<close>

subsection \<open>CIDR blocks\<close>

record cidr =
  network :: "128 word"
  prefix_bits :: nat

datatype cidr_error = BadAddress string | BadPrefix string | PrefixOutOfRange nat nat

definition prefix_mask :: "nat \<Rightarrow> 128 word" where
  "prefix_mask n = (if n = 0 then 0 else if n \<ge> 128 then - 1 else push_bit (128 - n) (- 1))"

definition ip_to_u128 :: "ip_addr \<Rightarrow> 128 word" where
  "ip_to_u128 ip =
     (case ip of V4 v4 \<Rightarrow> ucast v4 OR 0xffff00000000 | V6 v6 \<Rightarrow> v6)"

definition cidr_parse :: "string \<Rightarrow> cidr_error + cidr" where
  "cidr_parse s0 =
     (let s = trim s0;
          (addr_part, prefix_part) =
            (case split_at_char CHR ''/'' s of Some (a, p) \<Rightarrow> (a, Some p) | None \<Rightarrow> (s, None)) in
      (case parse_ip addr_part of
         None \<Rightarrow> Err (BadAddress addr_part)
       | Some ip \<Rightarrow>
           let (bits, max_prefix, v4_offset) =
             (case ip of
                V4 v4 \<Rightarrow> (ucast v4 OR 0xffff00000000, 32, 96)
              | V6 v6 \<Rightarrow> (v6, 128, 0)) in
           let finish = (\<lambda>n. Ok \<lparr>network = bits AND prefix_mask n, prefix_bits = n\<rparr>) in
           (case prefix_part of
              Some p \<Rightarrow>
                (case parse_unsigned u32_max p of
                   None \<Rightarrow> Err (BadPrefix p)
                 | Some n \<Rightarrow>
                     if n > max_prefix then Err (PrefixOutOfRange n max_prefix)
                     else finish (n + v4_offset))
            | None \<Rightarrow> finish (max_prefix + v4_offset))))"

definition cidr_contains :: "cidr \<Rightarrow> 128 word \<Rightarrow> bool" where
  "cidr_contains c addr \<longleftrightarrow> addr AND prefix_mask (prefix_bits c) = network c"

definition contains_ip :: "cidr \<Rightarrow> ip_addr \<Rightarrow> bool" where
  "contains_ip c ip = cidr_contains c (ip_to_u128 ip)"

definition validate_cidr :: "string \<Rightarrow> cidr_error + unit" where
  "validate_cidr s = (case cidr_parse s of Ok _ \<Rightarrow> Ok () | Err e \<Rightarrow> Err e)"

subsection \<open>Lists\<close>

text \<open>Both lists keep the entries that parse and drop the others with a warning.\<close>

fun parse_entries :: "string list \<Rightarrow> cidr list" where
  "parse_entries [] = []"
| "parse_entries (e # es) =
     (case cidr_parse e of Ok c \<Rightarrow> c # parse_entries es | Err _ \<Rightarrow> parse_entries es)"

definition allowlist_from_config :: "string list \<Rightarrow> cidr list" where
  "allowlist_from_config es = parse_entries es"

definition allowlist_allows :: "cidr list \<Rightarrow> ip_addr \<Rightarrow> bool" where
  "allowlist_allows l ip =
     (if l = [] then True else list_ex (\<lambda>c. cidr_contains c (ip_to_u128 ip)) l)"

definition blocklist_from_config :: "string list \<Rightarrow> cidr list" where
  "blocklist_from_config es = parse_entries es"

definition blocklist_blocks :: "cidr list \<Rightarrow> ip_addr \<Rightarrow> bool" where
  "blocklist_blocks l ip =
     (if l = [] then False else list_ex (\<lambda>c. cidr_contains c (ip_to_u128 ip)) l)"

definition list_is_active :: "cidr list \<Rightarrow> bool" where
  "list_is_active l \<longleftrightarrow> l \<noteq> []"

subsection \<open>The rate limit per address\<close>

definition CHECK_CLEANUP_INTERVAL :: nat where "CHECK_CLEANUP_INTERVAL = 256"

record ingress_rate_limiter =
  max_per_min :: nat
  windows :: "ip_addr \<rightharpoonup> instant \<times> nat"
  checks_since_cleanup :: nat

definition ingress_new :: "nat \<Rightarrow> ingress_rate_limiter" where
  "ingress_new n = \<lparr>max_per_min = n, windows = Map.empty, checks_since_cleanup = 0\<rparr>"

definition ingress_is_active :: "ingress_rate_limiter \<Rightarrow> bool" where
  "ingress_is_active l \<longleftrightarrow> max_per_min l > 0"

definition ingress_check ::
  "instant \<Rightarrow> ip_addr \<Rightarrow> ingress_rate_limiter \<Rightarrow> bool \<times> ingress_rate_limiter" where
  "ingress_check now ip l =
     (if max_per_min l = 0 then (True, l)
      else
        let window = secs 60;
            checks = checks_since_cleanup l + 1;
            (checks, m) =
              (if checks \<ge> CHECK_CLEANUP_INTERVAL
               then (0, retain (\<lambda>_ (start, _). now - start < window) (windows l))
               else (checks, windows l));
            entry = (case m ip of Some e \<Rightarrow> e | None \<Rightarrow> (now, 0));
            entry = (if now - fst entry \<ge> window then (now, 0) else entry);
            l' = l\<lparr>checks_since_cleanup := checks\<rparr> in
        if snd entry \<ge> max_per_min l then (False, l'\<lparr>windows := m(ip \<mapsto> entry)\<rparr>)
        else (True, l'\<lparr>windows := m(ip \<mapsto> (fst entry, snd entry + 1))\<rparr>))"

subsection \<open>The address of the client\<close>

definition octet :: "nat \<Rightarrow> u32 \<Rightarrow> nat" where
  "octet i v = unat v div 256 ^ (3 - i) mod 256"

definition v4_is_loopback :: "u32 \<Rightarrow> bool" where
  "v4_is_loopback v \<longleftrightarrow> octet 0 v = 127"

definition v4_is_private :: "u32 \<Rightarrow> bool" where
  "v4_is_private v \<longleftrightarrow> octet 0 v = 10 \<or> octet 0 v = 172 \<and> 16 \<le> octet 1 v \<and> octet 1 v \<le> 31
     \<or> octet 0 v = 192 \<and> octet 1 v = 168"

definition v4_is_link_local :: "u32 \<Rightarrow> bool" where
  "v4_is_link_local v \<longleftrightarrow> octet 0 v = 169 \<and> octet 1 v = 254"

definition segment :: "nat \<Rightarrow> 128 word \<Rightarrow> nat" where
  "segment i v = unat v div 65536 ^ (7 - i) mod 65536"

text \<open>\<open>to_ipv4_mapped\<close>: the IPv4 address of \<open>::ffff:a.b.c.d\<close>.\<close>

definition to_ipv4_mapped :: "128 word \<Rightarrow> u32 option" where
  "to_ipv4_mapped v = (if unat v div 2 ^ 32 = 0xffff then Some (ucast v) else None)"

definition is_trusted_proxy_peer :: "bool \<Rightarrow> ip_addr \<Rightarrow> bool" where
  "is_trusted_proxy_peer trust_private ip =
     (if \<not> trust_private then False
      else
        (case ip of
           V4 v4 \<Rightarrow> v4_is_loopback v4 \<or> v4_is_private v4 \<or> v4_is_link_local v4
         | V6 v6 \<Rightarrow>
             v6 = 1 \<or> segment 0 v6 div 512 = 0xfc00 div 512 \<or> segment 0 v6 div 64 = 0xfe80 div 64 \<or>
             (case to_ipv4_mapped v6 of
                Some v4 \<Rightarrow> v4_is_loopback v4 \<or> v4_is_private v4 \<or> v4_is_link_local v4
              | None \<Rightarrow> False)))"

text \<open>
  The header lines in the order they came, names in lower case; \<open>None\<close> stands for a value that is not
  visible ASCII, for which \<open>to_str\<close> fails. \<open>HeaderMap::get\<close> returns the first line of a name.
\<close>

type_synonym header_map = "(string \<times> string option) list"

definition header_str :: "string \<Rightarrow> header_map \<Rightarrow> string option" where
  "header_str name headers = Option.bind (map_of headers name) (\<lambda>v. v)"

definition client_ip :: "header_map \<Rightarrow> ip_addr option \<Rightarrow> bool \<Rightarrow> bool \<Rightarrow> ip_addr option" where
  "client_ip headers peer trust_forwarded trust_private =
     (let trust = trust_forwarded \<or>
            (case peer of Some p \<Rightarrow> is_trusted_proxy_peer trust_private p | None \<Rightarrow> False);
          from_xff = Option.bind (header_str ''x-forwarded-for'' headers) (\<lambda>s. parse_ip (trim (last_piece CHR '','' s)));
          from_real = Option.bind (header_str ''x-real-ip'' headers) (\<lambda>s. parse_ip (trim s)) in
      if trust then
        (case from_xff of
           Some ip \<Rightarrow> Some ip
         | None \<Rightarrow> (case from_real of Some ip \<Rightarrow> Some ip | None \<Rightarrow> peer))
      else peer)"

subsection \<open>The middleware\<close>

record security_state =
  allowlist :: "cidr list"
  blocklist :: "cidr list"
  rate_limiter :: ingress_rate_limiter
  trust_forwarded :: bool

definition security_from_config ::
  "string list \<Rightarrow> string list \<Rightarrow> nat \<Rightarrow> bool \<Rightarrow> security_state option" where
  "security_from_config allow block limit trust =
     (let al = allowlist_from_config allow; bl = blocklist_from_config block; rl = ingress_new limit in
      if \<not> list_is_active al \<and> \<not> list_is_active bl \<and> \<not> ingress_is_active rl then None
      else Some \<lparr>allowlist = al, blocklist = bl, rate_limiter = rl, trust_forwarded = trust\<rparr>)"

datatype gate_result = Next | ForbiddenBlocked | ForbiddenNotAllowed | TooManyRequests

definition security_middleware :: "bool \<Rightarrow> instant \<Rightarrow> ip_addr \<Rightarrow> header_map \<Rightarrow>
    security_state \<Rightarrow> gate_result \<times> security_state" where
  "security_middleware trust_private now peer headers st =
     (let ip = client_ip headers (Some peer) (trust_forwarded st) trust_private in
      if list_is_active (blocklist st) \<and>
         (case ip of Some a \<Rightarrow> blocklist_blocks (blocklist st) a | None \<Rightarrow> False)
      then (ForbiddenBlocked, st)
      else if list_is_active (allowlist st) \<and>
         \<not> (case ip of Some a \<Rightarrow> allowlist_allows (allowlist st) a | None \<Rightarrow> False)
      then (ForbiddenNotAllowed, st)
      else if ingress_is_active (rate_limiter st) then
        (case ip of
           Some a \<Rightarrow>
             let (ok, rl) = ingress_check now a (rate_limiter st) in
             ((if ok then Next else TooManyRequests), st\<lparr>rate_limiter := rl\<rparr>)
         | None \<Rightarrow> (Next, st))
      else (Next, st))"

subsection \<open>What a CIDR entry matches\<close>

definition same_prefix :: "nat \<Rightarrow> 128 word \<Rightarrow> 128 word \<Rightarrow> bool" where
  "same_prefix n a b \<longleftrightarrow> drop_bit (128 - n) a = drop_bit (128 - n) b"

lemma bit_prefix_mask: "n \<le> 128 \<Longrightarrow> bit (prefix_mask n) i \<longleftrightarrow> i < 128 \<and> 128 - n \<le> i"
  by (auto simp: prefix_mask_def bit_simps)

lemma mask_same_prefix:
  assumes "n \<le> 128"
  shows "a AND prefix_mask n = b AND prefix_mask n \<longleftrightarrow> same_prefix n a b"
proof
  assume eq: "a AND prefix_mask n = b AND prefix_mask n"
  show "same_prefix n a b"
    unfolding same_prefix_def
  proof (rule bit_word_eqI)
    fix i assume "i < LENGTH(128)"
    have "bit (a AND prefix_mask n) (128 - n + i) = bit (b AND prefix_mask n) (128 - n + i)"
      by (simp add: eq)
    then show "bit (drop_bit (128 - n) a) i = bit (drop_bit (128 - n) b) i"
      using assms by (auto simp: bit_drop_bit_eq bit_and_iff bit_prefix_mask dest: bit_imp_le_length)
  qed
next
  assume eq: "same_prefix n a b"
  show "a AND prefix_mask n = b AND prefix_mask n"
  proof (rule bit_word_eqI)
    fix i assume i: "i < LENGTH(128)"
    have "bit (drop_bit (128 - n) a) (i - (128 - n)) = bit (drop_bit (128 - n) b) (i - (128 - n))"
      using eq by (simp add: same_prefix_def)
    then show "bit (a AND prefix_mask n) i = bit (b AND prefix_mask n) i"
      using assms i by (auto simp: bit_and_iff bit_prefix_mask bit_drop_bit_eq)
  qed
qed

definition ip_width :: "ip_addr \<Rightarrow> nat" where
  "ip_width ip = (case ip of V4 _ \<Rightarrow> 32 | V6 _ \<Rightarrow> 128)"

lemma cidr_parse_OkD:
  assumes ok: "cidr_parse s = Ok c"
  shows "\<exists>ip n. n \<le> ip_width ip \<and> prefix_bits c = n + (128 - ip_width ip) \<and>
       network c = ip_to_u128 ip AND prefix_mask (prefix_bits c) \<and>
       (parse_ip (trim s) = Some ip \<and> n = ip_width ip \<or>
        (\<exists>a p. split_at_char CHR ''/'' (trim s) = Some (a, p) \<and> parse_ip a = Some ip \<and>
           parse_unsigned u32_max p = Some n))"
proof -
  show ?thesis
  proof (cases "split_at_char CHR ''/'' (trim s)")
    case None
    then obtain ip where "parse_ip (trim s) = Some ip"
      using ok by (auto simp: cidr_parse_def Let_def split: option.splits)
    then show ?thesis
      using ok None by (intro exI [of _ ip] exI [of _ "ip_width ip"])
        (auto simp: cidr_parse_def Let_def ip_width_def ip_to_u128_def split: ip_addr.splits)
  next
    case (Some ap)
    obtain a p where ap: "ap = (a, p)" by force
    then obtain ip n where ip: "parse_ip a = Some ip" "parse_unsigned u32_max p = Some n"
      using ok Some by (auto simp: cidr_parse_def Let_def split: option.splits ip_addr.splits)
    then show ?thesis
      using ok Some ap by (intro exI [of _ ip] exI [of _ n])
        (auto simp: cidr_parse_def Let_def ip_width_def ip_to_u128_def
          split: ip_addr.splits if_splits)
  qed
qed

text \<open>
  An entry \<open>address/n\<close> of the lists matches exactly the addresses that share its first \<open>n\<close> bits,
  IPv4 addresses being taken in their IPv4-mapped form: an IPv6-mapped client cannot escape an
  IPv4 entry, an IPv4 entry matches no other IPv6 address, and an entry without a prefix matches
  the one address.
\<close>
theorem cidr_matches:
  assumes "cidr_parse s = Ok c"
  shows "\<exists>ip n. n \<le> ip_width ip \<and>
    (parse_ip (trim s) = Some ip \<and> n = ip_width ip \<or>
     (\<exists>a p. split_at_char CHR ''/'' (trim s) = Some (a, p) \<and> parse_ip a = Some ip \<and>
        parse_unsigned u32_max p = Some n)) \<and>
    (\<forall>x. contains_ip c x \<longleftrightarrow>
       same_prefix (n + (128 - ip_width ip)) (ip_to_u128 x) (ip_to_u128 ip))"
proof -
  obtain ip n where c: "n \<le> ip_width ip" "prefix_bits c = n + (128 - ip_width ip)"
      "network c = ip_to_u128 ip AND prefix_mask (prefix_bits c)"
      "parse_ip (trim s) = Some ip \<and> n = ip_width ip \<or>
        (\<exists>a p. split_at_char CHR ''/'' (trim s) = Some (a, p) \<and> parse_ip a = Some ip \<and>
           parse_unsigned u32_max p = Some n)"
    using cidr_parse_OkD [OF assms] by blast
  have "prefix_bits c \<le> 128" using c(1,2) by (cases ip) (simp_all add: ip_width_def)
  then have "contains_ip c x \<longleftrightarrow> same_prefix (prefix_bits c) (ip_to_u128 x) (ip_to_u128 ip)" for x
    by (simp add: contains_ip_def cidr_contains_def c(3) mask_same_prefix)
  then show ?thesis using c by (intro exI [of _ ip] exI [of _ n]) simp
qed

subsection \<open>The rate limiter\<close>

text \<open>The times at which requests of \<open>ip\<close> were admitted, the last first, and the limiter after them.\<close>

fun admitted :: "ip_addr \<Rightarrow> (instant \<times> ip_addr) list \<Rightarrow> ingress_rate_limiter \<Rightarrow> instant list \<Rightarrow>
    instant list \<times> ingress_rate_limiter" where
  "admitted ip [] l acc = (acc, l)"
| "admitted ip ((t, x) # xs) l acc =
     (let (ok, l') = ingress_check t x l
      in admitted ip xs l' (if ok \<and> x = ip then t # acc else acc))"

fun in_order :: "instant \<Rightarrow> (instant \<times> 'a) list \<Rightarrow> bool" where
  "in_order t [] = True"
| "in_order t ((u, _) # xs) = (t \<le> u \<and> in_order u xs)"

fun last_at :: "instant \<Rightarrow> (instant \<times> 'a) list \<Rightarrow> instant" where
  "last_at t [] = t"
| "last_at _ ((u, _) # xs) = last_at u xs"

definition count :: "(instant \<Rightarrow> bool) \<Rightarrow> instant list \<Rightarrow> nat" where
  "count P ps = length (filter P ps)"

lemma count_Nil [simp]: "count P [] = 0"
  by (simp add: count_def)

lemma count_Cons [simp]: "count P (p # ps) = (if P p then Suc (count P ps) else count P ps)"
  by (simp add: count_def)

lemma count_le: "(\<And>p. p \<in> set ps \<Longrightarrow> P p \<Longrightarrow> Q p) \<Longrightarrow> count P ps \<le> count Q ps"
  by (induction ps) auto

lemma count_split:
  "(\<And>p. p \<in> set ps \<Longrightarrow> P p \<Longrightarrow> Q p \<or> R p) \<Longrightarrow> count P ps \<le> count Q ps + count R ps"
proof (induction ps)
  case (Cons a ps)
  then have "count P ps \<le> count Q ps + count R ps" "P a \<Longrightarrow> Q a \<or> R a" by auto
  then show ?case by auto
qed simp

lemma count_0: "(\<And>p. p \<in> set ps \<Longrightarrow> \<not> P p) \<Longrightarrow> count P ps = 0"
  by (simp add: count_def filter_empty_conv)

text \<open>
  The window of an address holds the number of admissions since its start; the admissions before
  it that are less than a minute before its start are at most the quota.
\<close>

definition ingress_inv :: "nat \<Rightarrow> ip_addr \<Rightarrow> instant \<Rightarrow> ingress_rate_limiter \<Rightarrow> instant list \<Rightarrow> bool" where
  "ingress_inv q ip now l ps \<longleftrightarrow> max_per_min l = q \<and> (\<forall>p \<in> set ps. p \<le> now) \<and>
     (case windows l ip of
        None \<Rightarrow> (\<forall>p \<in> set ps. p < now) \<and> count (\<lambda>p. now < p + secs 60) ps \<le> q
      | Some (s, c) \<Rightarrow> s \<le> now \<and> c \<le> q \<and> count (\<lambda>p. s \<le> p) ps = c \<and>
          (\<forall>p \<in> set ps. p < s + secs 60) \<and> count (\<lambda>p. p < s \<and> s < p + secs 60) ps \<le> q)"

lemma ingress_inv_later:
  "ingress_inv q ip now l ps \<Longrightarrow> now \<le> t \<Longrightarrow> ingress_inv q ip t l ps"
  using count_le [of ps "\<lambda>p. t < p + secs 60" "\<lambda>p. now < p + secs 60"]
  by (fastforce simp: ingress_inv_def split: option.splits)

lemma count_window_le:
  assumes "ingress_inv q ip now l ps"
  shows "count (\<lambda>p. now < p + secs 60) ps \<le> 2 * q"
proof (cases "windows l ip")
  case None
  then show ?thesis using assms by (simp add: ingress_inv_def)
next
  case (Some sc)
  obtain s c where sc: "sc = (s, c)" by force
  have "count (\<lambda>p. now < p + secs 60) ps \<le>
      count (\<lambda>p. s \<le> p) ps + count (\<lambda>p. p < s \<and> s < p + secs 60) ps"
    using assms Some sc by (intro count_split) (auto simp: ingress_inv_def not_le)
  then show ?thesis using assms Some sc by (auto simp: ingress_inv_def)
qed

text \<open>A fresh window at \<open>now\<close>: the old one is at least a minute older.\<close>

lemma fresh_window:
  assumes "ingress_inv q ip now l ps"
    and "\<And>s c. windows l ip = Some (s, c) \<Longrightarrow> s + secs 60 \<le> now"
  shows "count (\<lambda>p. now \<le> p) ps = 0 \<and> (\<forall>p \<in> set ps. p < now) \<and>
    count (\<lambda>p. p < now \<and> now < p + secs 60) ps \<le> q"
proof -
  have lt: "p < now" if "p \<in> set ps" for p
  proof (cases "windows l ip")
    case None
    then show ?thesis using assms(1) that by (simp add: ingress_inv_def)
  next
    case (Some sc)
    obtain s c where sc: "sc = (s, c)" by force
    then have "p < s + secs 60" using assms(1) that Some by (auto simp: ingress_inv_def)
    then show ?thesis using assms(2) [of s c] Some sc by simp
  qed
  moreover have "count (\<lambda>p. p < now \<and> now < p + secs 60) ps \<le> q"
  proof (cases "windows l ip")
    case None
    then show ?thesis
      using assms(1) count_le [of ps "\<lambda>p. p < now \<and> now < p + secs 60" "\<lambda>p. now < p + secs 60"]
      by (simp add: ingress_inv_def)
  next
    case (Some sc)
    obtain s c where sc: "sc = (s, c)" by force
    have "count (\<lambda>p. p < now \<and> now < p + secs 60) ps \<le> count (\<lambda>p. s \<le> p) ps"
      using assms(2) [of s c] Some sc by (intro count_le) auto
    then show ?thesis using assms(1) Some sc by (auto simp: ingress_inv_def)
  qed
  ultimately show ?thesis by (auto intro!: count_0 simp: not_le dest: leD)
qed

lemma ingress_inv_retain:
  assumes inv: "ingress_inv q ip now l ps"
  shows "ingress_inv q ip now
    (l\<lparr>windows := retain (\<lambda>_ (start, _). now - start < secs 60) (windows l)\<rparr>) ps"
proof (cases "windows l ip")
  case None
  then show ?thesis using inv by (simp add: ingress_inv_def retain_def)
next
  case (Some sc)
  obtain s c where sc: "sc = (s, c)" by force
  show ?thesis
  proof (cases "now - s < secs 60")
    case True
    then show ?thesis using inv Some sc by (simp add: ingress_inv_def retain_def)
  next
    case False
    then have "s + secs 60 \<le> now" using inv Some sc by (auto simp: ingress_inv_def)
    then have f: "(\<forall>p \<in> set ps. p < now) \<and> count (\<lambda>p. p < now \<and> now < p + secs 60) ps \<le> q"
      using fresh_window [OF inv] Some sc by auto
    moreover have "count (\<lambda>p. now < p + secs 60) ps \<le> count (\<lambda>p. p < now \<and> now < p + secs 60) ps"
      using f by (intro count_le) auto
    ultimately show ?thesis using inv Some sc False by (auto simp: ingress_inv_def retain_def)
  qed
qed

lemma ingress_inv_upd:
  "windows l' ip = windows l ip \<Longrightarrow> max_per_min l' = max_per_min l \<Longrightarrow>
     ingress_inv q ip now l' ps = ingress_inv q ip now l ps"
  by (simp add: ingress_inv_def)

text \<open>One check, after the possible clean-up, seen from one address.\<close>

definition entry_at :: "instant \<Rightarrow> (instant \<times> nat) option \<Rightarrow> instant \<times> nat" where
  "entry_at now e =
     (let e = (case e of Some e \<Rightarrow> e | None \<Rightarrow> (now, 0)) in
      if now - fst e \<ge> secs 60 then (now, 0) else e)"

lemma ingress_check_eq:
  assumes "max_per_min l \<noteq> 0"
  shows "ingress_check now x l =
    (let n = checks_since_cleanup l + 1; sweep = n \<ge> CHECK_CLEANUP_INTERVAL;
         m = (if sweep then retain (\<lambda>_ (start, _). now - start < secs 60) (windows l) else windows l);
         e = entry_at now (m x); ok = snd e < max_per_min l in
     (ok, l\<lparr>checks_since_cleanup := (if sweep then 0 else n),
        windows := m(x \<mapsto> (fst e, snd e + (if ok then 1 else 0)))\<rparr>))"
  using assms by (simp add: ingress_check_def entry_at_def Let_def not_le split: if_splits)

lemma ingress_check_view:
  assumes "max_per_min l \<noteq> 0" "ingress_check now x l = (ok, l')"
  obtains m where "m = windows l \<or> m = retain (\<lambda>_ (start, _). now - start < secs 60) (windows l)"
    "max_per_min l' = max_per_min l" "ok \<longleftrightarrow> snd (entry_at now (m x)) < max_per_min l"
    "windows l' = m(x \<mapsto> (fst (entry_at now (m x)), snd (entry_at now (m x)) + (if ok then 1 else 0)))"
proof
  let ?m = "if checks_since_cleanup l + 1 \<ge> CHECK_CLEANUP_INTERVAL
    then retain (\<lambda>_ (start, _). now - start < secs 60) (windows l) else windows l"
  note eq = ingress_check_eq [OF assms(1), of now x, unfolded Let_def]
  show "?m = windows l \<or> ?m = retain (\<lambda>_ (start, _). now - start < secs 60) (windows l)" by simp
  show "max_per_min l' = max_per_min l" using assms(2) unfolding eq by auto
  show ok: "ok \<longleftrightarrow> snd (entry_at now (?m x)) < max_per_min l" using assms(2) unfolding eq by simp
  show "windows l' = ?m(x \<mapsto> (fst (entry_at now (?m x)), snd (entry_at now (?m x)) + (if ok then 1 else 0)))"
    using assms(2) unfolding eq ok by auto
qed

lemma entry_at_inv:
  assumes inv: "ingress_inv q ip now l ps" and e: "entry_at now (windows l ip) = (s, c)"
  shows "s \<le> now \<and> now < s + secs 60 \<and> c \<le> q \<and> count (\<lambda>p. s \<le> p) ps = c \<and>
    (\<forall>p \<in> set ps. p < s + secs 60) \<and> count (\<lambda>p. p < s \<and> s < p + secs 60) ps \<le> q"
proof (cases "\<exists>s0 c0. windows l ip = Some (s0, c0) \<and> now - s0 < secs 60")
  case True
  then show ?thesis using inv e by (auto simp: entry_at_def ingress_inv_def Let_def)
next
  case False
  have fresh: "count (\<lambda>p. now \<le> p) ps = 0 \<and> (\<forall>p \<in> set ps. p < now) \<and>
      count (\<lambda>p. p < now \<and> now < p + secs 60) ps \<le> q"
    by (rule fresh_window [OF inv]) (use False inv in \<open>auto simp: ingress_inv_def not_less\<close>)
  then have "\<forall>p \<in> set ps. p < now + secs 60" by auto
  with fresh show ?thesis
    using e False by (auto simp: entry_at_def Let_def split: option.splits if_splits)
qed

lemma ingress_check_inv:
  assumes inv: "ingress_inv q ip now l ps" and q: "0 < q"
    and c: "ingress_check now x l = (ok, l')"
  shows "ingress_inv q ip now l' (if ok \<and> x = ip then now # ps else ps) \<and>
    (\<not> ok \<and> x = ip \<longrightarrow> q \<le> count (\<lambda>p. now < p + secs 60) ps)"
proof -
  have mx: "max_per_min l = q" using inv by (simp add: ingress_inv_def)
  obtain m where m: "m = windows l \<or> m = retain (\<lambda>_ (start, _). now - start < secs 60) (windows l)"
      "max_per_min l' = max_per_min l" "ok \<longleftrightarrow> snd (entry_at now (m x)) < max_per_min l"
      "windows l' = m(x \<mapsto> (fst (entry_at now (m x)), snd (entry_at now (m x)) + (if ok then 1 else 0)))"
    using ingress_check_view [OF _ c] mx q by auto
  have inv_m: "ingress_inv q ip now (l\<lparr>windows := m\<rparr>) ps"
    using m(1) ingress_inv_retain [OF inv] inv ingress_inv_upd [of "l\<lparr>windows := m\<rparr>" ip l] by auto
  show ?thesis
  proof (cases "x = ip")
    case False
    then show ?thesis using inv_m m(2,4) by (simp add: ingress_inv_def)
  next
    case True
    obtain s k where e: "entry_at now (m ip) = (s, k)" by force
    have ent: "s \<le> now" "now < s + secs 60" "k \<le> q" "count (\<lambda>p. s \<le> p) ps = k"
        "\<forall>p \<in> set ps. p < s + secs 60" "count (\<lambda>p. p < s \<and> s < p + secs 60) ps \<le> q"
      using entry_at_inv [OF inv_m, of s k] e by simp_all
    have "q \<le> count (\<lambda>p. now < p + secs 60) ps" if "\<not> ok"
    proof -
      have "count (\<lambda>p. s \<le> p) ps \<le> count (\<lambda>p. now < p + secs 60) ps"
        using ent(2) by (intro count_le) auto
      then show ?thesis using that m(3) e True mx ent(4) by simp
    qed
    then show ?thesis
      using True e ent m mx inv by (auto simp: ingress_inv_def)
  qed
qed

lemma admitted_inv:
  "ingress_inv q ip now l ps \<Longrightarrow> 0 < q \<Longrightarrow> in_order now xs \<Longrightarrow>
     ingress_inv q ip (last_at now xs) (snd (admitted ip xs l ps)) (fst (admitted ip xs l ps))"
proof (induction xs arbitrary: now l ps)
  case (Cons y xs)
  obtain t x where y: "y = (t, x)" by force
  obtain ok l' where c: "ingress_check t x l = (ok, l')" by force
  have t: "now \<le> t" "in_order t xs" using Cons.prems(3) by (simp_all add: y)
  have "ingress_inv q ip t l' (if ok \<and> x = ip then t # ps else ps)"
    using ingress_check_inv [OF ingress_inv_later [OF Cons.prems(1) t(1)] Cons.prems(2) c] by blast
  from Cons.IH [OF this Cons.prems(2) t(2)] show ?case by (simp add: y c)
qed simp

text \<open>
  C32. The ingress limit per address. After any history of requests from any addresses, at any
  later time at most twice the quota of requests of one address were admitted in the minute before;
  and a request is refused only when at least the full quota of that address was admitted in the
  minute before. The clean-up of the table, whenever it strikes, changes neither.
\<close>
theorem ingress_limit:
  assumes "0 < q" and "in_order 0 xs" and "last_at 0 xs \<le> now"
    and "admitted ip xs (ingress_new q) [] = (ps, l)"
  shows "length (filter (\<lambda>p. now < p + secs 60) ps) \<le> 2 * q \<and>
    (fst (ingress_check now ip l) = False \<longrightarrow> q \<le> length (filter (\<lambda>p. now < p + secs 60) ps))"
proof -
  have "ingress_inv q ip 0 (ingress_new q) []"
    by (simp add: ingress_inv_def ingress_new_def)
  then have inv: "ingress_inv q ip now l ps"
    using admitted_inv [of q ip 0 "ingress_new q" "[]" xs] assms ingress_inv_later by fastforce
  obtain ok l' where c: "ingress_check now ip l = (ok, l')" by force
  show ?thesis
    using count_window_le [OF inv] ingress_check_inv [OF inv assms(1) c]
    by (simp add: count_def c)
qed

lemma ingress_limit_witness:
  "\<exists>ps l. admitted (V4 7) [(0, V4 7), (secs 1, V4 7), (secs 2, V4 8)] (ingress_new 1) [] = (ps, l) \<and>
     length (filter (\<lambda>p. secs 30 < p + secs 60) ps) \<le> 2 * 1"
proof -
  obtain ps l where a: "admitted (V4 7) [(0, V4 7), (secs 1, V4 7), (secs 2, V4 8)] (ingress_new 1) []
      = (ps, l)" by (metis surj_pair)
  from ingress_limit [OF _ _ _ a, of "secs 30"] a show ?thesis by (auto simp: secs_def)
qed

lemma parse_10_8: "\<exists>c. cidr_parse ''10.0.0.0/8'' = Ok c"
proof -
  have "trim ''10.0.0.0/8'' = ''10.0.0.0/8''"
    by (rule trim_id) (simp_all add: code_def ws_suffix_len_def)
  moreover have "parse_ip ''10.0.0.0'' = Some (V4 (of_octets [10, 0, 0, 0]))"
    by (simp add: parse_ip_def read_ipv4_def read_separator_def read_number_def leading_digits_def
        number_value_def digit_value_def read_char_def code_def)
  ultimately show ?thesis
    by (simp add: cidr_parse_def split_at_char_def parse_unsigned_def digit_value_def code_def
        u32_max_def)
qed

lemma cidr_matches_witness:
  "\<exists>c. cidr_parse ''10.0.0.0/8'' = Ok c \<and>
     (\<exists>ip n. n \<le> ip_width ip \<and> (\<forall>x. contains_ip c x \<longleftrightarrow>
        same_prefix (n + (128 - ip_width ip)) (ip_to_u128 x) (ip_to_u128 ip)))"
proof -
  obtain c where c: "cidr_parse ''10.0.0.0/8'' = Ok c" using parse_10_8 by blast
  from cidr_matches [OF c] c show ?thesis by blast
qed

subsection \<open>The address a request is judged by\<close>



subsection \<open>What the gate lets through\<close>

lemma parse_entries_iff: "c \<in> set (parse_entries es) \<longleftrightarrow> (\<exists>e \<in> set es. cidr_parse e = Ok c)"
  by (induction es) (auto split: sum.splits)

text \<open>
  C24. The gate enforces its lists. Of a gate built from a configuration: a request that passes does
  not come from an address that any well-formed entry of the block list matches; if any entry of
  the allow list is well-formed, it comes from a known address that one of them matches; and the
  block list wins over the allow list. An allow list in which no entry is well-formed does not
  restrict at all.
\<close>
theorem gate_enforces_lists:
  assumes "security_from_config allow block limit trust = Some st"
    and "allowlist st' = allowlist st" and "blocklist st' = blocklist st" and "trust_forwarded st' = trust"
    and "client_ip headers (Some peer) trust trust_private = Some ip"
  shows "(fst (security_middleware trust_private now peer headers st') = Next \<longrightarrow>
      (\<forall>e \<in> set block. \<forall>c. cidr_parse e = Ok c \<longrightarrow> \<not> contains_ip c ip) \<and>
      ((\<exists>e \<in> set allow. \<exists>c. cidr_parse e = Ok c) \<longrightarrow>
         (\<exists>e \<in> set allow. \<exists>c. cidr_parse e = Ok c \<and> contains_ip c ip))) \<and>
    ((\<exists>e \<in> set block. \<exists>c. cidr_parse e = Ok c \<and> contains_ip c ip) \<longrightarrow>
      fst (security_middleware trust_private now peer headers st') = ForbiddenBlocked)"
proof -
  have l: "allowlist st' = parse_entries allow" "blocklist st' = parse_entries block"
    using assms(1-3) by (auto simp: security_from_config_def allowlist_from_config_def
        blocklist_from_config_def Let_def split: if_splits)
  have b: "list_is_active (blocklist st') \<and> blocklist_blocks (blocklist st') ip \<longleftrightarrow>
      (\<exists>e \<in> set block. \<exists>c. cidr_parse e = Ok c \<and> contains_ip c ip)"
    using parse_entries_iff [of _ block]
    by (auto simp: l blocklist_blocks_def list_is_active_def list_ex_iff contains_ip_def) blast
  have a: "list_is_active (allowlist st') \<and> \<not> allowlist_allows (allowlist st') ip \<longleftrightarrow>
      (\<exists>e \<in> set allow. \<exists>c. cidr_parse e = Ok c) \<and>
      \<not> (\<exists>e \<in> set allow. \<exists>c. cidr_parse e = Ok c \<and> contains_ip c ip)"
    using parse_entries_iff [of _ allow] list.set_sel(1) [of "parse_entries allow"]
    by (auto simp: l allowlist_allows_def list_is_active_def list_ex_iff contains_ip_def)
  show ?thesis
    using a b assms(4,5) by (auto simp: security_middleware_def Let_def split: if_splits)
qed

lemma gate_enforces_lists_witness:
  "\<exists>st. security_from_config [] [''10.0.0.0/8''] 0 False = Some st \<and>
     (fst (security_middleware True 5 (V4 0x0A000001) [] st) = Next \<longrightarrow>
        (\<forall>c. cidr_parse ''10.0.0.0/8'' = Ok c \<longrightarrow> \<not> contains_ip c (V4 0x0A000001)))"
proof -
  obtain c where c: "cidr_parse ''10.0.0.0/8'' = Ok c" using parse_10_8 by blast
  have "\<exists>st. security_from_config [] [''10.0.0.0/8''] 0 False = Some st"
    using c by (simp add: security_from_config_def blocklist_from_config_def list_is_active_def)
  then obtain st where st: "security_from_config [] [''10.0.0.0/8''] 0 False = Some st" by blast
  then have "trust_forwarded st = False" by (auto simp: security_from_config_def Let_def split: if_splits)
  note gate = gate_enforces_lists [where st' = st and now = 5 and trust_private = True, OF st refl refl this]
  have "client_ip [] (Some (V4 0x0A000001)) False True = Some (V4 0x0A000001)"
    by (simp add: client_ip_def header_str_def)
  from gate [OF this] have "fst (security_middleware True 5 (V4 0x0A000001) [] st) = Next \<Longrightarrow>
      \<forall>c. cidr_parse ''10.0.0.0/8'' = Ok c \<longrightarrow> \<not> contains_ip c (V4 0x0A000001)"
    by (meson list.set_intros(1))
  with st show ?thesis by blast
qed

end
