(* ===== verification/Ssrf.thy ===== *)
theory Ssrf
  imports IpSecurity
begin

text \<open>
  The guard against requests to internal addresses: \<open>src/src/common/ssrf.rs\<close>, and
  \<open>split_proxy_credentials\<close> of \<open>src/src/http_client.rs\<close>. Before the gateway calls a URL that an
  administrator or a client supplied, the host is resolved and every address checked.

  Name resolution (\<open>tokio::net::lookup_host\<close>), percent-decoding (the urlencoding crate) and the
  building of the HTTP client (reqwest) are parameters. The names of the address blocks, which the
  source has as strings, are constructors, and so are the error messages.
\<close>

unbundle bit_operations_syntax

subsection \<open>Forbidden addresses\<close>

datatype ssrf_policy = Strict | AdminConfigured

datatype v4_segment =
  ThisNetwork | Private10 | CarrierNat | Loopback127 | LinkLocal | Private172 | Reserved192_0
| Private192_168 | Benchmark | Doc198_51_100 | Doc203_0_113 | MulticastReserved

definition forbidden_segment_v4 :: "u32 \<Rightarrow> v4_segment option" where
  "forbidden_segment_v4 ip =
     (let o0 = octet 0 ip; o1 = octet 1 ip; o2 = octet 2 ip in
      if o0 = 0 then Some ThisNetwork
      else if o0 = 10 then Some Private10
      else if o0 = 100 \<and> o1 AND 0xc0 = 64 then Some CarrierNat
      else if o0 = 127 then Some Loopback127
      else if o0 = 169 \<and> o1 = 254 then Some LinkLocal
      else if o0 = 172 \<and> 16 \<le> o1 \<and> o1 \<le> 31 then Some Private172
      else if o0 = 192 \<and> o1 = 0 \<and> (o2 = 0 \<or> o2 = 2) then Some Reserved192_0
      else if o0 = 192 \<and> o1 = 168 then Some Private192_168
      else if o0 = 198 \<and> (o1 = 18 \<or> o1 = 19) then Some Benchmark
      else if o0 = 198 \<and> o1 = 51 \<and> o2 = 100 then Some Doc198_51_100
      else if o0 = 203 \<and> o1 = 0 \<and> o2 = 113 then Some Doc203_0_113
      else if o0 \<ge> 224 then Some MulticastReserved
      else None)"

definition is_forbidden_ipv4_with :: "u32 \<Rightarrow> ssrf_policy \<Rightarrow> bool" where
  "is_forbidden_ipv4_with ip policy =
     (case forbidden_segment_v4 ip of
        None \<Rightarrow> False
      | Some seg \<Rightarrow> \<not> (policy = AdminConfigured \<and> (seg = Benchmark \<or> seg = Loopback127)))"

definition is_forbidden_ipv4_embedded_with :: "u32 \<Rightarrow> ssrf_policy \<Rightarrow> bool" where
  "is_forbidden_ipv4_embedded_with ip policy =
     (case forbidden_segment_v4 ip of
        None \<Rightarrow> False
      | Some seg \<Rightarrow> \<not> (policy = AdminConfigured \<and> seg = Benchmark))"

text \<open>\<open>Ipv4Addr::new\<close> on the bytes of two segments.\<close>

definition ipv4_new :: "nat \<Rightarrow> nat \<Rightarrow> nat \<Rightarrow> nat \<Rightarrow> u32" where
  "ipv4_new a b c d = of_nat (((a * 256 + b) * 256 + c) * 256 + d)"

definition ipv4_of_segs :: "nat \<Rightarrow> nat \<Rightarrow> u32" where
  "ipv4_of_segs s t = ipv4_new (drop_bit 8 s) (s AND 0xff) (drop_bit 8 t) (t AND 0xff)"

text \<open>\<open>!seg\<close> on a 16-bit segment.\<close>

definition not16 :: "nat \<Rightarrow> nat" where "not16 s = 65535 - s"

definition is_forbidden_ipv6_native :: "128 word \<Rightarrow> ssrf_policy \<Rightarrow> bool" where
  "is_forbidden_ipv6_native ip policy =
     (let seg = (\<lambda>i. segment i ip) in
      if ip = 1 then \<not> policy = AdminConfigured
      else if ip = 0 then True
      else if seg 0 AND 0xfe00 = 0xfc00 then True
      else if seg 0 AND 0xffc0 = 0xfe80 then True
      else if seg 0 AND 0xff00 = 0xff00 then True
      else if seg 0 = 0x0064 \<and> seg 1 = 0xff9b \<and> seg 2 = 0 \<and> seg 3 = 0 \<and> seg 4 = 0 \<and> seg 5 = 0
      then is_forbidden_ipv4_embedded_with (ipv4_of_segs (seg 6) (seg 7)) policy
      else if seg 0 = 0x2002 \<and>
        is_forbidden_ipv4_embedded_with (ipv4_of_segs (seg 1) (seg 2)) policy then True
      else if seg 0 = 0x2001 \<and> seg 1 = 0x0000 \<and>
        is_forbidden_ipv4_embedded_with (ipv4_of_segs (not16 (seg 6)) (not16 (seg 7))) policy then True
      else if (seg 4 = 0x0000 \<or> seg 4 = 0x0200) \<and> seg 5 = 0x5efe \<and>
        is_forbidden_ipv4_embedded_with (ipv4_of_segs (seg 6) (seg 7)) policy then True
      else False)"

text \<open>\<open>Ipv6Addr::to_ipv4\<close>: the IPv4 address of \<open>::a.b.c.d\<close> and \<open>::ffff:a.b.c.d\<close>.\<close>

definition to_ipv4 :: "128 word \<Rightarrow> u32 option" where
  "to_ipv4 v = (if unat v div 2 ^ 32 = 0 \<or> unat v div 2 ^ 32 = 0xffff then Some (ucast v) else None)"

definition is_forbidden_ipv6_with :: "128 word \<Rightarrow> ssrf_policy \<Rightarrow> bool" where
  "is_forbidden_ipv6_with ip policy =
     (if ip = 1 then \<not> policy = AdminConfigured
      else (case to_ipv4 ip of
              Some v4 \<Rightarrow> is_forbidden_ipv4_with v4 policy
            | None \<Rightarrow> is_forbidden_ipv6_native ip policy))"

definition is_forbidden_ip_with :: "ip_addr \<Rightarrow> ssrf_policy \<Rightarrow> bool" where
  "is_forbidden_ip_with ip policy =
     (case ip of V4 v4 \<Rightarrow> is_forbidden_ipv4_with v4 policy | V6 v6 \<Rightarrow> is_forbidden_ipv6_with v6 policy)"

definition is_forbidden_ip :: "ip_addr \<Rightarrow> bool" where
  "is_forbidden_ip ip = is_forbidden_ip_with ip Strict"

subsection \<open>Host and port of a URL\<close>

datatype ssrf_error =
  MissingScheme | UnsupportedScheme string | SchemeNotAllowed string | MissingHost | MissingBracket
| BadPort | Rejected ip_addr "v4_segment option" | DnsFailed | NoAddress | ClientFailed

definition describe_rejection :: "ip_addr \<Rightarrow> ssrf_error" where
  "describe_rejection ip =
     Rejected ip (case ip of
                    V4 v4 \<Rightarrow> forbidden_segment_v4 v4
                  | V6 v6 \<Rightarrow> Option.bind (to_ipv4 v6) forbidden_segment_v4)"

definition default_port :: "string \<Rightarrow> nat option" where
  "default_port scheme =
     (if scheme = ''https'' then Some 443
      else if scheme = ''http'' then Some 80
      else if scheme = ''socks5'' \<or> scheme = ''socks5h'' then Some 1080
      else None)"

definition parse_port :: "string \<Rightarrow> ssrf_error + nat" where
  "parse_port p = (case parse_unsigned 65535 p of Some n \<Rightarrow> Ok n | None \<Rightarrow> Err BadPort)"

definition parse_host_port :: "string \<Rightarrow> ssrf_error + (string \<times> nat)" where
  "parse_host_port url =
     (case split_once ''://'' url of
        None \<Rightarrow> Err MissingScheme
      | Some (scheme0, rest) \<Rightarrow>
     (let scheme = to_ascii_lowercase scheme0 in
      case default_port scheme of
        None \<Rightarrow> Err (UnsupportedScheme scheme)
      | Some dflt \<Rightarrow>
     (let authority = first_piece {CHR ''/'', CHR ''?'', CHR ''#''} rest in
      if authority = [] then Err MissingHost
      else
        let host_port = (case rsplit_at_char CHR ''@'' authority of Some (_, hp) \<Rightarrow> hp | None \<Rightarrow> authority) in
        if starts_with ''['' host_port then
          (case split_at_char CHR '']'' (drop 1 host_port) of
             None \<Rightarrow> Err MissingBracket
           | Some (h, tail) \<Rightarrow>
               (if starts_with '':'' tail
                then bind_ok (parse_port (drop 1 tail)) (\<lambda>port. Ok (to_ascii_lowercase h, port))
                else Ok (to_ascii_lowercase h, dflt)))
        else
          (case rsplit_at_char CHR '':'' host_port of
             Some (h, p) \<Rightarrow>
               bind_ok (parse_port p) (\<lambda>port.
                 if h = [] then Err MissingHost else Ok (to_ascii_lowercase h, port))
           | None \<Rightarrow> Ok (to_ascii_lowercase host_port, dflt)))))"

subsection \<open>Validation\<close>

text \<open>What name resolution returns for a host and a port: \<open>None\<close> if it fails.\<close>

type_synonym dns = "string \<Rightarrow> nat \<Rightarrow> (ip_addr \<times> nat) list option"

definition validate_outbound_url_with :: "dns \<Rightarrow> string \<Rightarrow> bool \<Rightarrow> ssrf_policy \<Rightarrow> ssrf_error + unit" where
  "validate_outbound_url_with lookup url allow_http policy =
     (case split_once ''://'' url of
        None \<Rightarrow> Err MissingScheme
      | Some (s, _) \<Rightarrow>
          let scheme = to_ascii_lowercase s;
              allowed = (if allow_http then [''https'', ''http''] else [''https'']) in
          if scheme \<notin> set allowed then Err (SchemeNotAllowed scheme)
          else bind_ok (parse_host_port url) (\<lambda>(host, port).
            case lookup host port of
              None \<Rightarrow> Ok ()
            | Some addrs \<Rightarrow>
                (case find (\<lambda>sa. is_forbidden_ip_with (fst sa) policy) addrs of
                   Some sa \<Rightarrow> Err (describe_rejection (fst sa))
                 | None \<Rightarrow> Ok ())))"

definition validate_outbound_url :: "dns \<Rightarrow> string \<Rightarrow> bool \<Rightarrow> ssrf_error + unit" where
  "validate_outbound_url lookup url allow_http = validate_outbound_url_with lookup url allow_http Strict"

definition validate_proxy_address :: "dns \<Rightarrow> string \<Rightarrow> ssrf_error + unit" where
  "validate_proxy_address lookup url =
     (case split_once ''://'' url of
        None \<Rightarrow> Err MissingScheme
      | Some (s, _) \<Rightarrow>
          let scheme = to_ascii_lowercase s in
          if scheme \<notin> set [''socks5'', ''socks5h'', ''http'', ''https''] then Err (SchemeNotAllowed scheme)
          else bind_ok (parse_host_port url) (\<lambda>(host, port).
            case lookup host port of
              None \<Rightarrow> Ok ()
            | Some addrs \<Rightarrow>
                (case find (\<lambda>sa. is_forbidden_ip_with (fst sa) AdminConfigured) addrs of
                   Some sa \<Rightarrow> Err (describe_rejection (fst sa))
                 | None \<Rightarrow> Ok ())))"

text \<open>\<open>dec\<close> is the percent-decoder: \<open>None\<close> where it fails.\<close>

definition split_proxy_credentials :: "(string \<Rightarrow> string option) \<Rightarrow> string \<Rightarrow>
    string \<times> string option \<times> string option" where
  "split_proxy_credentials dec raw =
     (let trimmed = trim raw in
      if trimmed = [] \<or> eq_ignore_ascii_case trimmed ''direct'' then (trimmed, None, None)
      else
        let (scheme_prefix, rest) = (case split_once ''://'' trimmed of
              Some (scheme, rest) \<Rightarrow> (scheme @ ''://'', rest) | None \<Rightarrow> ([], trimmed));
            (userinfo, hostport) = (case rsplit_at_char CHR ''@'' rest of
              Some (ui, hp) \<Rightarrow> (Some ui, hp) | None \<Rightarrow> (None, rest));
            clean_url = scheme_prefix @ hostport;
            decode = (\<lambda>s. case dec s of Some c \<Rightarrow> c | None \<Rightarrow> s) in
        (case userinfo of
           None \<Rightarrow> (clean_url, None, None)
         | Some ui \<Rightarrow>
             let (u, p) = (case split_at_char CHR '':'' ui of
                   Some (u, p) \<Rightarrow> (u, Some p) | None \<Rightarrow> (ui, None)) in
             (clean_url, (if u = [] then None else Some (decode u)),
              Option.bind p (\<lambda>p. if p = [] then None else Some (decode p)))))"

definition gate_admin_proxy_url :: "(string \<Rightarrow> string option) \<Rightarrow> dns \<Rightarrow> string \<Rightarrow> ssrf_error + unit" where
  "gate_admin_proxy_url dec lookup raw =
     (let trimmed = trim raw in
      if trimmed = [] \<or> eq_ignore_ascii_case trimmed ''direct'' then Ok ()
      else
        let (clean, _, _) = split_proxy_credentials dec trimmed in
        if clean = [] \<or> eq_ignore_ascii_case clean ''direct'' then Ok ()
        else validate_proxy_address lookup clean)"

text \<open>
  What the builder of the HTTP client is told; \<open>build\<close> says whether the library can make a client
  of it.
\<close>

record client_plan =
  client_timeout :: duration
  follow_redirects :: bool
  pinned_host :: string
  pinned_addrs :: "(ip_addr \<times> nat) list"

definition build_guarded_client :: "(client_plan \<Rightarrow> bool) \<Rightarrow> dns \<Rightarrow> string \<Rightarrow> duration \<Rightarrow> string list \<Rightarrow>
    ssrf_error + client_plan" where
  "build_guarded_client build lookup url timeout allowed_schemes =
     (case split_once ''://'' url of
        None \<Rightarrow> Err MissingScheme
      | Some (s, _) \<Rightarrow>
          let scheme = to_ascii_lowercase s in
          if \<not> list_ex (\<lambda>a. eq_ignore_ascii_case a scheme) allowed_schemes
          then Err (SchemeNotAllowed scheme)
          else bind_ok (parse_host_port url) (\<lambda>(host, port).
            case lookup host port of
              None \<Rightarrow> Err DnsFailed
            | Some addrs \<Rightarrow>
                if addrs = [] then Err NoAddress
                else
                  (case find (\<lambda>sa. is_forbidden_ip (fst sa)) addrs of
                     Some sa \<Rightarrow> Err (Rejected (fst sa) None)
                   | None \<Rightarrow>
                       let c = \<lparr>client_timeout = timeout, follow_redirects = False, pinned_host = host,
                                pinned_addrs = addrs\<rparr> in
                       if build c then Ok c else Err ClientFailed)))"

subsection \<open>The addresses that the strict policy forbids\<close>

text \<open>The blocks of the source's comments: the first address as a number, and the prefix length.\<close>

definition reserved_blocks :: "(nat \<times> nat) list" where
  "reserved_blocks =
     [(0x00000000, 8), (0x0A000000, 8), (0x64400000, 10), (0x7F000000, 8), (0xA9FE0000, 16),
      (0xAC100000, 12), (0xC0000000, 24), (0xC0000200, 24), (0xC0A80000, 16), (0xC6120000, 15),
      (0xC6336400, 24), (0xCB007100, 24), (0xE0000000, 4), (0xF0000000, 4)]"

definition in_block :: "nat \<Rightarrow> nat \<Rightarrow> nat \<times> nat \<Rightarrow> bool" where
  "in_block width n b \<longleftrightarrow> n div 2 ^ (width - snd b) = fst b div 2 ^ (width - snd b)"

definition reserved :: "u32 \<Rightarrow> bool" where
  "reserved a \<longleftrightarrow> (\<exists>b \<in> set reserved_blocks. in_block 32 (unat a) b)"

definition local_blocks6 :: "(nat \<times> nat) list" where
  "local_blocks6 = [(0xfc00 * 2 ^ 112, 7), (0xfe80 * 2 ^ 112, 10), (0xff00 * 2 ^ 112, 8)]"

text \<open>The IPv4 addresses an IPv6 address stands for: mapped and compatible, NAT64, 6to4, Teredo, ISATAP.\<close>

definition embedded :: "128 word \<Rightarrow> u32 list" where
  "embedded v =
     (let n = unat v; low = n mod 2 ^ 32 in
      (if n div 2 ^ 32 = 0 \<or> n div 2 ^ 32 = 0xffff then [of_nat low] else []) @
      (if n div 2 ^ 32 = 0x0064ff9b * 2 ^ 64 then [of_nat low] else []) @
      (if n div 2 ^ 112 = 0x2002 then [of_nat (n div 2 ^ 80 mod 2 ^ 32)] else []) @
      (if n div 2 ^ 96 = 0x20010000 then [of_nat (2 ^ 32 - 1 - low)] else []) @
      (if n div 2 ^ 32 mod 2 ^ 32 = 0x5efe \<or> n div 2 ^ 32 mod 2 ^ 32 = 0x02005efe
       then [of_nat low] else []))"

lemma and_high_bits:
  "(n::nat) < 2 ^ (k + m) \<Longrightarrow> n AND push_bit k (mask m) = n div 2 ^ k * 2 ^ k"
proof -
  assume n: "n < 2 ^ (k + m)"
  then have "take_bit (k + m) n = n" by (simp add: take_bit_nat_eq_self)
  then have "bit n i \<Longrightarrow> i < k + m" for i by (metis bit_take_bit_iff)
  then have "n AND push_bit k (mask m) = push_bit k (drop_bit k n)"
    by (auto simp: bit_eq_iff bit_simps) (metis less_diff_conv2 add.commute)
  then show ?thesis by (simp add: push_bit_eq_mult drop_bit_eq_div)
qed

lemma octet_less [simp]: "octet i v < 256" by (simp add: octet_def)
lemma segment_less [simp]: "segment i v < 65536" by (simp add: segment_def)

lemma octet_and: "octet i v AND 0xc0 = octet i v div 64 * 64"
  using and_high_bits [of "octet i v" 6 2] by (simp add: push_bit_eq_mult mask_eq_exp_minus_1)

lemma segment_and:
  "segment i v AND 0xfe00 = segment i v div 512 * 512"
  "segment i v AND 0xffc0 = segment i v div 64 * 64"
  "segment i v AND 0xff00 = segment i v div 256 * 256"
  using and_high_bits [of "segment i v" 9 7] and_high_bits [of "segment i v" 6 10]
    and_high_bits [of "segment i v" 8 8]
  by (simp_all add: push_bit_eq_mult mask_eq_exp_minus_1)

lemma div_step: "n div k = n div (k * b) * b + n div k mod b" for n k b :: nat
  by (metis div_mult2_eq div_mult_mod_eq)

lemma div_pow: "n div 2 ^ (j + k) = n div 2 ^ j div 2 ^ k" for n :: nat
  by (simp add: power_add div_mult2_eq)

lemma v4_parts:
  "unat v div 2 ^ 24 = octet 0 v" "unat v div 2 ^ 16 = octet 0 v * 256 + octet 1 v"
  "unat v div 2 ^ 8 = (octet 0 v * 256 + octet 1 v) * 256 + octet 2 v" for v :: u32
proof -
  have n: "unat v < 4294967296" by (rule order.strict_trans2 [OF unsigned_less]) simp
  then show a: "unat v div 2 ^ 24 = octet 0 v"
    by (simp add: octet_def less_mult_imp_div_less)
  show b: "unat v div 2 ^ 16 = octet 0 v * 256 + octet 1 v"
    using a div_step [of "unat v" "2 ^ 16" 256] by (simp add: octet_def)
  show "unat v div 2 ^ 8 = (octet 0 v * 256 + octet 1 v) * 256 + octet 2 v"
    using b div_step [of "unat v" "2 ^ 8" 256] by (simp add: octet_def)
qed

lemma horner_eq: "b < m \<Longrightarrow> a * m + b = c \<longleftrightarrow> a = c div m \<and> b = c mod m" for a b c m :: nat
  by (metis add.commute add.right_neutral div_less div_mult_self3 mod_less mod_mult_self3 mult_div_mod_eq
      mult.commute not_less0)

lemma horner_div: "0 < k \<Longrightarrow> (a * (m * k) + b) div k = a * m + b div k" for a b k m :: nat
  by (metis div_mult_self3 mult.assoc not_less0)

lemma v4_parts2:
  "unat v div 2 ^ 28 = octet 0 v div 16" "unat v div 2 ^ 22 = (octet 0 v * 256 + octet 1 v) div 64"
  "unat v div 2 ^ 20 = (octet 0 v * 256 + octet 1 v) div 16"
  "unat v div 2 ^ 17 = (octet 0 v * 256 + octet 1 v) div 2" for v :: u32
  proof -
  note p = v4_parts [of v]
  have "unat v div 2 ^ (24 + 4) = octet 0 v div 2 ^ 4"
    "unat v div 2 ^ (16 + 6) = (octet 0 v * 256 + octet 1 v) div 2 ^ 6"
    "unat v div 2 ^ (16 + 4) = (octet 0 v * 256 + octet 1 v) div 2 ^ 4"
    "unat v div 2 ^ (16 + 1) = (octet 0 v * 256 + octet 1 v) div 2 ^ 1"
    by (simp_all only: div_pow p)
  then show "unat v div 2 ^ 28 = octet 0 v div 16" "unat v div 2 ^ 22 = (octet 0 v * 256 + octet 1 v) div 64"
    "unat v div 2 ^ 20 = (octet 0 v * 256 + octet 1 v) div 16"
    "unat v div 2 ^ 17 = (octet 0 v * 256 + octet 1 v) div 2"
    by simp_all
qed

lemma some_or_none: "(if P then Some x else r) \<noteq> None \<longleftrightarrow> P \<or> r \<noteq> None" by simp

lemma reserved_iff: "reserved a \<longleftrightarrow> forbidden_segment_v4 a \<noteq> None"
proof -
  note o = octet_less [of 0 a] octet_less [of 1 a] octet_less [of 2 a]
  have d: "octet 1 a div 64 < 4" "octet 1 a div 16 < 16" "octet 1 a div 2 < 128"
    using o by (auto intro: less_mult_imp_div_less)
  have div: "(octet 0 a * 256 + octet 1 a) div 64 = octet 0 a * 4 + octet 1 a div 64"
    "(octet 0 a * 256 + octet 1 a) div 16 = octet 0 a * 16 + octet 1 a div 16"
    "(octet 0 a * 256 + octet 1 a) div 2 = octet 0 a * 128 + octet 1 a div 2"
    using horner_div [of 64 "octet 0 a" 4 "octet 1 a"] horner_div [of 16 "octet 0 a" 16 "octet 1 a"]
      horner_div [of 2 "octet 0 a" 128 "octet 1 a"] by simp_all
  have r: "y div 64 = 1 \<longleftrightarrow> y div 64 * 64 = 64" "y div 16 = 1 \<longleftrightarrow> 16 \<le> y \<and> y \<le> 31"
    "y div 2 = 9 \<longleftrightarrow> y = 18 \<or> y = 19" for y :: nat by linarith+
  have cg: "(octet 0 a * 256 + octet 1 a) div 64 = 401 \<longleftrightarrow> octet 0 a = 100 \<and> octet 1 a div 64 * 64 = 64"
    unfolding div horner_eq [OF d(1)] r(1) [symmetric] by simp
  have p172: "(octet 0 a * 256 + octet 1 a) div 16 = 2753 \<longleftrightarrow> octet 0 a = 172 \<and> 16 \<le> octet 1 a \<and> octet 1 a \<le> 31"
    unfolding div horner_eq [OF d(2)] r(2) [symmetric] by simp
  have b: "(octet 0 a * 256 + octet 1 a) div 2 = 25353 \<longleftrightarrow> octet 0 a = 198 \<and> (octet 1 a = 18 \<or> octet 1 a = 19)"
    unfolding div horner_eq [OF d(3)] r(3) [symmetric] by simp
  have "224 \<le> y \<longleftrightarrow> y div 16 = 14 \<or> y div 16 = 15" if "y < 256" for y :: nat
    using that by auto
  from this [OF o(1)]
  have m: "octet 0 a \<ge> 224 \<longleftrightarrow> octet 0 a div 16 = 14 \<or> octet 0 a div 16 = 15" .
  have two: "octet 0 a * 256 + octet 1 a = 43518 \<longleftrightarrow> octet 0 a = 169 \<and> octet 1 a = 254"
    "octet 0 a * 256 + octet 1 a = 49320 \<longleftrightarrow> octet 0 a = 192 \<and> octet 1 a = 168"
    unfolding horner_eq [OF o(2)] by simp_all
  have three: "(octet 0 a * 256 + octet 1 a) * 256 + octet 2 a = 12582912 \<longleftrightarrow> octet 0 a = 192 \<and> octet 1 a = 0 \<and> octet 2 a = 0"
    "(octet 0 a * 256 + octet 1 a) * 256 + octet 2 a = 12582914 \<longleftrightarrow> octet 0 a = 192 \<and> octet 1 a = 0 \<and> octet 2 a = 2"
    "(octet 0 a * 256 + octet 1 a) * 256 + octet 2 a = 12989284 \<longleftrightarrow> octet 0 a = 198 \<and> octet 1 a = 51 \<and> octet 2 a = 100"
    "(octet 0 a * 256 + octet 1 a) * 256 + octet 2 a = 13303921 \<longleftrightarrow> octet 0 a = 203 \<and> octet 1 a = 0 \<and> octet 2 a = 113"
    unfolding horner_eq [OF o(3)] horner_eq [OF o(2)] by simp_all
  have "reserved a \<longleftrightarrow>
     unat a div 2 ^ 24 = 0 \<or> unat a div 2 ^ 24 = 10 \<or> unat a div 2 ^ 22 = 401 \<or> unat a div 2 ^ 24 = 127 \<or>
     unat a div 2 ^ 16 = 43518 \<or> unat a div 2 ^ 20 = 2753 \<or> unat a div 2 ^ 8 = 12582912 \<or>
     unat a div 2 ^ 8 = 12582914 \<or> unat a div 2 ^ 16 = 49320 \<or> unat a div 2 ^ 17 = 25353 \<or>
     unat a div 2 ^ 8 = 12989284 \<or> unat a div 2 ^ 8 = 13303921 \<or>
     unat a div 2 ^ 28 = 14 \<or> unat a div 2 ^ 28 = 15"
    by (simp add: reserved_def reserved_blocks_def in_block_def)
  then show ?thesis
    unfolding v4_parts v4_parts2 cg p172 b two three forbidden_segment_v4_def Let_def octet_and m
    by (simp only: some_or_none option.simps simp_thms) argo
qed
lemma v6_parts:
  fixes v :: "128 word"
  shows "unat v div 2 ^ 112 = segment 0 v"
    and "unat v div 2 ^ 96 = segment 0 v * 65536 + segment 1 v"
    and "unat v div 2 ^ 80 = (segment 0 v * 65536 + segment 1 v) * 65536 + segment 2 v"
    and "unat v div 2 ^ 64 = ((segment 0 v * 65536 + segment 1 v) * 65536 + segment 2 v) * 65536 + segment 3 v"
    and "unat v div 2 ^ 48 = (((segment 0 v * 65536 + segment 1 v) * 65536 + segment 2 v) * 65536 + segment 3 v) * 65536 + segment 4 v"
    and "unat v div 2 ^ 32 = ((((segment 0 v * 65536 + segment 1 v) * 65536 + segment 2 v) * 65536 + segment 3 v) * 65536 + segment 4 v) * 65536 + segment 5 v"
    and "unat v div 2 ^ 16 mod 65536 = segment 6 v" and "unat v mod 65536 = segment 7 v"
proof -
  have n: "unat v < 340282366920938463463374607431768211456"
    by (rule order.strict_trans2 [OF unsigned_less]) simp
  then show a: "unat v div 2 ^ 112 = segment 0 v"
    by (simp add: segment_def less_mult_imp_div_less)
  show b: "unat v div 2 ^ 96 = segment 0 v * 65536 + segment 1 v"
    using a div_step [of "unat v" "2 ^ 96" 65536] by (simp add: segment_def)
  show c: "unat v div 2 ^ 80 = (segment 0 v * 65536 + segment 1 v) * 65536 + segment 2 v"
    using b div_step [of "unat v" "2 ^ 80" 65536] by (simp add: segment_def)
  show d: "unat v div 2 ^ 64 = ((segment 0 v * 65536 + segment 1 v) * 65536 + segment 2 v) * 65536 + segment 3 v"
    using c div_step [of "unat v" "2 ^ 64" 65536] by (simp add: segment_def)
  show e: "unat v div 2 ^ 48 = (((segment 0 v * 65536 + segment 1 v) * 65536 + segment 2 v) * 65536 + segment 3 v) * 65536 + segment 4 v"
    using d div_step [of "unat v" "2 ^ 48" 65536] by (simp add: segment_def)
  show "unat v div 2 ^ 32 = ((((segment 0 v * 65536 + segment 1 v) * 65536 + segment 2 v) * 65536 + segment 3 v) * 65536 + segment 4 v) * 65536 + segment 5 v"
    using e div_step [of "unat v" "2 ^ 32" 65536] by (simp add: segment_def)
  show "unat v div 2 ^ 16 mod 65536 = segment 6 v" "unat v mod 65536 = segment 7 v"
    by (simp_all add: segment_def)
qed

lemma v6_low: "unat v mod 2 ^ 32 = segment 6 v * 65536 + segment 7 v"
proof -
  have "unat v mod (65536 * 65536) = 65536 * (unat v div 65536 mod 65536) + unat v mod 65536"
    by (rule mod_mult2_eq)
  then show ?thesis using v6_parts(7,8) [of v] by simp
qed

lemma ipv4_of_segs_eq:
  "s < 65536 \<Longrightarrow> t < 65536 \<Longrightarrow> ipv4_of_segs s t = of_nat (s * 65536 + t)"
proof -
  assume "s < 65536" "t < 65536"
  have "x AND 255 = x mod 256" for x :: nat
    using take_bit_eq_mask [of 8 x] by (simp add: take_bit_eq_mod mask_eq_exp_minus_1)
  moreover have "((s div 256 * 256 + s mod 256) * 256 + t div 256) * 256 + t mod 256 =
      (s div 256 * 256 + s mod 256) * 65536 + (t div 256 * 256 + t mod 256)" by simp
  ultimately show ?thesis by (simp add: ipv4_of_segs_def ipv4_new_def drop_bit_eq_div)
qed

lemma is_forbidden_v4_iff:
  "is_forbidden_ipv4_with a Strict \<longleftrightarrow> reserved a" "is_forbidden_ipv4_embedded_with a Strict \<longleftrightarrow> reserved a"
  by (auto simp: is_forbidden_ipv4_with_def is_forbidden_ipv4_embedded_with_def reserved_iff
      split: option.splits)

lemma v6_blocks:
  "(\<exists>b \<in> set local_blocks6. in_block 128 (unat v) b) \<longleftrightarrow>
     segment 0 v div 512 = 126 \<or> segment 0 v div 64 = 1018 \<or> segment 0 v div 256 = 255"
proof -
  have "unat v div 2 ^ (112 + 9) = segment 0 v div 2 ^ 9" "unat v div 2 ^ (112 + 6) = segment 0 v div 2 ^ 6"
    "unat v div 2 ^ (112 + 8) = segment 0 v div 2 ^ 8"
    by (simp_all only: div_pow v6_parts)
  then show ?thesis by (simp add: local_blocks6_def in_block_def)
qed

lemma embedded_eq:
  fixes v :: "128 word"
  shows "embedded v =
      (if segment 0 v = 0 \<and> segment 1 v = 0 \<and> segment 2 v = 0 \<and> segment 3 v = 0 \<and> segment 4 v = 0 \<and> (segment 5 v = 0 \<or> segment 5 v = 0xffff)
       then [ipv4_of_segs (segment 6 v) (segment 7 v)] else []) @
      (if segment 0 v = 0x64 \<and> segment 1 v = 0xff9b \<and> segment 2 v = 0 \<and> segment 3 v = 0 \<and> segment 4 v = 0 \<and> segment 5 v = 0
       then [ipv4_of_segs (segment 6 v) (segment 7 v)] else []) @
      (if segment 0 v = 0x2002 then [ipv4_of_segs (segment 1 v) (segment 2 v)] else []) @
      (if segment 0 v = 0x2001 \<and> segment 1 v = 0 then [ipv4_of_segs (not16 (segment 6 v)) (not16 (segment 7 v))] else []) @
      (if (segment 4 v = 0 \<or> segment 4 v = 0x200) \<and> segment 5 v = 0x5efe then [ipv4_of_segs (segment 6 v) (segment 7 v)] else [])"
proof -
  define s where "s i = segment i v" for i
  have l: "s i < 65536" for i by (simp add: s_def)
  note p = v6_parts [of v, folded s_def]
  note h = horner_eq [OF l]
  have top: "unat v div 2 ^ 32 = 0 \<or> unat v div 2 ^ 32 = 0xffff \<longleftrightarrow>
      s 0 = 0 \<and> s 1 = 0 \<and> s 2 = 0 \<and> s 3 = 0 \<and> s 4 = 0 \<and> (s 5 = 0 \<or> s 5 = 0xffff)"
    unfolding p h by auto
  have nat64: "unat v div 2 ^ 32 = 0x0064ff9b * 2 ^ 64 \<longleftrightarrow>
      s 0 = 0x64 \<and> s 1 = 0xff9b \<and> s 2 = 0 \<and> s 3 = 0 \<and> s 4 = 0 \<and> s 5 = 0"
    unfolding p h by auto
  have teredo: "unat v div 2 ^ 96 = 0x20010000 \<longleftrightarrow> s 0 = 0x2001 \<and> s 1 = 0"
    unfolding p h by auto
  have m: "((a * 65536 + b) * 65536 + c) mod 2 ^ 32 = b * 65536 + c" if "b < 65536" "c < 65536" for a b c :: nat
    using that mod_mult_self3 [of a "2 ^ 32" "b * 65536 + c"] by (simp add: algebra_simps)
  have m45: "unat v div 2 ^ 32 mod 2 ^ 32 = s 4 * 65536 + s 5" unfolding p by (rule m) (rule l)+
  have m12: "unat v div 2 ^ 80 mod 2 ^ 32 = s 1 * 65536 + s 2" unfolding p by (rule m) (rule l)+
  have isatap: "unat v div 2 ^ 32 mod 2 ^ 32 = 0x5efe \<or> unat v div 2 ^ 32 mod 2 ^ 32 = 0x02005efe \<longleftrightarrow>
      (s 4 = 0 \<or> s 4 = 0x200) \<and> s 5 = 0x5efe"
    unfolding m45 h by auto
  have low: "ipv4_of_segs (s 6) (s 7) = of_nat (unat v mod 2 ^ 32)"
    using l by (simp only: ipv4_of_segs_eq v6_low s_def)
  have six: "ipv4_of_segs (s 1) (s 2) = of_nat (unat v div 2 ^ 80 mod 2 ^ 32)"
    using l by (simp only: ipv4_of_segs_eq m12)
  have neg: "ipv4_of_segs (not16 (s 6)) (not16 (s 7)) = of_nat (2 ^ 32 - 1 - unat v mod 2 ^ 32)"
  proof -
    have "(65535 - x) * 65536 + (65535 - y) = 2 ^ 32 - 1 - (x * 65536 + y)" if "x < 65536" "y < 65536"
      for x y :: nat using that by simp
    from this [OF l l] show ?thesis
      by (simp only: v6_low not16_def s_def ipv4_of_segs_eq [of "65535 - x" "65535 - y" for x y] diff_less_Suc)
  qed
  show ?thesis
    unfolding s_def [symmetric] embedded_def Let_def top nat64 teredo isatap low six neg p(1) ..
qed

lemma reserved_0: "reserved 0"
  by (simp add: reserved_def reserved_blocks_def in_block_def)

lemma reserved_1: "reserved 1"
  by (simp add: reserved_def reserved_blocks_def in_block_def)

lemma to_ipv4_eq:
  "to_ipv4 v =
     (if segment 0 v = 0 \<and> segment 1 v = 0 \<and> segment 2 v = 0 \<and> segment 3 v = 0 \<and> segment 4 v = 0 \<and>
         (segment 5 v = 0 \<or> segment 5 v = 0xffff)
      then Some (ipv4_of_segs (segment 6 v) (segment 7 v)) else None)"
proof -
  define s where "s i = segment i v" for i
  have l: "s i < 65536" for i by (simp add: s_def)
  note p = v6_parts [of v, folded s_def]
  have top: "unat v div 2 ^ 32 = 0 \<or> unat v div 2 ^ 32 = 0xffff \<longleftrightarrow>
      s 0 = 0 \<and> s 1 = 0 \<and> s 2 = 0 \<and> s 3 = 0 \<and> s 4 = 0 \<and> (s 5 = 0 \<or> s 5 = 0xffff)"
    unfolding p horner_eq [OF l] by auto
  have "ipv4_of_segs (s 6) (s 7) = of_nat (unat v mod 2 ^ 32)"
    using l by (simp only: ipv4_of_segs_eq v6_low s_def)
  moreover have "(ucast v :: u32) = of_nat (unat v mod 2 ^ 32)"
    by (rule word_unat_eq_iff [THEN iffD2]) (simp add: unsigned_ucast_eq unsigned_of_nat take_bit_eq_mod)
  ultimately show ?thesis unfolding s_def [symmetric] to_ipv4_def top by simp
qed

lemma strict_v6:
  "is_forbidden_ipv6_with v Strict \<longleftrightarrow>
     (\<exists>b \<in> set local_blocks6. in_block 128 (unat v) b) \<or> (\<exists>a \<in> set (embedded v). reserved a)"
proof -
  have one: "embedded 1 = [1]" "embedded 0 = [0]" by (simp_all add: embedded_def)
  show ?thesis
  proof (cases "v = 1 \<or> v = 0")
    case True
    then show ?thesis using reserved_0 reserved_1 one
      by (auto simp: is_forbidden_ipv6_with_def is_forbidden_v4_iff to_ipv4_def)
  next
    case False
    have mask: "segment 0 v div 512 * 512 = 0xfc00 \<longleftrightarrow> segment 0 v div 512 = 126"
      "segment 0 v div 64 * 64 = 0xfe80 \<longleftrightarrow> segment 0 v div 64 = 1018"
      "segment 0 v div 256 * 256 = 0xff00 \<longleftrightarrow> segment 0 v div 256 = 255" by auto
    from False show ?thesis
      unfolding is_forbidden_ipv6_with_def to_ipv4_eq is_forbidden_ipv6_native_def Let_def segment_and mask
        is_forbidden_v4_iff v6_blocks embedded_eq
      by (auto split: if_splits)
  qed
qed

text \<open>
  C23. What the strict policy refuses, exactly. An IPv4 address is refused iff it lies in one of the
  fourteen blocks of the table; an IPv6 address iff it is unique-local, link-local or multicast, or
  one of the IPv4 addresses it stands for (mapped, compatible, NAT64, 6to4, Teredo, ISATAP) lies in
  one of those blocks.
\<close>
theorem strict_policy_exact:
  "is_forbidden_ip ip =
     (case ip of
        V4 a \<Rightarrow> reserved a
      | V6 v \<Rightarrow> (\<exists>b \<in> set local_blocks6. in_block 128 (unat v) b) \<or> (\<exists>a \<in> set (embedded v). reserved a))"
  by (cases ip) (simp_all only: is_forbidden_ip_def is_forbidden_ip_with_def ip_addr.case strict_v6
      is_forbidden_v4_iff)

lemma relaxed_segments:
  "forbidden_segment_v4 a = Some Loopback127 \<longleftrightarrow> in_block 32 (unat a) (0x7F000000, 8)"
  "forbidden_segment_v4 a = Some Benchmark \<longleftrightarrow> in_block 32 (unat a) (0xC6120000, 15)"
proof -
  note o = octet_less [of 0 a] octet_less [of 1 a]
  have d: "octet 1 a div 2 < 128" using o by (auto intro: less_mult_imp_div_less)
  have r: "y div 2 = 9 \<longleftrightarrow> y = 18 \<or> y = 19" for y :: nat by linarith
  have "(octet 0 a * 256 + octet 1 a) div 2 = octet 0 a * 128 + octet 1 a div 2"
    using horner_div [of 2 "octet 0 a" 128 "octet 1 a"] by simp
  then have "unat a div 2 ^ 17 = 25353 \<longleftrightarrow> octet 0 a = 198 \<and> (octet 1 a = 18 \<or> octet 1 a = 19)"
    unfolding v4_parts2 using horner_eq [OF d] r by simp
  then show "forbidden_segment_v4 a = Some Benchmark \<longleftrightarrow> in_block 32 (unat a) (0xC6120000, 15)"
    by (auto simp: in_block_def forbidden_segment_v4_def Let_def)
  show "forbidden_segment_v4 a = Some Loopback127 \<longleftrightarrow> in_block 32 (unat a) (0x7F000000, 8)"
    using v4_parts(1) [of a] by (auto simp: in_block_def forbidden_segment_v4_def Let_def)
qed

definition relaxed :: "ip_addr \<Rightarrow> bool" where
  "relaxed ip =
     (case ip of
        V4 a \<Rightarrow> in_block 32 (unat a) (0x7F000000, 8) \<or> in_block 32 (unat a) (0xC6120000, 15)
      | V6 v \<Rightarrow> v = 1 \<or> (\<exists>a. to_ipv4 v = Some a \<and> in_block 32 (unat a) (0x7F000000, 8)) \<or>
               (\<exists>a \<in> set (embedded v). in_block 32 (unat a) (0xC6120000, 15)))"

text \<open>
  C35. The policy for addresses an administrator configures is never stricter, and all it adds is
  loopback (127.0.0.0/8, \<open>::1\<close> and the mapped and compatible forms) and the benchmark block
  198.18.0.0/15, also embedded: the private ranges and the cloud metadata address stay refused.
\<close>
theorem admin_policy_relaxes_only:
  "(is_forbidden_ip_with ip AdminConfigured \<longrightarrow> is_forbidden_ip ip) \<and>
   (is_forbidden_ip ip \<and> \<not> is_forbidden_ip_with ip AdminConfigured \<longrightarrow> relaxed ip)"
proof (cases ip)
  case (V4 a)
  then show ?thesis
    by (auto simp: is_forbidden_ip_def is_forbidden_ip_with_def is_forbidden_ipv4_with_def relaxed_def
        relaxed_segments [symmetric] split: option.splits)
next
  case (V6 v)
  show ?thesis
  proof (cases "\<exists>a. to_ipv4 v = Some a")
    case True
    then obtain a where a: "to_ipv4 v = Some a" by blast
    then have "a \<in> set (embedded v)" by (auto simp: to_ipv4_eq embedded_eq split: if_splits)
    with a V6 show ?thesis
      by (auto simp: is_forbidden_ip_def is_forbidden_ip_with_def is_forbidden_ipv6_with_def
          is_forbidden_ipv4_with_def relaxed_def relaxed_segments [symmetric] split: option.splits if_splits)
  next
    case False
    then have "to_ipv4 v = None" by simp
    then show ?thesis
      unfolding V6 is_forbidden_ip_def is_forbidden_ip_with_def is_forbidden_ipv6_with_def
          is_forbidden_ipv6_native_def is_forbidden_ipv4_embedded_with_def relaxed_def
          relaxed_segments [symmetric] embedded_eq Let_def
      by (auto split: option.splits if_splits)
  qed
qed

lemma admin_policy_relaxes_only_witness:
  "\<not> is_forbidden_ip_with (V4 0x7F000001) AdminConfigured \<and> relaxed (V4 0x7F000001)"
proof -
  have loop: "forbidden_segment_v4 0x7F000001 = Some Loopback127"
    by (simp add: relaxed_segments in_block_def)
  then have "is_forbidden_ip (V4 0x7F000001)" "\<not> is_forbidden_ip_with (V4 0x7F000001) AdminConfigured"
    by (simp_all add: is_forbidden_ip_def is_forbidden_ip_with_def is_forbidden_ipv4_with_def)
  with admin_policy_relaxes_only [of "V4 0x7F000001"] show ?thesis by blast
qed

subsection \<open>Host and port\<close>

lemma find_sub_scheme:
  assumes "CHR '':'' \<notin> set s"
  shows "find_sub ''://'' (s @ ''://'' @ r) = Some (length s)"
  using assms by (induction s) auto

lemma split_once_scheme:
  assumes "CHR '':'' \<notin> set s"
  shows "split_once ''://'' (s @ ''://'' @ r) = Some (s, r)"
  using find_sub_scheme [OF assms, of r] by (simp add: split_once_def)

definition url_end :: "string \<Rightarrow> bool" where
  "url_end path \<longleftrightarrow> path = [] \<or> hd path \<in> {CHR ''/'', CHR ''?'', CHR ''#''}"

lemma first_piece_append:
  "set a \<inter> cs = {} \<Longrightarrow> b = [] \<or> hd b \<in> cs \<Longrightarrow> first_piece cs (a @ b) = a"
  by (cases b) (auto simp: first_piece_def takeWhile_append)

text \<open>The parts of an authority, as the source takes them apart.\<close>

definition userinfo_part :: "string option \<Rightarrow> string" where
  "userinfo_part u = (case u of None \<Rightarrow> [] | Some s \<Rightarrow> s @ ''@'')"

definition port_part :: "string option \<Rightarrow> string" where
  "port_part p = (case p of None \<Rightarrow> [] | Some s \<Rightarrow> CHR '':'' # s)"

definition delimiters :: "char set" where
  "delimiters = {CHR ''/'', CHR ''?'', CHR ''#''}"

lemma digits_only: "digits_value acc s = Some n \<Longrightarrow> c \<in> set s \<Longrightarrow> digit_value 10 c \<noteq> None"
  by (induction s arbitrary: acc) (auto split: option.splits)

lemma port_chars:
  assumes "parse_unsigned mx s = Some n" and "c \<in> set s"
  shows "c = CHR ''+'' \<or> digit_value 10 c \<noteq> None"
  using assms digits_only
  by (fastforce simp: parse_unsigned_def Let_def split: list.splits if_splits option.splits)

lemma port_no_delimiters:
  assumes "parse_unsigned mx s = Some n"
  shows "set s \<inter> (delimiters \<union> {CHR ''@'', CHR '':''}) = {}"
proof -
  have "c \<notin> delimiters \<union> {CHR ''@'', CHR '':''}" if "c \<in> set s" for c
    using port_chars [OF assms that] by (auto simp: delimiters_def digit_value_def code_def)
  then show ?thesis by blast
qed

definition port_of :: "nat \<Rightarrow> string option \<Rightarrow> nat option" where
  "port_of dflt p = (case p of None \<Rightarrow> Some dflt | Some s \<Rightarrow> parse_unsigned 65535 s)"

lemma parse_host_port_authority:
  assumes "CHR '':'' \<notin> set scheme" and "default_port (to_ascii_lowercase scheme) = Some dflt"
    and "set (userinfo_part u) \<inter> delimiters = {}" and "set hp \<inter> (delimiters \<union> {CHR ''@''}) = {}" and "hp \<noteq> []"
    and "url_end path"
  shows "parse_host_port (scheme @ ''://'' @ userinfo_part u @ hp @ path) =
    (if starts_with ''['' hp then
       (case split_at_char CHR '']'' (drop 1 hp) of
          None \<Rightarrow> Err MissingBracket
        | Some (h, tail) \<Rightarrow>
            (if starts_with '':'' tail
             then bind_ok (parse_port (drop 1 tail)) (\<lambda>port. Ok (to_ascii_lowercase h, port))
             else Ok (to_ascii_lowercase h, dflt)))
     else
       (case rsplit_at_char CHR '':'' hp of
          Some (h, p) \<Rightarrow>
            bind_ok (parse_port p) (\<lambda>port. if h = [] then Err MissingHost else Ok (to_ascii_lowercase h, port))
        | None \<Rightarrow> Ok (to_ascii_lowercase hp, dflt)))"
proof -
  have "first_piece delimiters ((userinfo_part u @ hp) @ path) = userinfo_part u @ hp"
    using assms(3,4,6) by (intro first_piece_append) (auto simp: url_end_def delimiters_def)
  then have auth: "first_piece {CHR ''/'', CHR ''?'', CHR ''#''} (userinfo_part u @ hp @ path) = userinfo_part u @ hp"
    by (simp add: delimiters_def)
  have at: "CHR ''@'' \<notin> set hp" using assms(4) by auto
  have "(case rsplit_at_char CHR ''@'' (userinfo_part u @ hp) of Some (_, hp) \<Rightarrow> hp | None \<Rightarrow> userinfo_part u @ hp) = hp"
  proof (cases u)
    case None
    then show ?thesis using at by (simp add: userinfo_part_def rsplit_at_char_None [THEN iffD2])
  next
    case (Some s)
    then show ?thesis using rsplit_at_char_append [OF at, of s] by (simp add: userinfo_part_def)
  qed
  then show ?thesis
    by (simp only: parse_host_port_def split_once_scheme [OF assms(1)] option.case prod.case Let_def assms(2)
        auth append_is_Nil_conv assms(5) simp_thms if_False)
qed

text \<open>
  The host the guard checks is the host of the URL. For every scheme the source knows, in any
  case, with or without user information, port and path: the result is the host in lower case with
  the port written in the URL, the default port of the scheme if there is none, or an error if what
  stands for a port is not one. The host is a name or address without a colon, or stands in brackets.
\<close>
theorem parse_host_port_parts:
  assumes "CHR '':'' \<notin> set scheme" and "default_port (to_ascii_lowercase scheme) = Some dflt"
    and "set (userinfo_part u) \<inter> delimiters = {}" and "set host \<inter> (delimiters \<union> {CHR ''@''}) = {}"
    and "set (port_part p) \<inter> (delimiters \<union> {CHR ''@''}) = {}" and "\<forall>s. p = Some s \<longrightarrow> CHR '':'' \<notin> set s"
    and "url_end path"
  shows "(host \<noteq> [] \<and> hd host \<noteq> CHR ''['' \<and> CHR '':'' \<notin> set host \<longrightarrow>
      parse_host_port (scheme @ ''://'' @ userinfo_part u @ (host @ port_part p) @ path) =
        (case port_of dflt p of Some n \<Rightarrow> Ok (to_ascii_lowercase host, n) | None \<Rightarrow> Err BadPort)) \<and>
    (CHR '']'' \<notin> set host \<longrightarrow>
      parse_host_port (scheme @ ''://'' @ userinfo_part u @ (''['' @ host @ '']'' @ port_part p) @ path) =
        (case port_of dflt p of Some n \<Rightarrow> Ok (to_ascii_lowercase host, n) | None \<Rightarrow> Err BadPort))"
proof (intro conjI impI)
  assume h: "host \<noteq> [] \<and> hd host \<noteq> CHR ''['' \<and> CHR '':'' \<notin> set host"
  then have nb: "\<not> starts_with ''['' (host @ port_part p)" by (cases host) auto
  have "rsplit_at_char CHR '':'' (host @ port_part p) = map_option (\<lambda>s. (host, s)) p"
    using h assms(6) by (cases p) (auto simp: port_part_def rsplit_at_char_append rsplit_at_char_None)
  with h nb show "parse_host_port (scheme @ ''://'' @ userinfo_part u @ (host @ port_part p) @ path) =
      (case port_of dflt p of Some n \<Rightarrow> Ok (to_ascii_lowercase host, n) | None \<Rightarrow> Err BadPort)"
    using assms by (subst parse_host_port_authority [OF assms(1-3)])
      (cases p, auto simp: port_of_def parse_port_def port_part_def split: option.splits)
next
  assume h: "CHR '']'' \<notin> set host"
  have "split_at_char CHR '']'' (host @ CHR '']'' # port_part p) = Some (host, port_part p)"
    by (rule split_at_char_append [OF h])
  then show "parse_host_port (scheme @ ''://'' @ userinfo_part u @ (''['' @ host @ '']'' @ port_part p) @ path) =
      (case port_of dflt p of Some n \<Rightarrow> Ok (to_ascii_lowercase host, n) | None \<Rightarrow> Err BadPort)"
    using assms by (subst parse_host_port_authority [OF assms(1-3)])
      (auto simp: port_of_def parse_port_def port_part_def delimiters_def split: option.splits)
qed

lemma parse_host_port_parts_witness:
  "parse_host_port ''https://u:p@10.0.0.1:81/x'' = Ok (''10.0.0.1'', 81) \<and>
   parse_host_port ''https://u:p@[::1]:81/x'' = Ok (''::1'', 81)"
proof -
  have d: "default_port (to_ascii_lowercase ''https'') = Some 443"
    by (simp add: default_port_def to_ascii_lowercase_def ascii_lower_def code_def)
  have p: "port_of 443 (Some ''81'') = Some 81"
    by (simp add: port_of_def parse_unsigned_def digit_value_def code_def)
  note t = parse_host_port_parts [where u = "Some ''u:p''" and p = "Some ''81''" and path = "''/x''", OF _ d]
  show ?thesis
    using t [of "''10.0.0.1''"] t [of "''::1''"] p
    by (simp add: userinfo_part_def port_part_def delimiters_def url_end_def to_ascii_lowercase_def
        ascii_lower_def code_def)
qed

subsection \<open>What passes the guard\<close>

lemma ascii_lower_idem: "ascii_lower (ascii_lower c) = ascii_lower c"
  by (auto simp: ascii_lower_def code_def)

definition checked :: "dns \<Rightarrow> ssrf_policy \<Rightarrow> string \<Rightarrow> bool" where
  "checked lookup policy url \<longleftrightarrow>
     (\<exists>host port. parse_host_port url = Ok (host, port) \<and>
        (case lookup host port of
           None \<Rightarrow> True | Some addrs \<Rightarrow> \<forall>sa \<in> set addrs. \<not> is_forbidden_ip_with (fst sa) policy))"

lemma find_None_all: "find P xs = None \<longleftrightarrow> (\<forall>x \<in> set xs. \<not> P x)"
  by (auto simp: find_None_iff)

lemma checked_bind:
  "bind_ok (parse_host_port url) (\<lambda>(host, port).
      case lookup host port of
        None \<Rightarrow> Ok ()
      | Some addrs \<Rightarrow>
          (case find (\<lambda>sa. is_forbidden_ip_with (fst sa) policy) addrs of
             Some sa \<Rightarrow> Err (describe_rejection (fst sa)) | None \<Rightarrow> Ok ())) = Ok () \<longleftrightarrow>
   checked lookup policy url"
proof (cases "parse_host_port url")
  case (Inr hp)
  obtain host port where hp: "hp = (host, port)" by force
  show ?thesis
  proof (cases "lookup host port")
    case (Some addrs)
    show ?thesis
      by (cases "find (\<lambda>sa. is_forbidden_ip_with (fst sa) policy) addrs")
        (simp_all add: checked_def Inr hp Some flip: find_None_all)
  qed (simp add: checked_def Inr hp)
qed (simp add: checked_def)

lemma validate_outbound_iff:
  "validate_outbound_url_with lookup url allow_http policy = Ok () \<longleftrightarrow>
     (\<exists>s r. split_once ''://'' url = Some (s, r) \<and>
        (to_ascii_lowercase s = ''https'' \<or> allow_http \<and> to_ascii_lowercase s = ''http'')) \<and>
     checked lookup policy url"
  by (auto simp: validate_outbound_url_with_def Let_def checked_bind split: option.splits)

lemma validate_proxy_iff:
  "validate_proxy_address lookup url = Ok () \<longleftrightarrow>
     (\<exists>s r. split_once ''://'' url = Some (s, r) \<and>
        to_ascii_lowercase s \<in> {''socks5'', ''socks5h'', ''http'', ''https''}) \<and>
     checked lookup AdminConfigured url"
  by (auto simp: validate_proxy_address_def Let_def checked_bind split: option.splits)

text \<open>
  C34. A guarded client cannot reach an internal address: if one is built, the URL has an allowed
  scheme, the client is pinned to all the addresses its host resolved to, there is at least one, the
  strict policy refuses none of them, so no IPv4 address among them is reserved, and it follows no
  redirects. So whatever the name resolves to later, the connection goes to a checked address.
\<close>
theorem guarded_client_pinned:
  assumes "build_guarded_client build lookup url timeout allowed = Ok c"
  shows "\<exists>s r host port. split_once ''://'' url = Some (s, r) \<and>
      (\<exists>a \<in> set allowed. eq_ignore_ascii_case a s) \<and> parse_host_port url = Ok (host, port) \<and>
      pinned_host c = host \<and> lookup host port = Some (pinned_addrs c) \<and> pinned_addrs c \<noteq> [] \<and>
      (\<forall>sa \<in> set (pinned_addrs c). \<not> is_forbidden_ip (fst sa) \<and>
         (\<forall>a. fst sa = V4 a \<longrightarrow> \<not> reserved a)) \<and>
      \<not> follow_redirects c \<and> client_timeout c = timeout"
proof -
  obtain s r where u: "split_once ''://'' url = Some (s, r)"
    "list_ex (\<lambda>a. eq_ignore_ascii_case a (to_ascii_lowercase s)) allowed"
    and b: "bind_ok (parse_host_port url) (\<lambda>(host, port).
            case lookup host port of
              None \<Rightarrow> Err DnsFailed
            | Some addrs \<Rightarrow>
                if addrs = [] then Err NoAddress
                else
                  (case find (\<lambda>sa. is_forbidden_ip (fst sa)) addrs of
                     Some sa \<Rightarrow> Err (Rejected (fst sa) None)
                   | None \<Rightarrow>
                       let c = \<lparr>client_timeout = timeout, follow_redirects = False, pinned_host = host,
                                pinned_addrs = addrs\<rparr> in
                       if build c then Ok c else Err ClientFailed)) = Ok c"
    using assms by (auto simp: build_guarded_client_def Let_def split: option.splits if_splits)
  have low: "to_ascii_lowercase (to_ascii_lowercase x) = to_ascii_lowercase x" for x
    by (simp add: to_ascii_lowercase_def ascii_lower_idem)
  have a: "\<exists>a \<in> set allowed. eq_ignore_ascii_case a s"
    using u(2) by (auto simp: list_ex_iff eq_ignore_ascii_case_def low)
  obtain host port where h: "parse_host_port url = Ok (host, port)" using b by (auto simp: bind_ok_Ok_iff)
  then obtain addrs where ad: "lookup host port = Some addrs" "addrs \<noteq> []"
    "find (\<lambda>sa. is_forbidden_ip (fst sa)) addrs = None"
    "c = \<lparr>client_timeout = timeout, follow_redirects = False, pinned_host = host, pinned_addrs = addrs\<rparr>"
    using b by (auto simp: Let_def split: option.splits if_splits)
  then have "lookup host port = Some (pinned_addrs c) \<and> pinned_host c = host \<and> pinned_addrs c \<noteq> [] \<and>
      (\<forall>sa \<in> set (pinned_addrs c). \<not> is_forbidden_ip (fst sa)) \<and> \<not> follow_redirects c \<and> client_timeout c = timeout"
    by (simp flip: find_None_all)
  moreover have "\<not> reserved x" if "\<not> is_forbidden_ip (V4 x)" for x
    using that by (simp add: is_forbidden_ip_def is_forbidden_ip_with_def is_forbidden_v4_iff)
  ultimately show ?thesis using u(1) a h by (metis (no_types, lifting))
qed

lemma guarded_client_pinned_witness:
  "\<exists>c. build_guarded_client (\<lambda>_. True) (\<lambda>_ _. Some [(V4 0x08080808, 443)]) ''https://e/'' (secs 5) [''https''] = Ok c \<and>
     pinned_addrs c = [(V4 0x08080808, 443)]"
proof -
  have "parse_host_port ''https://e/'' = Ok (''e'', 443)"
    by (simp add: parse_host_port_def split_once_def default_port_def to_ascii_lowercase_def ascii_lower_def
        code_def first_piece_def rsplit_at_char_def split_at_char_def)
  moreover have "\<not> is_forbidden_ip (V4 0x08080808)"
    by (simp add: is_forbidden_ip_def is_forbidden_ip_with_def is_forbidden_v4_iff reserved_def
        reserved_blocks_def in_block_def)
  moreover have "to_ascii_lowercase ''https'' = ''https''"
    by (simp add: to_ascii_lowercase_def ascii_lower_def code_def)
  ultimately obtain c where c: "build_guarded_client (\<lambda>_. True) (\<lambda>_ _. Some [(V4 0x08080808, 443)])
      ''https://e/'' (secs 5) [''https''] = Ok c"
    by (simp add: build_guarded_client_def split_once_def eq_ignore_ascii_case_def)
  from guarded_client_pinned [OF c] have "pinned_addrs c = [(V4 0x08080808, 443)]" by auto
  with c show ?thesis by blast
qed

end
