(* ===== verification/SseState.thy ===== *)
theory SseState
  imports Text
begin

text \<open>
  The order of the events sent to a streaming client: \<open>SseStateManager\<close> of
  \<open>src/src/anthropic/stream.rs\<close>, with \<open>CompletionStatus\<close>, the usage arithmetic and the judgement of
  empty responses from the same file.

  An event carries what the manager decides on, its kind and the index it was called with, and the
  caller's JSON as an opaque value of type \<open>'d\<close>. The \<open>BTreeMap\<close> of blocks is a list of pairs
  ascending by index. The scaling of token counts for display is floating-point arithmetic and a
  parameter.
\<close>

subsection \<open>Ordered maps\<close>

fun btree_insert :: "'k::linorder \<Rightarrow> 'v \<Rightarrow> ('k \<times> 'v) list \<Rightarrow> ('k \<times> 'v) list" where
  "btree_insert k v [] = [(k, v)]"
| "btree_insert k v ((k', v') # r) =
     (if k < k' then (k, v) # (k', v') # r
      else if k = k' then (k, v) # r
      else (k', v') # btree_insert k v r)"

abbreviation btree_get :: "'k \<Rightarrow> ('k \<times> 'v) list \<Rightarrow> 'v option" where
  "btree_get k m \<equiv> map_of m k"

lemma btree_get_insert [simp]:
  "map_of (btree_insert k v m) k' = (if k' = k then Some v else map_of m k')"
  by (induction k v m rule: btree_insert.induct) auto

definition ascending_keys :: "('k::linorder \<times> 'v) list \<Rightarrow> bool" where
  "ascending_keys m \<longleftrightarrow> sorted_wrt (<) (map fst m)"

lemma set_keys_insert: "fst ` set (btree_insert k v m) = insert k (fst ` set m)"
  by (induction k v m rule: btree_insert.induct) auto

lemma ascending_insert [intro]: "ascending_keys m \<Longrightarrow> ascending_keys (btree_insert k v m)"
proof (induction k v m rule: btree_insert.induct)
  case (2 k v k' v' r)
  have "\<forall>x \<in> fst ` set (btree_insert k v r). k' < x" if "k' < k" using 2(2) that
    by (simp only: set_keys_insert) (auto simp: ascending_keys_def)
  then show ?case using 2 by (fastforce simp: ascending_keys_def)
qed (simp add: ascending_keys_def)

lemma ascending_map_values [simp]:
  "ascending_keys (map (\<lambda>(k, v). (k, f k v)) m) = ascending_keys m"
  by (simp add: ascending_keys_def comp_def case_prod_beta)

lemma ascending_distinct: "ascending_keys m \<Longrightarrow> distinct (map fst m)"
  by (simp add: ascending_keys_def strict_sorted_iff)

lemma map_of_map_values:
  "map_of (map (\<lambda>(k, v). (k, f k v)) m) k = map_option (f k) (map_of m k)"
  by (induction m) auto

subsection \<open>The manager\<close>

record block_state =
  block_type :: string
  started :: bool
  stopped :: bool

record cache_usage_breakdown =
  cache_creation_input_tokens :: int
  cache_read_input_tokens :: int
  cache_creation_5m_input_tokens :: int
  cache_creation_1h_input_tokens :: int

record final_usage =
  usage_input_tokens :: int
  usage_output_tokens :: int
  usage_cache :: "(int \<times> int \<times> int \<times> int) option"

datatype 'd sse_event =
  MessageStart 'd
| ContentBlockStart int 'd
| ContentBlockDelta int 'd
| ContentBlockStop int
| MessageDelta string final_usage
| MessageStop

record sse_state_manager =
  message_started :: bool
  message_delta_sent :: bool
  active_blocks :: "(int \<times> block_state) list"
  message_ended :: bool
  next_index :: int
  stop_reason :: "string option"
  has_tool_use :: bool

definition sse_new :: sse_state_manager where
  "sse_new = \<lparr>message_started = False, message_delta_sent = False, active_blocks = [],
     message_ended = False, next_index = 0, stop_reason = None, has_tool_use = False\<rparr>"

definition block_new :: "string \<Rightarrow> block_state" where
  "block_new t = \<lparr>block_type = t, started = False, stopped = False\<rparr>"

definition block_is_open :: "block_state \<Rightarrow> bool" where
  "block_is_open b \<longleftrightarrow> started b \<and> \<not> stopped b"

definition is_block_open_of_type :: "int \<Rightarrow> string \<Rightarrow> sse_state_manager \<Rightarrow> bool" where
  "is_block_open_of_type index expected m =
     (case btree_get index (active_blocks m) of
        Some b \<Rightarrow> started b \<and> \<not> stopped b \<and> block_type b = expected | None \<Rightarrow> False)"

definition is_block_open :: "int \<Rightarrow> sse_state_manager \<Rightarrow> bool" where
  "is_block_open index m =
     (case btree_get index (active_blocks m) of Some b \<Rightarrow> started b \<and> \<not> stopped b | None \<Rightarrow> False)"

definition next_block_index :: "sse_state_manager \<Rightarrow> int \<times> sse_state_manager" where
  "next_block_index m = (next_index m, m\<lparr>next_index := next_index m + 1\<rparr>)"

definition set_has_tool_use :: "bool \<Rightarrow> sse_state_manager \<Rightarrow> sse_state_manager" where
  "set_has_tool_use has m = m\<lparr>has_tool_use := has\<rparr>"

definition set_stop_reason :: "string \<Rightarrow> sse_state_manager \<Rightarrow> sse_state_manager" where
  "set_stop_reason r m = m\<lparr>stop_reason := Some r\<rparr>"

definition has_non_thinking_blocks :: "sse_state_manager \<Rightarrow> bool" where
  "has_non_thinking_blocks m = list_ex (\<lambda>(_, b). block_type b \<noteq> ''thinking'') (active_blocks m)"

definition get_stop_reason :: "sse_state_manager \<Rightarrow> string" where
  "get_stop_reason m =
     (case stop_reason m of
        Some r \<Rightarrow> r
      | None \<Rightarrow> if has_tool_use m then ''tool_use'' else ''end_turn'')"

definition handle_message_start :: "'d \<Rightarrow> sse_state_manager \<Rightarrow> 'd sse_event option \<times> sse_state_manager" where
  "handle_message_start event m =
     (if message_started m then (None, m)
      else (Some (MessageStart event), m\<lparr>message_started := True\<rparr>))"

text \<open>The loop that sends a stop for every open block \<open>P\<close> holds of, in the order of the indices.\<close>

definition stop_blocks :: "(block_state \<Rightarrow> bool) \<Rightarrow> sse_state_manager \<Rightarrow> 'd sse_event list \<times> sse_state_manager" where
  "stop_blocks P m =
     (map (\<lambda>(i, _). ContentBlockStop i) (filter (\<lambda>(_, b). P b \<and> block_is_open b) (active_blocks m)),
      m\<lparr>active_blocks := map (\<lambda>(i, b). (i, if P b \<and> block_is_open b then b\<lparr>stopped := True\<rparr> else b))
         (active_blocks m)\<rparr>)"

definition handle_content_block_start :: "int \<Rightarrow> string \<Rightarrow> 'd \<Rightarrow> sse_state_manager \<Rightarrow>
    'd sse_event list \<times> sse_state_manager" where
  "handle_content_block_start index type data m =
     (let (events, m1) =
            (if type = ''tool_use''
             then stop_blocks (\<lambda>b. block_type b = ''text'') (m\<lparr>has_tool_use := True\<rparr>)
             else ([], m)) in
      case btree_get index (active_blocks m1) of
        Some b \<Rightarrow>
          if started b then (events, m1)
          else (events @ [ContentBlockStart index data],
                m1\<lparr>active_blocks := btree_insert index (b\<lparr>started := True\<rparr>) (active_blocks m1)\<rparr>)
      | None \<Rightarrow>
          (events @ [ContentBlockStart index data],
           m1\<lparr>active_blocks := btree_insert index ((block_new type)\<lparr>started := True\<rparr>) (active_blocks m1)\<rparr>))"

definition handle_content_block_delta :: "int \<Rightarrow> 'd \<Rightarrow> sse_state_manager \<Rightarrow>
    'd sse_event option \<times> sse_state_manager" where
  "handle_content_block_delta index data m =
     (case btree_get index (active_blocks m) of
        Some b \<Rightarrow> if \<not> started b \<or> stopped b then (None, m) else (Some (ContentBlockDelta index data), m)
      | None \<Rightarrow> (None, m))"

definition handle_content_block_stop :: "int \<Rightarrow> sse_state_manager \<Rightarrow>
    'd sse_event option \<times> sse_state_manager" where
  "handle_content_block_stop index m =
     (case btree_get index (active_blocks m) of
        Some b \<Rightarrow>
          if stopped b then (None, m)
          else (Some (ContentBlockStop index),
                m\<lparr>active_blocks := btree_insert index (b\<lparr>stopped := True\<rparr>) (active_blocks m)\<rparr>)
      | None \<Rightarrow> (None, m))"

definition close_open_blocks :: "sse_state_manager \<Rightarrow> 'd sse_event list \<times> sse_state_manager" where
  "close_open_blocks m = stop_blocks (\<lambda>_. True) m"

definition generate_final_events :: "(int \<Rightarrow> int) \<Rightarrow> int \<Rightarrow> int \<Rightarrow> cache_usage_breakdown option \<Rightarrow>
    sse_state_manager \<Rightarrow> 'd sse_event list \<times> sse_state_manager" where
  "generate_final_events scale input_tokens output_tokens cache m =
     (let (e1, m1) = close_open_blocks m;
          (e2, m2) =
            (if message_delta_sent m1 then ([], m1)
             else
               ([MessageDelta (get_stop_reason m1)
                   \<lparr>usage_input_tokens = scale input_tokens, usage_output_tokens = output_tokens,
                    usage_cache = map_option (\<lambda>c.
                      (scale (cache_creation_input_tokens c), scale (cache_read_input_tokens c),
                       scale (cache_creation_5m_input_tokens c), scale (cache_creation_1h_input_tokens c))) cache\<rparr>],
                m1\<lparr>message_delta_sent := True\<rparr>));
          (e3, m3) = (if message_ended m2 then ([], m2) else ([MessageStop], m2\<lparr>message_ended := True\<rparr>)) in
      (e1 @ e2 @ e3, m3))"

subsection \<open>The protocol\<close>

text \<open>
  What a client of the Messages API accepts: the message starts once and first, each block index is
  started once, filled while open and stopped once, the message delta comes once with no block open,
  then the message stops and nothing follows.
\<close>

datatype block_phase = Open | Closed

record protocol =
  begun :: bool
  blocks :: "int \<Rightarrow> block_phase option"
  delta_sent :: bool
  finished :: bool

definition protocol_new :: protocol where
  "protocol_new = \<lparr>begun = False, blocks = Map.empty, delta_sent = False, finished = False\<rparr>"

definition accept :: "protocol \<Rightarrow> 'd sse_event \<Rightarrow> protocol option" where
  "accept p e =
     (if finished p then None
      else if \<not> begun p then (case e of MessageStart _ \<Rightarrow> Some (p\<lparr>begun := True\<rparr>) | _ \<Rightarrow> None)
      else
        (case e of
           MessageStart _ \<Rightarrow> None
         | ContentBlockStart i _ \<Rightarrow>
             if blocks p i = None \<and> \<not> delta_sent p then Some (p\<lparr>blocks := (blocks p)(i \<mapsto> Open)\<rparr>) else None
         | ContentBlockDelta i _ \<Rightarrow> if blocks p i = Some Open then Some p else None
         | ContentBlockStop i \<Rightarrow>
             if blocks p i = Some Open then Some (p\<lparr>blocks := (blocks p)(i \<mapsto> Closed)\<rparr>) else None
         | MessageDelta _ _ \<Rightarrow>
             if \<not> delta_sent p \<and> (\<forall>i. blocks p i \<noteq> Some Open) then Some (p\<lparr>delta_sent := True\<rparr>) else None
         | MessageStop \<Rightarrow> if delta_sent p then Some (p\<lparr>finished := True\<rparr>) else None))"

fun accept_all :: "protocol \<Rightarrow> 'd sse_event list \<Rightarrow> protocol option" where
  "accept_all p [] = Some p"
| "accept_all p (e # es) = Option.bind (accept p e) (\<lambda>p'. accept_all p' es)"

lemma accept_all_append:
  "accept_all p (es @ fs) = Option.bind (accept_all p es) (\<lambda>p'. accept_all p' fs)"
  by (induction es arbitrary: p) (simp_all split: bind_split)

text \<open>The calls of the manager, and a sequence of them with everything it returns.\<close>

datatype 'd sse_op =
  OpMessageStart 'd
| OpBlockStart int string 'd
| OpBlockDelta int 'd
| OpBlockStop int
| OpCloseOpen
| OpNextIndex
| OpHasToolUse bool
| OpStopReason string

definition of_option :: "'a option \<times> 's \<Rightarrow> 'a list \<times> 's" where
  "of_option r = (case r of (None, s) \<Rightarrow> ([], s) | (Some e, s) \<Rightarrow> ([e], s))"

fun sse_step :: "'d sse_op \<Rightarrow> sse_state_manager \<Rightarrow> 'd sse_event list \<times> sse_state_manager" where
  "sse_step (OpMessageStart d) m = of_option (handle_message_start d m)"
| "sse_step (OpBlockStart i t d) m = handle_content_block_start i t d m"
| "sse_step (OpBlockDelta i d) m = of_option (handle_content_block_delta i d m)"
| "sse_step (OpBlockStop i) m = of_option (handle_content_block_stop i m)"
| "sse_step OpCloseOpen m = close_open_blocks m"
| "sse_step OpNextIndex m = ([], snd (next_block_index m))"
| "sse_step (OpHasToolUse b) m = ([], set_has_tool_use b m)"
| "sse_step (OpStopReason r) m = ([], set_stop_reason r m)"

fun sse_run :: "'d sse_op list \<Rightarrow> sse_state_manager \<Rightarrow> 'd sse_event list \<times> sse_state_manager" where
  "sse_run [] m = ([], m)"
| "sse_run (x # xs) m =
     (let (es, m1) = sse_step x m; (fs, m2) = sse_run xs m1 in (es @ fs, m2))"

subsection \<open>The manager keeps the protocol\<close>

definition phase_of :: "block_state \<Rightarrow> block_phase" where
  "phase_of b = (if stopped b then Closed else Open)"

definition abstract :: "sse_state_manager \<Rightarrow> protocol" where
  "abstract m = \<lparr>begun = message_started m,
     blocks = (\<lambda>i. map_option phase_of (btree_get i (active_blocks m))),
     delta_sent = message_delta_sent m, finished = message_ended m\<rparr>"

definition sse_inv :: "sse_state_manager \<Rightarrow> bool" where
  "sse_inv m \<longleftrightarrow> ascending_keys (active_blocks m) \<and>
     (\<forall>i b. btree_get i (active_blocks m) = Some b \<longrightarrow> started b)"

definition live :: "sse_state_manager \<Rightarrow> bool" where
  "live m \<longleftrightarrow> message_started m \<and> \<not> message_delta_sent m \<and> \<not> message_ended m"

lemma sse_inv_new [simp]: "sse_inv sse_new"
  by (simp add: sse_inv_def sse_new_def ascending_keys_def)

lemma accept_stops:
  assumes "\<forall>i \<in> set is. blocks p i = Some Open" and "distinct is" and "begun p" and "\<not> finished p"
  shows "accept_all p (map ContentBlockStop is :: 'd sse_event list) =
    Some (p\<lparr>blocks := (\<lambda>i. if i \<in> set is then Some Closed else blocks p i)\<rparr>)"
  using assms
proof (induction "is" arbitrary: p)
  case (Cons i "is")
  define q where "q = p\<lparr>blocks := (blocks p)(i \<mapsto> Closed)\<rparr>"
  have "accept_all q (map ContentBlockStop is :: 'd sse_event list) =
      Some (q\<lparr>blocks := (\<lambda>j. if j \<in> set is then Some Closed else blocks q j)\<rparr>)"
    using Cons.prems by (intro Cons.IH) (auto simp: q_def)
  moreover have "accept p (ContentBlockStop i :: 'd sse_event) = Some q" using Cons.prems by (simp add: accept_def q_def)
  moreover have "q\<lparr>blocks := (\<lambda>j. if j \<in> set is then Some Closed else blocks q j)\<rparr> =
      p\<lparr>blocks := (\<lambda>j. if j \<in> set (i # is) then Some Closed else blocks p j)\<rparr>"
    by (auto simp: q_def fun_eq_iff)
  ultimately show ?case by simp
qed simp

lemma stop_blocks_ok:
  assumes inv: "sse_inv m" and s: "message_started m" "\<not> message_ended m"
    and st: "stop_blocks P m = (es :: 'd sse_event list, m')"
  shows "accept_all (abstract m) es = Some (abstract m')" and "sse_inv m'"
    and "\<forall>i b. btree_get i (active_blocks m') = Some b \<longrightarrow> P b \<longrightarrow> stopped b"
proof -
  let ?f = "\<lambda>b. if P b \<and> block_is_open b then b\<lparr>stopped := True\<rparr> else b"
  let ?is = "map fst (filter (\<lambda>(_, b). P b \<and> block_is_open b) (active_blocks m))"
  have m': "active_blocks m' = map (\<lambda>(i, b). (i, ?f b)) (active_blocks m)"
    "message_started m' = message_started m" "message_delta_sent m' = message_delta_sent m"
    "message_ended m' = message_ended m"
    and es: "es = map ContentBlockStop ?is"
    using st by (auto simp: stop_blocks_def comp_def case_prod_beta)
  have get': "btree_get i (active_blocks m') = map_option ?f (btree_get i (active_blocks m))" for i
    by (simp add: m'(1) map_of_map_values)
  have d: "distinct (map fst (active_blocks m))" using inv by (simp add: sse_inv_def ascending_distinct)
  have mem: "i \<in> set ?is \<longleftrightarrow> (\<exists>b. btree_get i (active_blocks m) = Some b \<and> P b \<and> block_is_open b)" for i
    using d by (force simp: map_of_eq_Some_iff)
  have "distinct ?is" using d by (simp add: distinct_map_filter)
  moreover have "\<forall>i \<in> set ?is. blocks (abstract m) i = Some Open"
    by (auto simp only: mem) (auto simp: abstract_def phase_of_def block_is_open_def)
  ultimately have "accept_all (abstract m) es =
      Some ((abstract m)\<lparr>blocks := (\<lambda>i. if i \<in> set ?is then Some Closed else blocks (abstract m) i)\<rparr>)"
    unfolding es using s by (intro accept_stops) (simp_all add: abstract_def)
  moreover have "(\<lambda>i. if i \<in> set ?is then Some Closed else blocks (abstract m) i) = blocks (abstract m')"
  proof
    fix i show "(if i \<in> set ?is then Some Closed else blocks (abstract m) i) = blocks (abstract m') i"
      unfolding mem by (cases "btree_get i (active_blocks m)") (auto simp: abstract_def get' phase_of_def)
  qed
  ultimately show "accept_all (abstract m) es = Some (abstract m')"
    by (simp add: m' abstract_def)
  show "sse_inv m'" using inv
    by (auto simp: sse_inv_def m'(1) map_of_map_values)
  show "\<forall>i b. btree_get i (active_blocks m') = Some b \<longrightarrow> P b \<longrightarrow> stopped b"
  proof (intro allI impI)
    fix i b assume "btree_get i (active_blocks m') = Some b" "P b"
    then obtain c where c: "btree_get i (active_blocks m) = Some c" "b = ?f c" by (auto simp: get')
    then have "started c" using inv by (simp add: sse_inv_def)
    show "stopped b"
    proof (cases "P c \<and> block_is_open c")
      case False
      then have "b = c" using c(2) by auto
      then show ?thesis using \<open>started c\<close> \<open>P b\<close> False by (simp add: block_is_open_def)
    qed (simp add: c(2))
  qed
qed

lemma abstract_insert:
  "abstract (m\<lparr>active_blocks := btree_insert i b (active_blocks m)\<rparr>) =
     (abstract m)\<lparr>blocks := (blocks (abstract m))(i \<mapsto> phase_of b)\<rparr>"
  by (simp add: abstract_def fun_eq_iff)

lemma sse_inv_insert: "sse_inv m \<Longrightarrow> started b \<Longrightarrow>
    sse_inv (m\<lparr>active_blocks := btree_insert i b (active_blocks m)\<rparr>)"
  by (auto simp: sse_inv_def)

lemma block_start_unfold:
  assumes "(if t = ''tool_use''
      then stop_blocks (\<lambda>b. block_type b = ''text'') (m\<lparr>has_tool_use := True\<rparr>)
      else ([], m)) = (es1 :: 'd sse_event list, m1)"
  shows "handle_content_block_start i t (d :: 'd) m =
     (case btree_get i (active_blocks m1) of
        Some b \<Rightarrow>
          if started b then (es1, m1)
          else (es1 @ [ContentBlockStart i d],
                m1\<lparr>active_blocks := btree_insert i (b\<lparr>started := True\<rparr>) (active_blocks m1)\<rparr>)
      | None \<Rightarrow>
          (es1 @ [ContentBlockStart i d],
           m1\<lparr>active_blocks := btree_insert i ((block_new t)\<lparr>started := True\<rparr>) (active_blocks m1)\<rparr>))"
  unfolding handle_content_block_start_def assms by simp

lemma block_start_ok:
  assumes inv: "sse_inv m" and s: "live m"
    and st: "handle_content_block_start i t (d :: 'd) m = (es, m')"
  shows "accept_all (abstract m) es = Some (abstract m') \<and> sse_inv m' \<and> live m'"
proof -
  define r where "r = (if t = ''tool_use''
      then stop_blocks (\<lambda>b. block_type b = ''text'') (m\<lparr>has_tool_use := True\<rparr>)
      else ([] :: 'd sse_event list, m))"
  obtain es1 m1 where r1: "r = (es1, m1)" by force
  have "accept_all (abstract m) es1 = Some (abstract m1) \<and> sse_inv m1 \<and> live m1"
  proof (cases "t = ''tool_use''")
    case True
    let ?m = "m\<lparr>has_tool_use := True\<rparr>"
    have "abstract ?m = abstract m" by (simp add: abstract_def)
    moreover have "sse_inv ?m" "message_started ?m" "\<not> message_ended ?m"
      using inv s by (simp_all add: sse_inv_def live_def)
    moreover have st1: "stop_blocks (\<lambda>b. block_type b = ''text'') ?m = (es1, m1)"
      using r1 True by (simp add: r_def)
    moreover have "live m1" using s st1 by (auto simp: stop_blocks_def live_def)
    ultimately show ?thesis using stop_blocks_ok [OF _ _ _ st1] by simp
  next
    case False
    then show ?thesis using r1 inv s by (simp add: r_def)
  qed
  moreover have "(es, m') =
     (case btree_get i (active_blocks m1) of
        Some b \<Rightarrow>
          if started b then (es1, m1)
          else (es1 @ [ContentBlockStart i d],
                m1\<lparr>active_blocks := btree_insert i (b\<lparr>started := True\<rparr>) (active_blocks m1)\<rparr>)
      | None \<Rightarrow>
          (es1 @ [ContentBlockStart i d],
           m1\<lparr>active_blocks := btree_insert i ((block_new t)\<lparr>started := True\<rparr>) (active_blocks m1)\<rparr>))"
    using st block_start_unfold [OF r1 [unfolded r_def], of i d] by simp
  moreover have "started b" if "btree_get i (active_blocks m1) = Some b" for b
    using calculation(1) that by (auto simp: sse_inv_def)
  moreover have "accept (abstract m1) (ContentBlockStart i d) =
      Some ((abstract m1)\<lparr>blocks := (blocks (abstract m1))(i \<mapsto> Open)\<rparr>)"
    if "btree_get i (active_blocks m1) = None"
    using calculation(1) that by (simp add: accept_def abstract_def live_def)
  moreover have "phase_of ((block_new t)\<lparr>started := True\<rparr>) = Open" by (simp add: phase_of_def block_new_def)
  ultimately show ?thesis
    by (cases "btree_get i (active_blocks m1)")
      (auto simp: accept_all_append abstract_insert sse_inv_insert live_def)
qed

lemma sse_step_ok:
  assumes inv: "sse_inv m" and s: "live m" and st: "sse_step x m = (es, m')"
  shows "accept_all (abstract m) es = Some (abstract m') \<and> sse_inv m' \<and> live m'"
proof (cases x)
  case (OpMessageStart d)
  then show ?thesis using assms by (auto simp: handle_message_start_def of_option_def live_def)
next
  case (OpBlockStart i t d)
  then show ?thesis using block_start_ok [OF inv s] st by simp
next
  case (OpBlockDelta i d)
  then show ?thesis using assms
    by (auto simp: handle_content_block_delta_def of_option_def live_def accept_def abstract_def phase_of_def
        split: option.splits if_splits)
next
  case (OpBlockStop i)
  then show ?thesis using assms
    by (auto simp: handle_content_block_stop_def of_option_def live_def accept_def abstract_insert
        sse_inv_insert split: option.splits if_splits)
      (auto simp: abstract_def phase_of_def sse_inv_def)
next
  case OpCloseOpen
  then have st': "stop_blocks (\<lambda>_. True) m = (es, m')" using st by (simp add: close_open_blocks_def)
  moreover have "live m'" using s st' by (auto simp: stop_blocks_def live_def)
  ultimately show ?thesis using stop_blocks_ok [OF inv _ _ st'] s by (simp add: live_def)
qed (use assms in \<open>auto simp: next_block_index_def set_has_tool_use_def set_stop_reason_def abstract_def
      sse_inv_def live_def\<close>)

lemma sse_run_ok:
  "sse_inv m \<Longrightarrow> live m \<Longrightarrow> sse_run xs m = (es, m') \<Longrightarrow>
     accept_all (abstract m) es = Some (abstract m') \<and> sse_inv m' \<and> live m'"
proof (induction xs arbitrary: m es)
  case (Cons x xs)
  obtain e1 m1 where 1: "sse_step x m = (e1, m1)" by force
  then obtain e2 where 2: "sse_run xs m1 = (e2, m')" using Cons.prems(3) by (auto split: prod.splits)
  from sse_step_ok [OF Cons.prems(1,2) 1] Cons.IH [OF _ _ 2] Cons.prems(3) 1 2 show ?case
    by (auto simp: accept_all_append)
qed simp

lemma final_ok:
  assumes inv: "sse_inv m" and s: "live m"
    and g: "generate_final_events scale inp out cache m = (es :: 'd sse_event list, m')"
  shows "accept_all (abstract m) es = Some (abstract m')" and "message_ended m'"
    and "\<exists>is u. es = map ContentBlockStop is @ [MessageDelta (get_stop_reason m) u, MessageStop] \<and>
      sorted_wrt (<) is"
    and "\<forall>i. blocks (abstract m') i \<noteq> Some Open" and "message_delta_sent m'" and "sse_inv m'"
proof -
  obtain e1 m1 where st: "stop_blocks (\<lambda>_. True) m = (e1 :: 'd sse_event list, m1)" by force
  note ok = stop_blocks_ok [OF inv _ _ st]
  have l1: "live m1" "get_stop_reason m1 = get_stop_reason m" using s st
    by (auto simp: stop_blocks_def live_def get_stop_reason_def)
  then obtain u where r: "es = e1 @ [MessageDelta (get_stop_reason m) u, MessageStop]"
    "m' = m1\<lparr>message_delta_sent := True, message_ended := True\<rparr>"
    using g by (auto simp: generate_final_events_def close_open_blocks_def st live_def)
  have closed: "blocks (abstract m1) i \<noteq> Some Open" for i
    using ok(3) s by (auto simp: abstract_def phase_of_def live_def split: if_splits)
  have "accept_all (abstract m) e1 = Some (abstract m1)" using ok(1) s by (simp add: live_def)
  moreover have "accept (abstract m1) (MessageDelta r u :: 'd sse_event) = Some ((abstract m1)\<lparr>delta_sent := True\<rparr>)" for r
    using l1 closed by (simp add: accept_def abstract_def live_def)
  moreover have "accept ((abstract m1)\<lparr>delta_sent := True\<rparr>) (MessageStop :: 'd sse_event) = Some (abstract m')"
    using l1 by (simp add: accept_def abstract_def live_def r(2))
  ultimately show "accept_all (abstract m) es = Some (abstract m')" by (simp add: r(1) accept_all_append)
  show "message_ended m'" "message_delta_sent m'" by (simp_all add: r(2))
  show "\<forall>i. blocks (abstract m') i \<noteq> Some Open" using closed by (simp add: r(2) abstract_def)
  show "sse_inv m'" using ok(2) s by (simp add: r(2) sse_inv_def live_def)
  have "e1 = map ContentBlockStop (map fst (filter (\<lambda>(_, b). block_is_open b) (active_blocks m)))"
    using st by (auto simp: stop_blocks_def comp_def case_prod_beta)
  moreover have "sorted_wrt (<) (map fst (filter (\<lambda>(_, b). block_is_open b) (active_blocks m)))"
    using inv by (simp add: sse_inv_def ascending_keys_def sorted_wrt_map sorted_wrt_filter)
  ultimately show "\<exists>is u. es = map ContentBlockStop is @ [MessageDelta (get_stop_reason m) u, MessageStop] \<and>
      sorted_wrt (<) is"
    using r(1) by blast
qed

text \<open>
  C3. Every stream the manager produces is one the client accepts: after the message start, whatever
  starts, deltas, stops and other calls come, in any order, with any indices and however often, the
  events returned, followed by the final events, run through the protocol from its initial state to
  its end: each block started once, its deltas between start and stop, every block stopped before
  the one message delta, the message stop last. The final events stop the open blocks in ascending
  order of their index.
\<close>
theorem sse_protocol:
  fixes d :: 'd
  assumes "sse_run (OpMessageStart d # xs) sse_new = (es, m)"
    and "generate_final_events scale inp out cache m = (fs, m')"
  shows "(\<exists>p. accept_all protocol_new (es @ fs) = Some p \<and> finished p \<and> (\<forall>i. blocks p i \<noteq> Some Open)) \<and>
    (\<exists>is u. fs = map ContentBlockStop is @ [MessageDelta (get_stop_reason m) u, MessageStop] \<and>
      sorted_wrt (<) is)"
proof -
  let ?m0 = "sse_new\<lparr>message_started := True\<rparr>"
  obtain es1 where es1: "es = MessageStart d # es1" "sse_run xs ?m0 = (es1, m)"
    using assms(1) by (auto simp: handle_message_start_def of_option_def sse_new_def split: prod.splits)
  have "sse_inv ?m0" "live ?m0" by (auto simp: sse_inv_def sse_new_def ascending_keys_def live_def)
  from sse_run_ok [OF this es1(2)]
  have run: "accept_all (abstract ?m0) es1 = Some (abstract m)" "sse_inv m" "live m" by auto
  note fin = final_ok [OF run(2,3) assms(2)]
  have "accept protocol_new (MessageStart d) = Some (abstract ?m0)"
    by (simp add: accept_def protocol_new_def abstract_def sse_new_def)
  then have "accept_all protocol_new (es @ fs) = Some (abstract m')"
    using run fin(1) by (simp add: es1(1) accept_all_append)
  then have "\<exists>p. accept_all protocol_new (es @ fs) = Some p \<and> finished p \<and> (\<forall>i. blocks p i \<noteq> Some Open)"
    using fin(2,4) by (intro exI [of _ "abstract m'"]) (simp add: abstract_def)
  with fin(3) show ?thesis by blast
qed

lemma sse_protocol_witness:
  "\<exists>es m fs m' p. sse_run [OpMessageStart (0::nat), OpBlockStart 0 ''text'' 1, OpBlockDelta 0 2,
        OpBlockStart 1 ''tool_use'' 3, OpBlockDelta 0 4, OpBlockDelta 1 5] sse_new = (es, m) \<and>
     generate_final_events (\<lambda>n. n) 10 20 None m = (fs, m') \<and>
     accept_all protocol_new (es @ fs) = Some p \<and> finished p"
proof -
  obtain es m where 1: "sse_run [OpMessageStart (0::nat), OpBlockStart 0 ''text'' 1, OpBlockDelta 0 2,
        OpBlockStart 1 ''tool_use'' 3, OpBlockDelta 0 4, OpBlockDelta 1 5] sse_new = (es, m)" by (meson surj_pair)
  obtain fs :: "nat sse_event list" and m' where 2: "generate_final_events (\<lambda>n. n) 10 20 None m = (fs, m')" by force
  from sse_protocol [OF 1 2] 1 2 show ?thesis by blast
qed

text \<open>
  After the final events the manager is silent: repeated final events, deltas, stops, a second
  message start and starts of known blocks return nothing. The one exception, against the comment
  of the source, is the start of a block with an unused index, which still sends its event after
  the message stop.
\<close>
theorem silent_after_final:
  fixes d :: 'd and x :: "'d sse_op"
  assumes "sse_run (OpMessageStart d # xs) sse_new = (es, m)"
    and "generate_final_events scale inp out cache m = (fs, m')"
  shows "fst (generate_final_events scale inp' out' cache' m') = ([] :: 'd sse_event list) \<and>
    fst (sse_step x m') =
      (case x of
         OpBlockStart i _ d \<Rightarrow>
           if btree_get i (active_blocks m') = None then [ContentBlockStart i d] else []
       | _ \<Rightarrow> [])"
proof -
  let ?m0 = "sse_new\<lparr>message_started := True\<rparr>"
  obtain es1 where es1: "sse_run xs ?m0 = (es1, m)"
    using assms(1) by (auto simp: handle_message_start_def of_option_def sse_new_def split: prod.splits)
  have "sse_inv ?m0" "live ?m0" by (auto simp: sse_inv_def sse_new_def ascending_keys_def live_def)
  from sse_run_ok [OF this es1] have run: "sse_inv m" "live m" by auto
  note fin = final_ok [OF run assms(2)]
  have started: "message_started m'"
    using run(2) assms(2) by (auto simp: generate_final_events_def close_open_blocks_def stop_blocks_def live_def Let_def
        split: if_splits)
  have st: "started b \<and> stopped b" if "btree_get i (active_blocks m') = Some b" for i b
    using fin(4,6) that by (auto simp: abstract_def phase_of_def sse_inv_def split: if_splits)
  have none: "fst (stop_blocks P m') = ([] :: 'd sse_event list)" for P
  proof -
    have "distinct (map fst (active_blocks m'))" using fin(6) by (simp add: sse_inv_def ascending_distinct)
    then have "\<not> block_is_open b" if "(i, b) \<in> set (active_blocks m')" for i b
      using map_of_is_SomeI [OF _ that] st by (simp add: block_is_open_def)
    then have "filter (\<lambda>(i, b). P b \<and> block_is_open b) (active_blocks m') = []"
      by (auto simp: filter_empty_conv)
    then show ?thesis by (simp add: stop_blocks_def)
  qed
  have "fst (generate_final_events scale inp' out' cache' m') = ([] :: 'd sse_event list)"
  proof -
    obtain m1 where m1: "stop_blocks (\<lambda>_. True) m' = ([] :: 'd sse_event list, m1)"
      using none [of "\<lambda>_. True"] by (metis prod.collapse)
    then have "message_delta_sent m1" "message_ended m1" using fin(2,5) by (auto simp: stop_blocks_def)
    then show ?thesis by (simp add: generate_final_events_def close_open_blocks_def m1)
  qed
  moreover have "fst (sse_step x m') =
      (case x of OpBlockStart i _ d \<Rightarrow>
           if btree_get i (active_blocks m') = None then [ContentBlockStart i d] else []
       | _ \<Rightarrow> [])"
  proof (cases x)
    case (OpBlockStart i t d)
    define r where "r = (if t = ''tool_use''
      then stop_blocks (\<lambda>b. block_type b = ''text'') (m'\<lparr>has_tool_use := True\<rparr>) else ([] :: 'd sse_event list, m'))"
    obtain e1 m1 where r1: "r = (e1, m1)" by force
    have "stop_blocks P (m'\<lparr>has_tool_use := True\<rparr>) =
        (fst (stop_blocks P m') :: 'd sse_event list, (snd (stop_blocks P m' :: 'd sse_event list \<times> _))\<lparr>has_tool_use := True\<rparr>)" for P
      by (simp add: stop_blocks_def)
    then have "e1 = []" using r1 none by (auto simp: r_def split: if_splits)
    moreover have "btree_get i (active_blocks m1) = None \<longleftrightarrow> btree_get i (active_blocks m') = None"
      "btree_get i (active_blocks m1) = Some b \<Longrightarrow> started b" for b
      using r1 st by (auto simp: r_def stop_blocks_def map_of_map_values split: if_splits)
    ultimately show ?thesis using OpBlockStart block_start_unfold [OF r1 [unfolded r_def], of i d] st
      by (auto split: option.splits)
  qed (use none started st in \<open>auto simp: handle_message_start_def of_option_def handle_content_block_delta_def
        handle_content_block_stop_def close_open_blocks_def split: option.splits\<close>)
  ultimately show ?thesis by blast
qed

lemma silent_after_final_witness:
  "\<exists>es m fs m'. sse_run [OpMessageStart (0::nat), OpBlockStart 0 ''text'' 1] sse_new = (es, m) \<and>
     generate_final_events (\<lambda>n. n) 10 20 None m = (fs :: nat sse_event list, m') \<and>
     fst (sse_step (OpBlockDelta 0 2) m') = ([] :: nat sse_event list)"
proof -
  obtain es m where 1: "sse_run [OpMessageStart (0::nat), OpBlockStart 0 ''text'' 1] sse_new = (es, m)"
    by (meson surj_pair)
  obtain fs :: "nat sse_event list" and m' where 2: "generate_final_events (\<lambda>n. n) 10 20 None m = (fs, m')" by force
  from silent_after_final [where x = "OpBlockDelta 0 2", OF 1 2]
  have "fst (sse_step (OpBlockDelta 0 2) m') = ([] :: nat sse_event list)" by simp
  with 1 2 show ?thesis by blast
qed

subsection \<open>How a response ended\<close>

datatype completion_status =
  Completed
| UpstreamError string string
| TransportError string
| DecoderStopped string
| Incomplete string

datatype request_outcome =
  Success | RateLimited | AuthFailed | QuotaExhausted | AccountSuspended | ServerError | BadRequest
| NetworkError | OtherError | ModelUnavailable | EmptyResponse | Interrupted

definition is_ok :: "completion_status \<Rightarrow> bool" where "is_ok s \<longleftrightarrow> s = Completed"

definition is_rate_limit_signal :: "string \<Rightarrow> bool" where
  "is_rate_limit_signal s =
     (let lower = to_ascii_lowercase s in
      contains ''throttl'' lower \<or> contains ''toomanyrequests'' lower \<or>
      contains ''too many requests'' lower \<or> contains ''ratelimit'' lower \<or>
      contains ''rate limit'' lower \<or> contains ''429'' lower \<or> contains ''overload'' lower \<or>
      contains ''quota'' lower \<or> contains ''exhaust'' lower)"

definition outcome :: "completion_status \<Rightarrow> request_outcome" where
  "outcome s =
     (case s of
        Completed \<Rightarrow> Success
      | UpstreamError c message \<Rightarrow>
          if is_rate_limit_signal c \<or> is_rate_limit_signal message then RateLimited else ServerError
      | TransportError _ \<Rightarrow> NetworkError
      | DecoderStopped _ \<Rightarrow> ServerError
      | Incomplete _ \<Rightarrow> ServerError)"

definition sse_error_type :: "completion_status \<Rightarrow> string" where
  "sse_error_type s =
     (case s of
        Completed \<Rightarrow> ''api_error''
      | UpstreamError c message \<Rightarrow>
          if is_rate_limit_signal c \<or> is_rate_limit_signal message then ''overloaded_error''
          else ''api_error''
      | TransportError _ \<Rightarrow> ''api_error''
      | DecoderStopped _ \<Rightarrow> ''api_error''
      | Incomplete _ \<Rightarrow> ''api_error'')"

definition http_status_u16 :: "completion_status \<Rightarrow> nat" where
  "http_status_u16 s = (case outcome s of RateLimited \<Rightarrow> 429 | _ \<Rightarrow> 502)"

text \<open>The streaming and the non-streaming path classify an error alike.\<close>

lemma error_paths_agree:
  "http_status_u16 s = 429 \<longleftrightarrow> sse_error_type s = ''overloaded_error''"
  "outcome s = Success \<longleftrightarrow> is_ok s"
  by (cases s; simp add: http_status_u16_def outcome_def sse_error_type_def is_ok_def)+

subsection \<open>Usage and empty responses\<close>

text \<open>Arithmetic of \<open>i32\<close>, saturating.\<close>

definition sat_sub_i32 :: "int \<Rightarrow> int \<Rightarrow> int" where
  "sat_sub_i32 a b = max (- (2 ^ 31)) (min (2 ^ 31 - 1) (a - b))"

definition billed_input_tokens :: "int \<Rightarrow> int \<Rightarrow> int \<Rightarrow> int" where
  "billed_input_tokens input creation read = max 0 (sat_sub_i32 (sat_sub_i32 input creation) read)"

lemma billed_exact:
  "0 \<le> c \<Longrightarrow> 0 \<le> r \<Longrightarrow> c + r \<le> n \<Longrightarrow> n < 2 ^ 31 \<Longrightarrow> billed_input_tokens n c r + c + r = n"
  by (simp add: billed_input_tokens_def sat_sub_i32_def)

definition NEAR_EMPTY_OUTPUT_THRESHOLD :: int where "NEAR_EMPTY_OUTPUT_THRESHOLD = 30"

text \<open>\<open>oversized\<close> is \<open>empty_response_oversized_threshold(model)\<close>, 28 percent of the model's window.\<close>

definition near_empty_response :: "int \<Rightarrow> int \<Rightarrow> bool \<Rightarrow> int \<Rightarrow> bool" where
  "near_empty_response oversized output tool_use input =
     (if output = 0 \<and> \<not> tool_use then True
      else 0 < output \<and> output < NEAR_EMPTY_OUTPUT_THRESHOLD \<and> \<not> tool_use \<and> oversized \<le> input)"

subsection \<open>Character boundaries\<close>

fun boundary_below :: "string \<Rightarrow> nat \<Rightarrow> nat" where
  "boundary_below s 0 = 0"
| "boundary_below s (Suc pos) = (if is_char_boundary s (Suc pos) then Suc pos else boundary_below s pos)"

definition find_char_boundary :: "string \<Rightarrow> nat \<Rightarrow> nat" where
  "find_char_boundary s target =
     (if target \<ge> length s then length s else if target = 0 then 0 else boundary_below s target)"

lemma boundary_below_ok:
  "boundary_below s n \<le> n \<and> is_char_boundary s (boundary_below s n) \<and>
   (\<forall>i. boundary_below s n < i \<and> i \<le> n \<longrightarrow> \<not> is_char_boundary s i)"
proof (induction n)
  case 0
  show ?case by (auto simp: is_char_boundary_def)
next
  case (Suc n)
  then show ?case by (auto simp: le_Suc_eq)
qed

text \<open>The result is the greatest boundary not after the target.\<close>

lemma find_char_boundary_ok:
  "find_char_boundary s n \<le> n \<and> is_char_boundary s (find_char_boundary s n) \<and>
   (\<forall>i. is_char_boundary s i \<and> i \<le> n \<longrightarrow> i \<le> find_char_boundary s n)"
proof (cases "n < length s \<and> n \<noteq> 0")
  case True
  then show ?thesis using boundary_below_ok [of s n] by (auto simp: find_char_boundary_def not_less [symmetric])
next
  case False
  then consider "length s \<le> n" | "n = 0" "n < length s" by linarith
  then show ?thesis by cases (auto simp: find_char_boundary_def is_char_boundary_def)
qed

end
