(* ===== verification/ThinkingTags.thy ===== *)
theory ThinkingTags
  imports Text "HOL-Library.Sublist"
begin

text \<open>
  The thinking tags in the text of a response: \<open>src/src/anthropic/thinking_tags.rs\<close>, and
  \<open>strip_inline_thinking_when_disabled\<close> of \<open>src/src/anthropic/stream.rs\<close>, which removes the thinking
  of a model from the text streamed to a client that did not ask for it.

  A tag is found at a byte position. \<open>tag_len\<close> looks at the text from there on; the loops that look
  for the first tag with some property are one recursion over the positions, \<open>scan_loop\<close>, with the
  decision of the loop's body as its argument.
\<close>

subsection \<open>The form of a tag\<close>

definition is_quote_char :: "string \<Rightarrow> nat \<Rightarrow> bool" where
  "is_quote_char buffer pos \<longleftrightarrow>
     pos < length buffer \<and> buffer ! pos \<in> {CHR 0x60, CHR 0x22, CHR 0x27}"

definition THINKING_TAG_NAME :: string where "THINKING_TAG_NAME = ''thinking''"
definition MAX_THINKING_TAG_INNER_BYTES :: nat where "MAX_THINKING_TAG_INNER_BYTES = 64"
definition PARAGRAPH_BREAK_LEN :: nat where "PARAGRAPH_BREAK_LEN = 2"

record tag_match =
  start :: nat
  len :: nat

definition match_end :: "tag_match \<Rightarrow> nat" where "match_end m = start m + len m"

definition is_ascii_whitespace :: "char \<Rightarrow> bool" where
  "is_ascii_whitespace c \<longleftrightarrow> c \<in> {CHR 0x20, CHR 0x09, CHR 0x0A, CHR 0x0C, CHR 0x0D}"

text \<open>The loop over the bytes between the name and \<open>>\<close>: \<open>n\<close> of them are read.\<close>

fun tag_inner :: "bool \<Rightarrow> nat \<Rightarrow> string \<Rightarrow> nat option" where
  "tag_inner closing n [] = None"
| "tag_inner closing n (c # s) =
     (if n \<ge> MAX_THINKING_TAG_INNER_BYTES then None
      else if c = CHR ''>'' then Some (Suc n)
      else if c = CHR ''<'' \<or> c = CHR 0x0A \<or> c = CHR 0x0D then None
      else if closing \<and> \<not> is_ascii_whitespace c then None
      else tag_inner closing (Suc n) s)"

definition tag_len :: "bool \<Rightarrow> string \<Rightarrow> nat option" where
  "tag_len closing s =
     (if \<not> starts_with ''<'' s then None
      else if closing \<and> \<not> starts_with ''</'' s then None
      else if \<not> closing \<and> starts_with ''</'' s then None
      else
        let off = (if closing then 2 else 1); name_end = off + length THINKING_TAG_NAME in
        if length s < name_end \<or>
           \<not> eq_ignore_ascii_case (take (length THINKING_TAG_NAME) (drop off s)) THINKING_TAG_NAME then None
        else
          (case drop name_end s of
             [] \<Rightarrow> None
           | c # r \<Rightarrow>
               if c = CHR ''>'' then Some (name_end + 1)
               else if is_ascii_whitespace c then map_option (\<lambda>n. name_end + n) (tag_inner closing 0 (c # r))
               else None))"

definition thinking_tag_len_at :: "string \<Rightarrow> nat \<Rightarrow> bool \<Rightarrow> nat option" where
  "thinking_tag_len_at buffer pos closing = tag_len closing (drop pos buffer)"

subsection \<open>Looking for tags\<close>

function scan_thinking_tag :: "string \<Rightarrow> nat \<Rightarrow> bool \<Rightarrow> tag_match option" where
  "scan_thinking_tag buffer i closing =
     (if i < length buffer then
        (case (if buffer ! i = CHR ''<'' then thinking_tag_len_at buffer i closing else None) of
           Some l \<Rightarrow> Some \<lparr>start = i, len = l\<rparr>
         | None \<Rightarrow> scan_thinking_tag buffer (Suc i) closing)
      else None)"
  by pat_completeness auto
termination by (relation "measure (\<lambda>(b, i, c). length b - i)") auto

declare scan_thinking_tag.simps [simp del]

definition thinking_tag_is_quoted :: "string \<Rightarrow> tag_match \<Rightarrow> bool" where
  "thinking_tag_is_quoted buffer m \<longleftrightarrow>
     (start m > 0 \<and> is_quote_char buffer (start m - 1)) \<or> is_quote_char buffer (match_end m)"

text \<open>What the body of a search loop decides on a match: go on after it, or return.\<close>

datatype decision = Continue | Return "tag_match option"

lemma scan_thinking_tag_bounds:
  "scan_thinking_tag buffer i closing = Some m \<Longrightarrow> i \<le> start m \<and> start m < length buffer"
proof (induction buffer i closing rule: scan_thinking_tag.induct)
  case (1 buffer i closing)
  show ?case
  proof (cases "i < length buffer \<and> buffer ! i = CHR ''<'' \<and> thinking_tag_len_at buffer i closing \<noteq> None")
    case True
    then show ?thesis using 1(2) by (auto simp: scan_thinking_tag.simps [of buffer i])
  next
    case False
    then have "i < length buffer \<and> scan_thinking_tag buffer (Suc i) closing = Some m"
      using 1(2) by (auto simp: scan_thinking_tag.simps [of buffer i] split: if_splits)
    moreover have "(if buffer ! i = CHR ''<'' then thinking_tag_len_at buffer i closing else None) = None"
      using False calculation by auto
    ultimately show ?thesis using 1(1) by fastforce
  qed
qed

function scan_loop :: "(tag_match \<Rightarrow> decision) \<Rightarrow> string \<Rightarrow> bool \<Rightarrow> nat \<Rightarrow> tag_match option" where
  "scan_loop decide buffer closing from =
     (case scan_thinking_tag buffer from closing of
        None \<Rightarrow> None
      | Some m \<Rightarrow>
          (case decide m of
             Return r \<Rightarrow> r
           | Continue \<Rightarrow> scan_loop decide buffer closing (Suc (start m))))"
  by pat_completeness auto
termination
  by (relation "measure (\<lambda>(d, b, c, i). length b - i)") (auto dest: scan_thinking_tag_bounds)

declare scan_loop.simps [simp del]

text \<open>The white space a text starts with, in bytes.\<close>

function ws_prefix_len :: "string \<Rightarrow> nat" where
  "ws_prefix_len s =
     (let n = ws_len (map code s) in
      if s = [] \<or> n = 0 then 0 else n + ws_prefix_len (drop n s))"
  by pat_completeness auto
termination by (relation "measure length") (auto simp: Let_def)

declare ws_prefix_len.simps [simp del]

definition end_tag_decision :: "string \<Rightarrow> tag_match \<Rightarrow> decision" where
  "end_tag_decision buffer m =
     (if thinking_tag_is_quoted buffer m then Continue
      else
        let after_content = drop (match_end m) buffer in
        if after_content = [] then Return None
        else if hd after_content = CHR ''<'' then Return (Some m)
        else if ws_len (map code after_content) > 0 then
          (let n = ws_prefix_len after_content; ws = take n after_content in
           if length ws = length after_content \<and> length ws < PARAGRAPH_BREAK_LEN then Return None
           else if CHR 0x0A \<in> set ws then Return (Some m)
           else Continue)
        else Continue)"

definition find_real_thinking_end_tag :: "string \<Rightarrow> tag_match option" where
  "find_real_thinking_end_tag buffer = scan_loop (end_tag_decision buffer) buffer True 0"

definition thinking_end_tag_consumed_len :: "string \<Rightarrow> tag_match \<Rightarrow> nat" where
  "thinking_end_tag_consumed_len buffer m =
     (let rest = drop (min (match_end m) (length buffer)) buffer in
      len m + length (takeWhile (\<lambda>b. b = CHR 0x0A) (take PARAGRAPH_BREAK_LEN rest)))"

definition find_real_thinking_end_tag_at_buffer_end :: "string \<Rightarrow> tag_match option" where
  "find_real_thinking_end_tag_at_buffer_end buffer =
     scan_loop (\<lambda>m. if thinking_tag_is_quoted buffer m then Continue
                    else if trim (drop (match_end m) buffer) = [] then Return (Some m)
                    else Continue) buffer True 0"

definition unsatisfiable_decision :: "string \<Rightarrow> tag_match \<Rightarrow> decision" where
  "unsatisfiable_decision buffer m =
     (if thinking_tag_is_quoted buffer m then Continue
      else
        let after = drop (match_end m) buffer in
        if after = [] then Return None
        else if hd after = CHR ''<'' then Continue
        else if ws_len (map code after) > 0 then
          (if ws_prefix_len after = length after then Return None else Continue)
        else Return (Some m))"

definition find_permanently_unsatisfiable_end_tag :: "string \<Rightarrow> tag_match option" where
  "find_permanently_unsatisfiable_end_tag buffer = scan_loop (unsatisfiable_decision buffer) buffer True 0"

definition unquoted_decision :: "string \<Rightarrow> tag_match \<Rightarrow> decision" where
  "unquoted_decision buffer m = (if thinking_tag_is_quoted buffer m then Continue else Return (Some m))"

definition find_stray_thinking_end_tag :: "string \<Rightarrow> tag_match option" where
  "find_stray_thinking_end_tag buffer = scan_loop (unquoted_decision buffer) buffer True 0"

definition find_real_thinking_start_tag :: "string \<Rightarrow> tag_match option" where
  "find_real_thinking_start_tag buffer = scan_loop (unquoted_decision buffer) buffer False 0"

lemma scan_thinking_tag_len:
  "scan_thinking_tag buffer i closing = Some m \<Longrightarrow>
     thinking_tag_len_at buffer (start m) closing = Some (len m)"
proof (induction buffer i closing rule: scan_thinking_tag.induct)
  case (1 buffer i closing)
  show ?case
  proof (cases "i < length buffer \<and> buffer ! i = CHR ''<'' \<and> thinking_tag_len_at buffer i closing \<noteq> None")
    case True
    then show ?thesis using 1(2) by (auto simp: scan_thinking_tag.simps [of buffer i])
  next
    case False
    then have "i < length buffer \<and> scan_thinking_tag buffer (Suc i) closing = Some m"
      using 1(2) by (auto simp: scan_thinking_tag.simps [of buffer i] split: if_splits)
    moreover have "(if buffer ! i = CHR ''<'' then thinking_tag_len_at buffer i closing else None) = None"
      using False calculation by auto
    ultimately show ?thesis using 1(1) by fastforce
  qed
qed

lemma tag_inner_bounds: "tag_inner closing n s = Some k \<Longrightarrow> n < k \<and> k \<le> n + length s"
  by (induction closing n s rule: tag_inner.induct) (fastforce split: if_splits)+

lemma tag_len_bounds: "tag_len closing s = Some l \<Longrightarrow> 10 \<le> l \<and> l \<le> length s"
proof -
  assume a: "tag_len closing s = Some l"
  define e where "e = (if closing then 2 else 1) + length THINKING_TAG_NAME"
  obtain c r where r: "drop e s = c # r" and l: "l = e + 1 \<or> (\<exists>n. tag_inner closing 0 (c # r) = Some n \<and> l = e + n)"
    using a by (auto simp: tag_len_def Let_def e_def split: if_splits list.splits)
  then have "length s = e + Suc (length r)" 
    by (metis drop_eq_Nil length_Cons length_drop le_add_diff_inverse linorder_le_cases list.distinct(1))
  moreover have "9 \<le> e" by (simp add: e_def THINKING_TAG_NAME_def)
  moreover have "tag_inner closing 0 (c # r) = Some n \<Longrightarrow> 0 < n \<and> n \<le> Suc (length r)" for n
    using tag_inner_bounds [of closing 0 "c # r" n] by simp
  ultimately show ?thesis using l by fastforce
qed

lemma scan_loop_SomeD:
  assumes "scan_loop decide buffer closing i = Some m"
    and "\<And>m r. decide m = Return (Some r) \<Longrightarrow> r = m"
  shows "i \<le> start m \<and> thinking_tag_len_at buffer (start m) closing = Some (len m) \<and>
    match_end m \<le> length buffer \<and> 10 \<le> len m \<and> decide m = Return (Some m)"
  using assms
proof (induction decide buffer closing i rule: scan_loop.induct)
  case (1 decide buffer closing i)
  then obtain m0 where m0: "scan_thinking_tag buffer i closing = Some m0"
    by (auto simp: scan_loop.simps [of decide buffer closing i] split: option.splits)
  have b: "i \<le> start m0" "start m0 < length buffer" "thinking_tag_len_at buffer (start m0) closing = Some (len m0)"
    using scan_thinking_tag_bounds [OF m0] scan_thinking_tag_len [OF m0] by auto
  show ?case
  proof (cases "decide m0")
    case Continue
    then have "scan_loop decide buffer closing (Suc (start m0)) = Some m"
      using 1(2) m0 by (simp add: scan_loop.simps [of decide buffer closing i])
    from 1(1) [OF m0 Continue this 1(3)] b show ?thesis by simp
  next
    case (Return r)
    then have "r = Some m" using 1(2) m0 by (simp add: scan_loop.simps [of decide buffer closing i])
    then have "m0 = m" using 1(3) Return by metis
    then show ?thesis using b tag_len_bounds [of closing "drop (start m) buffer" "len m"] Return \<open>r = Some m\<close>
      by (auto simp: thinking_tag_len_at_def match_end_def)
  qed
qed

lemmas finder_defs = find_real_thinking_end_tag_def find_permanently_unsatisfiable_end_tag_def
  find_stray_thinking_end_tag_def find_real_thinking_start_tag_def

lemma end_tag_decision_self: "end_tag_decision b m = Return (Some r) \<Longrightarrow> r = m"
  by (auto simp: end_tag_decision_def Let_def split: if_splits)

lemma unsatisfiable_decision_self: "unsatisfiable_decision b m = Return (Some r) \<Longrightarrow> r = m"
  by (auto simp: unsatisfiable_decision_def Let_def split: if_splits)

lemma unquoted_decision_self: "unquoted_decision b m = Return (Some r) \<Longrightarrow> r = m"
  by (auto simp: unquoted_decision_def split: if_splits)

text \<open>Whatever a finder returns is a tag inside the buffer.\<close>

lemma finder_bounds:
  "find_real_thinking_end_tag b = Some m \<Longrightarrow> match_end m \<le> length b \<and> 10 \<le> len m"
  "find_permanently_unsatisfiable_end_tag b = Some m \<Longrightarrow> match_end m \<le> length b \<and> 10 \<le> len m"
  "find_stray_thinking_end_tag b = Some m \<Longrightarrow> match_end m \<le> length b \<and> 10 \<le> len m"
  "find_real_thinking_start_tag b = Some m \<Longrightarrow> match_end m \<le> length b \<and> 10 \<le> len m"
  unfolding finder_defs
  by (drule scan_loop_SomeD, erule end_tag_decision_self unsatisfiable_decision_self unquoted_decision_self,
      simp)+

lemma consumed_ge: "len m \<le> thinking_end_tag_consumed_len b m"
  by (simp add: thinking_end_tag_consumed_len_def Let_def)

subsection \<open>Stray end tags and complete texts\<close>

function strip_stray_loop :: "string \<Rightarrow> string" where
  "strip_stray_loop rest =
     (case find_stray_thinking_end_tag rest of
        None \<Rightarrow> rest
      | Some m \<Rightarrow>
          take (start m) rest @ strip_stray_loop (drop (start m + thinking_end_tag_consumed_len rest m) rest))"
  by pat_completeness auto
termination
proof (relation "measure length", simp)
  fix rest m assume m: "find_stray_thinking_end_tag rest = Some m"
  have "0 < start m + thinking_end_tag_consumed_len rest m" "rest \<noteq> []"
    using finder_bounds(3) [OF m] consumed_ge [of m rest] by (auto simp: match_end_def)
  then show "(drop (start m + thinking_end_tag_consumed_len rest m) rest, rest) \<in> measure length" by simp
qed

declare strip_stray_loop.simps [simp del]

definition strip_stray_thinking_end_tags :: "string \<Rightarrow> string" where
  "strip_stray_thinking_end_tags text =
     (if find_stray_thinking_end_tag text = None then text else strip_stray_loop text)"

definition split_unclosed_thinking_residue_at_eof :: "string \<Rightarrow> string" where
  "split_unclosed_thinking_residue_at_eof buffer =
     (case find_stray_thinking_end_tag buffer of
        Some m \<Rightarrow> trim_start (drop (match_end m) buffer) | None \<Rightarrow> [])"

definition extract_thinking_from_complete_text :: "string \<Rightarrow> string option \<times> string" where
  "extract_thinking_from_complete_text text =
     (case find_real_thinking_start_tag text of
        None \<Rightarrow> (None, strip_stray_thinking_end_tags text)
      | Some opn \<Rightarrow>
          let front = take (start opn) text; after_open = drop (match_end opn) text;
              found = (case find_real_thinking_end_tag after_open of
                 Some m \<Rightarrow> Some (take (start m) after_open,
                   drop (start m + thinking_end_tag_consumed_len after_open m) after_open)
               | None \<Rightarrow>
                   (case find_real_thinking_end_tag_at_buffer_end after_open of
                      Some m \<Rightarrow> Some (take (start m) after_open, trim_start (drop (match_end m) after_open))
                    | None \<Rightarrow> None)) in
          (case found of
             None \<Rightarrow> (None, text)
           | Some (thinking_raw, text_after) \<Rightarrow>
               let thinking_content = (if starts_with [CHR 0x0A] thinking_raw then drop 1 thinking_raw else thinking_raw);
                   remaining = (if trim front \<noteq> [] then front else []) @ text_after in
               (if thinking_content = [] then (None, remaining) else (Some thinking_content, remaining))))"

definition strip_thinking_from_complete_text :: "string \<Rightarrow> string" where
  "strip_thinking_from_complete_text text =
     (case find_real_thinking_start_tag text of
        None \<Rightarrow> strip_stray_thinking_end_tags text
      | Some opn \<Rightarrow>
          let front = take (start opn) text; after_open = drop (match_end opn) text;
              text_after = (case find_real_thinking_end_tag after_open of
                 Some m \<Rightarrow> drop (start m + thinking_end_tag_consumed_len after_open m) after_open
               | None \<Rightarrow>
                   (case find_real_thinking_end_tag_at_buffer_end after_open of
                      Some m \<Rightarrow> trim_start (drop (match_end m) after_open)
                    | None \<Rightarrow> split_unclosed_thinking_residue_at_eof after_open)) in
          (if trim front \<noteq> [] then front else []) @ text_after)"

subsection \<open>What must be held back\<close>

definition could_grow_into_thinking_tag :: "string \<Rightarrow> bool" where
  "could_grow_into_thinking_tag tail =
     (let i = (if starts_with ''/'' (drop 1 tail) then 2 else 1);
          rest = drop i tail; n = length THINKING_TAG_NAME in
      if length rest < n then eq_ignore_ascii_case (take (length rest) THINKING_TAG_NAME) rest
      else if \<not> eq_ignore_ascii_case (take n rest) THINKING_TAG_NAME then False
      else
        let inner = drop n rest in
        if length inner > MAX_THINKING_TAG_INNER_BYTES then False
        else if inner \<noteq> [] \<and> \<not> is_ascii_whitespace (hd inner) then False
        else \<not> list_ex (\<lambda>c. c = CHR ''<'' \<or> c = CHR 0x0A \<or> c = CHR 0x0D) inner)"

text \<open>\<open>rfind\<close> of a character: the position of the last occurrence.\<close>

definition rfind_char :: "char \<Rightarrow> string \<Rightarrow> nat option" where
  "rfind_char c s = (if c \<in> set s then Some (length s - 1 - length (takeWhile (\<lambda>x. x \<noteq> c) (rev s))) else None)"

definition partial_thinking_tag_suffix_len :: "string \<Rightarrow> nat" where
  "partial_thinking_tag_suffix_len buffer =
     (case rfind_char CHR ''<'' buffer of
        None \<Rightarrow> 0
      | Some p \<Rightarrow>
          let tail_len = length buffer - p in
          (case thinking_tag_len_at buffer p True of
             Some l \<Rightarrow> if trim (drop (p + l) buffer) = [] then tail_len else 0
           | None \<Rightarrow>
               (case thinking_tag_len_at buffer p False of
                  Some l \<Rightarrow> if trim (drop (p + l) buffer) = [] then tail_len else 0
                | None \<Rightarrow> if could_grow_into_thinking_tag (drop p buffer) then tail_len else 0)))"

definition MAX_TAG_WHITESPACE_HOLD_BYTES :: nat where "MAX_TAG_WHITESPACE_HOLD_BYTES = 256 * 1024"

text \<open>A byte that does not continue a UTF-8 sequence, or the end, is a boundary.\<close>

definition char_boundary :: "string \<Rightarrow> nat \<Rightarrow> bool" where
  "char_boundary s i \<longleftrightarrow> i = 0 \<or> i \<ge> length s \<or> \<not> (128 \<le> code (s ! i) \<and> code (s ! i) < 192)"

fun back_to_boundary :: "string \<Rightarrow> nat \<Rightarrow> nat \<Rightarrow> nat" where
  "back_to_boundary s low 0 = 0"
| "back_to_boundary s low (Suc pos) =
     (if Suc pos > low \<and> \<not> char_boundary s (Suc pos) then back_to_boundary s low pos else Suc pos)"

definition compact_oversized_hold_tail :: "string \<Rightarrow> string" where
  "compact_oversized_hold_tail buffer =
     (if length buffer \<le> MAX_TAG_WHITESPACE_HOLD_BYTES then buffer
      else
        (case rfind_char CHR ''<'' buffer of
           None \<Rightarrow> buffer
         | Some p \<Rightarrow>
             let found = (case thinking_tag_len_at buffer p True of
                            Some l \<Rightarrow> Some l | None \<Rightarrow> thinking_tag_len_at buffer p False) in
             (case found of
                None \<Rightarrow> buffer
              | Some l \<Rightarrow>
                  let ws_start = p + l; ws = drop ws_start buffer in
                  if ws = [] \<or> trim ws \<noteq> [] \<or> CHR 0x0A \<in> set ws then buffer
                  else
                    let keep_from = back_to_boundary buffer ws_start
                          (max (length buffer - PARAGRAPH_BREAK_LEN) ws_start) in
                    take ws_start buffer @ drop keep_from buffer)))"

subsection \<open>The streaming filter\<close>

record strip_state =
  thinking_buffer :: string
  in_thinking_block :: bool

definition strip_new :: strip_state where
  "strip_new = \<lparr>thinking_buffer = [], in_thinking_block = False\<rparr>"

text \<open>One round of the loop: what it makes visible, the new state, and whether the loop goes on.\<close>

definition strip_round :: "strip_state \<Rightarrow> string \<times> strip_state \<times> bool" where
  "strip_round st =
     (let buf = thinking_buffer st in
      if in_thinking_block st then
        (case find_real_thinking_end_tag buf of
           Some m \<Rightarrow>
             ([], \<lparr>thinking_buffer = drop (start m + thinking_end_tag_consumed_len buf m) buf,
                   in_thinking_block = False\<rparr>, True)
         | None \<Rightarrow>
             (case find_permanently_unsatisfiable_end_tag buf of
                Some m \<Rightarrow>
                  ([], \<lparr>thinking_buffer = drop (start m + thinking_end_tag_consumed_len buf m) buf,
                        in_thinking_block = False\<rparr>, True)
              | None \<Rightarrow>
                  let buf' = compact_oversized_hold_tail buf;
                      keep_from = length buf' - partial_thinking_tag_suffix_len buf' in
                  ([], st\<lparr>thinking_buffer := drop keep_from buf'\<rparr>, False)))
      else
        let opn = find_real_thinking_start_tag buf;
            stray = (case find_stray_thinking_end_tag buf of
                       Some s \<Rightarrow> (case opn of None \<Rightarrow> Some s | Some m \<Rightarrow> if start s < start m then Some s else None)
                     | None \<Rightarrow> None) in
        (case stray of
           Some s \<Rightarrow>
             (take (start s) buf,
              st\<lparr>thinking_buffer := drop (start s + thinking_end_tag_consumed_len buf s) buf\<rparr>, True)
         | None \<Rightarrow>
             (case opn of
                Some m \<Rightarrow>
                  (take (start m) buf,
                   \<lparr>thinking_buffer = drop (match_end m) buf, in_thinking_block = True\<rparr>, True)
              | None \<Rightarrow>
                  let keep_from = length buf - partial_thinking_tag_suffix_len buf in
                  (take keep_from buf, st\<lparr>thinking_buffer := drop keep_from buf\<rparr>, False))))"

lemma strip_round_shorter:
  assumes "strip_round st = (v, st', True)"
  shows "length (thinking_buffer st') < length (thinking_buffer st)"
proof -
  let ?b = "thinking_buffer st"
  have d: "length (drop (start m + thinking_end_tag_consumed_len ?b m) ?b) < length ?b"
    "length (drop (match_end m) ?b) < length ?b"
    if "match_end m \<le> length ?b \<and> 10 \<le> len m" for m
    using that consumed_ge [of m ?b] by (auto simp: match_end_def)
  show ?thesis using assms d finder_bounds [of ?b]
    by (auto simp: strip_round_def Let_def split: if_splits option.splits)
qed

function strip_loop :: "strip_state \<Rightarrow> string \<times> strip_state" where
  "strip_loop st =
     (let (v, st', continue) = strip_round st in
      if continue then let (w, st'') = strip_loop st' in (v @ w, st'') else (v, st'))"
  by pat_completeness auto
termination
  by (relation "measure (\<lambda>st. length (thinking_buffer st))") (auto dest: strip_round_shorter [OF sym])

declare strip_loop.simps [simp del]

definition strip_inline_thinking_when_disabled :: "string \<Rightarrow> strip_state \<Rightarrow> string \<times> strip_state" where
  "strip_inline_thinking_when_disabled content st =
     strip_loop (st\<lparr>thinking_buffer := thinking_buffer st @ content\<rparr>)"

fun strip_chunks :: "string list \<Rightarrow> strip_state \<Rightarrow> string \<times> strip_state" where
  "strip_chunks [] st = ([], st)"
| "strip_chunks (c # cs) st =
     (let (v, st1) = strip_inline_thinking_when_disabled c st; (w, st2) = strip_chunks cs st1 in (v @ w, st2))"

end
