(* ===== verification/ThinkingFilter.thy ===== *)
theory ThinkingFilter
  imports ThinkingTags
begin

text \<open>
  What the tag scanner of \<open>src/src/anthropic/thinking_tags.rs\<close> accepts, when it waits, and that the
  streaming filter removes the thinking of a response however the stream is cut into chunks.
\<close>

subsection \<open>The grammar of tags\<close>

definition tag_pre :: "bool \<Rightarrow> string" where
  "tag_pre closing = (if closing then ''</'' else ''<'')"

definition inner_ok :: "bool \<Rightarrow> string \<Rightarrow> bool" where
  "inner_ok closing inner \<longleftrightarrow> length inner < 64 \<and> (inner \<noteq> [] \<longrightarrow> is_ascii_whitespace (hd inner)) \<and>
     set inner \<inter> {CHR ''<'', CHR ''>'', CHR 0x0A, CHR 0x0D} = {} \<and>
     (closing \<longrightarrow> (\<forall>c \<in> set inner. is_ascii_whitespace c))"

lemma tag_inner_iff:
  "tag_inner closing n s = Some k \<longleftrightarrow>
     (\<exists>inner r. s = inner @ CHR ''>'' # r \<and> k = n + length inner + 1 \<and> n + length inner < 64 \<and>
        set inner \<inter> {CHR ''<'', CHR ''>'', CHR 0x0A, CHR 0x0D} = {} \<and>
        (closing \<longrightarrow> (\<forall>c \<in> set inner. is_ascii_whitespace c)))"
proof (induction closing n s arbitrary: k rule: tag_inner.induct)
  case (2 closing n c s)
  have split: "(\<exists>inner r. c # s = inner @ CHR ''>'' # r \<and> P inner) \<longleftrightarrow>
      c = CHR ''>'' \<and> P [] \<or> (\<exists>inner r. s = inner @ CHR ''>'' # r \<and> P (c # inner))" for P
    by (auto simp: Cons_eq_append_conv)
  show ?case
  proof (cases "n \<ge> 64 \<or> c = CHR ''>'' \<or> c = CHR ''<'' \<or> c = CHR 0x0A \<or> c = CHR 0x0D \<or>
      closing \<and> \<not> is_ascii_whitespace c")
    case True
    then show ?thesis
      unfolding split [of "\<lambda>inner. k = n + length inner + 1 \<and> n + length inner < 64 \<and>
        set inner \<inter> {CHR ''<'', CHR ''>'', CHR 0x0A, CHR 0x0D} = {} \<and>
        (closing \<longrightarrow> (\<forall>c \<in> set inner. is_ascii_whitespace c))"]
      by (auto simp: MAX_THINKING_TAG_INNER_BYTES_def)
  next
    case False
    then show ?thesis
      unfolding split [of "\<lambda>inner. k = n + length inner + 1 \<and> n + length inner < 64 \<and>
        set inner \<inter> {CHR ''<'', CHR ''>'', CHR 0x0A, CHR 0x0D} = {} \<and>
        (closing \<longrightarrow> (\<forall>c \<in> set inner. is_ascii_whitespace c))"]
      using 2 by (auto simp: MAX_THINKING_TAG_INNER_BYTES_def)
  qed
qed simp

lemma lower_thinking: "to_ascii_lowercase ''thinking'' = ''thinking''"
  by (simp add: to_ascii_lowercase_def ascii_lower_def code_def)

lemma name_facts:
  "length THINKING_TAG_NAME = 8" "to_ascii_lowercase THINKING_TAG_NAME = ''thinking''"
  using lower_thinking by (simp_all add: THINKING_TAG_NAME_def)

lemma lower_no_bracket:
  "to_ascii_lowercase name = ''thinking'' \<Longrightarrow> set name \<inter> {CHR ''<'', CHR ''/'', CHR ''>''} = {}"
proof -
  assume n: "to_ascii_lowercase name = ''thinking''"
  have "c \<notin> {CHR ''<'', CHR ''/'', CHR ''>''}" if "c \<in> set name" for c
  proof
    assume c: "c \<in> {CHR ''<'', CHR ''/'', CHR ''>''}"
    then have "ascii_lower c = c" by (auto simp: ascii_lower_def code_def)
    moreover have "ascii_lower c \<in> set ''thinking''"
      using that unfolding n [symmetric] by (simp add: to_ascii_lowercase_def)
    ultimately show False using c by auto
  qed
  then show ?thesis by blast
qed

lemma tag_pre_length: "length (tag_pre c) = (if c then 2 else 1)"
  by (simp add: tag_pre_def)

lemma tag_len_iff:
  "tag_len closing s = Some l \<longleftrightarrow>
     (\<exists>name inner r. s = tag_pre closing @ name @ inner @ CHR ''>'' # r \<and>
        length name = 8 \<and> to_ascii_lowercase name = ''thinking'' \<and> inner_ok closing inner \<and>
        l = length (tag_pre closing) + 9 + length inner)"
  (is "?lhs \<longleftrightarrow> ?rhs")
proof
  assume l: ?lhs
  define e where "e = length (tag_pre closing) + 8"
  define name where "name = take 8 (drop (length (tag_pre closing)) s)"
  have "starts_with (tag_pre closing) s"
    using l by (auto simp: tag_len_def tag_pre_def split: if_splits)
  then obtain t where t: "s = tag_pre closing @ t" by (auto simp: starts_with_iff)
  have e: "e = (if closing then 2 else 1) + length THINKING_TAG_NAME"
    by (simp add: e_def tag_pre_def name_facts)
  have n: "e \<le> length s" "to_ascii_lowercase name = ''thinking''"
    using l by (auto simp: tag_len_def Let_def e name_def tag_pre_length eq_ignore_ascii_case_def
        name_facts split: if_splits)
  then have name: "t = name @ drop e s" "length name = 8" using t by (auto simp: name_def e_def)
  obtain c r where r: "drop e s = c # r"
    and cases: "c = CHR ''>'' \<and> l = e + 1 \<or>
      is_ascii_whitespace c \<and> (\<exists>k. tag_inner closing 0 (c # r) = Some k \<and> l = e + k)"
    using l unfolding e by (auto simp: tag_len_def Let_def split: if_splits list.splits)
  show ?rhs
  proof (cases "c = CHR ''>'' \<and> l = e + 1")
    case True
    then show ?thesis using t name r n(2)
      by (intro exI [of _ name] exI [of _ "[]"] exI [of _ r]) (simp add: inner_ok_def e_def)
  next
    case False
    then obtain k where k: "tag_inner closing 0 (c # r) = Some k" "l = e + k" "is_ascii_whitespace c"
      using cases by blast
    from k(1) [unfolded tag_inner_iff] obtain inner r' where i: "c # r = inner @ CHR ''>'' # r'"
      "k = 0 + length inner + 1" "0 + length inner < 64"
      "set inner \<inter> {CHR ''<'', CHR ''>'', CHR 0x0A, CHR 0x0D} = {}"
      "closing \<longrightarrow> (\<forall>c \<in> set inner. is_ascii_whitespace c)" by blast
    moreover have "inner \<noteq> [] \<longrightarrow> hd inner = c" using i(1) by (cases inner) auto
    ultimately have "inner_ok closing inner" using k(3) by (auto simp: inner_ok_def)
    then have "c # r = inner @ CHR ''>'' # r'" "inner_ok closing inner" "l = e + length inner + 1"
      using i k(2) by auto
    then show ?thesis using t name r n(2)
      by (intro exI [of _ name] exI [of _ inner] exI [of _ r']) (simp add: e_def)
  qed
next
  assume ?rhs
  then obtain name inner r where s: "s = tag_pre closing @ name @ inner @ CHR ''>'' # r"
    and name: "length name = 8" "to_ascii_lowercase name = ''thinking''"
    and inner: "inner_ok closing inner" and l: "l = length (tag_pre closing) + 9 + length inner" by blast
  have nb: "set name \<inter> {CHR ''<'', CHR ''/'', CHR ''>''} = {}" by (rule lower_no_bracket [OF name(2)])
  obtain a name' where a: "name = a # name'" using name(1) by (cases name) auto
  then have "\<not> starts_with ''</'' (''<'' @ name @ x)" for x using nb by auto
  moreover have "tag_inner closing 0 (inner @ CHR ''>'' # r) = Some (length inner + 1)"
    unfolding tag_inner_iff using inner
    by (intro exI [of _ inner] exI [of _ r]) (simp add: inner_ok_def)
  moreover have "inner \<noteq> [] \<Longrightarrow> is_ascii_whitespace (hd inner) \<and> hd inner \<noteq> CHR ''>''"
    using inner hd_in_set [of inner] unfolding inner_ok_def by blast
  ultimately show ?lhs using name l
    by (cases inner; cases closing) (auto simp: s tag_len_def tag_pre_def name_facts
        eq_ignore_ascii_case_def Let_def)
qed
definition is_tag :: "bool \<Rightarrow> string \<Rightarrow> bool" where
  "is_tag closing t \<longleftrightarrow> tag_len closing t = Some (length t)"

definition plain :: "string \<Rightarrow> bool" where "plain s \<longleftrightarrow> CHR ''<'' \<notin> set s"

lemma is_tag_obtain:
  assumes "is_tag closing t"
  obtains name inner where "t = tag_pre closing @ name @ inner @ ''>''" "length name = 8"
    "to_ascii_lowercase name = ''thinking''" "inner_ok closing inner"
proof -
  from assms obtain name inner r where t: "t = tag_pre closing @ name @ inner @ CHR ''>'' # r"
    "length name = 8" "to_ascii_lowercase name = ''thinking''" "inner_ok closing inner"
    "length t = length (tag_pre closing) + 9 + length inner"
    unfolding is_tag_def tag_len_iff by blast
  then have "r = []" by simp
  with t that show thesis by simp
qed

lemma tag_len_append: "tag_len closing s = Some l \<Longrightarrow> tag_len closing (s @ r) = Some l"
  unfolding tag_len_iff by fastforce

lemma is_tag_append: "is_tag closing t \<Longrightarrow> tag_len closing (t @ r) = Some (length t)"
  by (simp add: is_tag_def tag_len_append)

lemma is_tag_prefix: "is_tag closing (q @ q') \<Longrightarrow> q' \<noteq> [] \<Longrightarrow> tag_len closing q = None"
proof (rule ccontr)
  assume t: "is_tag closing (q @ q')" "q' \<noteq> []" and "tag_len closing q \<noteq> None"
  then obtain l where l: "tag_len closing q = Some l" by blast
  from tag_len_append [OF l, of q'] t(1) have "l = length (q @ q')" by (simp add: is_tag_def)
  with tag_len_bounds [OF l] t(2) show False by simp
qed

lemma lower_length: "to_ascii_lowercase name = ''thinking'' \<Longrightarrow> length name = 8"
  by (metis length_map name_facts THINKING_TAG_NAME_def to_ascii_lowercase_def)

lemma is_tag_Cons:
  assumes "is_tag closing t"
  shows "\<exists>t'. t = CHR ''<'' # t' \<and> plain t' \<and> (if closing then starts_with ''/'' t' else \<not> starts_with ''/'' t')"
proof -
  from assms obtain name inner where t: "t = tag_pre closing @ name @ inner @ ''>''" "length name = 8"
    "to_ascii_lowercase name = ''thinking''" "inner_ok closing inner" by (rule is_tag_obtain)
  have "set name \<inter> {CHR ''<'', CHR ''/'', CHR ''>''} = {}" by (rule lower_no_bracket [OF t(3)])
  moreover obtain a n where "name = a # n" using t(2) by (cases name) auto
  ultimately show ?thesis using t(4)
    by (auto simp: t(1) tag_pre_def plain_def inner_ok_def)
qed

lemma wrong_kind:
  assumes "is_tag closing (q @ q')" and "q \<noteq> []"
  shows "tag_len (\<not> closing) (q @ r) = None \<or> q = ''<''"
proof -
  obtain t' where t: "q @ q' = CHR ''<'' # t'" "if closing then starts_with ''/'' t' else \<not> starts_with ''/'' t'"
    using is_tag_Cons [OF assms(1)] by blast
  show ?thesis
  proof (cases "q = ''<''")
    case False
    then obtain a q1 where q: "q = CHR ''<'' # a # q1" using assms(2) t(1) False
      by (cases q; cases "tl q") auto
    then have "a = CHR ''/'' \<longleftrightarrow> closing" using t by (cases closing) auto
    then show ?thesis by (auto simp: q tag_len_def)
  qed simp
qed

lemma tag_len_short: "length s < 10 \<Longrightarrow> tag_len closing s = None"
  using tag_len_bounds [of closing s] by (cases "tag_len closing s") auto

lemma no_tag_in_part:
  assumes "is_tag closing (q @ q')" and "q \<noteq> []" and "q' \<noteq> []"
  shows "tag_len c q = None"
proof (cases "c = closing")
  case False
  then show ?thesis using wrong_kind [OF assms(1,2), of "[]"] tag_len_short [of q c] by auto
qed (use is_tag_prefix [OF assms(1,3)] in simp)

lemma map_take_prefix: "to_ascii_lowercase (take n s) = take n (to_ascii_lowercase s)"
  by (simp add: to_ascii_lowercase_def take_map)

lemma part_could_grow:
  assumes "is_tag closing (q @ q')" and "q \<noteq> []" and "q' \<noteq> []"
  shows "could_grow_into_thinking_tag q"
proof -
  from assms(1) obtain name inner where t: "q @ q' = tag_pre closing @ name @ inner @ ''>''" "length name = 8"
    "to_ascii_lowercase name = ''thinking''" "inner_ok closing inner" by (rule is_tag_obtain)
  define body where "body = name @ inner @ ''>''"
  define i where "i = (if starts_with ''/'' (drop 1 q) then 2 else 1::nat)"
  have nb: "set name \<inter> {CHR ''<'', CHR ''/'', CHR ''>''} = {}" by (rule lower_no_bracket [OF t(3)])
  then have hd: "hd body \<noteq> CHR ''/''" "body \<noteq> []" using t(2) by (cases name; auto simp: body_def)+
  show ?thesis
  proof (cases "length q < length (tag_pre closing)")
    case True
    then have "q = ''<''" using assms(2) t(1)
      by (cases q) (auto simp: tag_pre_def split: if_splits)
    then show ?thesis by (simp add: could_grow_into_thinking_tag_def name_facts eq_ignore_ascii_case_def)
  next
    case False
    then have "take (length (tag_pre closing)) (q @ q') = take (length (tag_pre closing)) q" by simp
    then have pre: "q = tag_pre closing @ drop (length (tag_pre closing)) q"
      by (metis append_eq_conv_conj append_take_drop_id t(1))
    define p where "p = drop (length (tag_pre closing)) q"
    have body: "p @ q' = body" using t(1) pre by (metis append.assoc body_def p_def same_append_eq)
    then have "p = [] \<or> hd p \<noteq> CHR ''/''" using hd by (cases p) auto
    then have i: "drop i q = p" using pre unfolding p_def [symmetric]
      by (cases p) (auto simp: i_def tag_pre_def)
    have "could_grow_into_thinking_tag q \<longleftrightarrow>
       (if length p < 8 then eq_ignore_ascii_case (take (length p) THINKING_TAG_NAME) p
        else if \<not> eq_ignore_ascii_case (take 8 p) THINKING_TAG_NAME then False
        else let inner = drop 8 p in
          if length inner > MAX_THINKING_TAG_INNER_BYTES then False
          else if inner \<noteq> [] \<and> \<not> is_ascii_whitespace (hd inner) then False
          else \<not> list_ex (\<lambda>c. c = CHR ''<'' \<or> c = CHR 0x0A \<or> c = CHR 0x0D) inner)"
      unfolding could_grow_into_thinking_tag_def Let_def i_def [symmetric] i name_facts(1) by simp
    then have grow: "could_grow_into_thinking_tag q \<longleftrightarrow>
       (if length p < 8 then eq_ignore_ascii_case (take (length p) THINKING_TAG_NAME) p
        else if \<not> eq_ignore_ascii_case (take 8 p) THINKING_TAG_NAME then False
        else if length (drop 8 p) > 64 then False
        else if drop 8 p \<noteq> [] \<and> \<not> is_ascii_whitespace (hd (drop 8 p)) then False
        else \<not> list_ex (\<lambda>c. c = CHR ''<'' \<or> c = CHR 0x0A \<or> c = CHR 0x0D) (drop 8 p))"
      by (simp only: Let_def MAX_THINKING_TAG_INNER_BYTES_def)
    have p: "p = take (length p) body" using body by (metis append_eq_conv_conj)
    show ?thesis
    proof (cases "length p < 8")
      case True
      then have "p = take (length p) name" using p t(2) by (simp add: body_def)
      then have "to_ascii_lowercase p = take (length p) ''thinking''"
        by (metis map_take_prefix t(3))
      then show ?thesis using True name_facts(2) unfolding grow
        by (simp add: eq_ignore_ascii_case_def map_take_prefix)
    next
      case False
      define j where "j = drop 8 p"
      have "take 8 p = take 8 body" using p False by (metis min.absorb1 not_less take_take)
      then have "take 8 p = name" using t(2) by (simp add: body_def)
      then have "p = name @ j" by (metis append_take_drop_id j_def)
      moreover from this have "j @ q' = inner @ ''>''" using body t(2) by (simp add: body_def)
      ultimately have j: "p = name @ j" "j @ q' = inner @ ''>''" by auto
      then have "\<exists>k. inner = j @ k" using assms(3)
        by (metis append_butlast_last_id append_is_Nil_conv butlast_append butlast_snoc)
      then obtain k where "inner = j @ k" by blast
      then have "inner_ok closing inner \<Longrightarrow> length j < 64 \<and> (j \<noteq> [] \<longrightarrow> is_ascii_whitespace (hd j)) \<and>
          set j \<inter> {CHR ''<'', CHR 0x0A, CHR 0x0D} = {}"
        by (cases j) (auto simp: inner_ok_def)
      then show ?thesis using t(2,3,4) j(1) name_facts(2) unfolding grow
        by (auto simp: eq_ignore_ascii_case_def list_ex_iff)
    qed
  qed
qed

subsection \<open>Scanning over plain text\<close>

lemma scan_skip:
  assumes "i \<le> k" and "\<And>j. i \<le> j \<Longrightarrow> j < k \<Longrightarrow> j < length b \<Longrightarrow> b ! j = CHR ''<'' \<Longrightarrow> thinking_tag_len_at b j c = None"
    and "k \<le> length b"
  shows "scan_thinking_tag b i c = scan_thinking_tag b k c"
  using assms
proof (induction b i c rule: scan_thinking_tag.induct)
  case (1 b i c)
  show ?case
  proof (cases "i = k")
    case False
    then have i: "i < length b" "i < k" using 1(2,4) by auto
    then have n: "(if b ! i = CHR ''<'' then thinking_tag_len_at b i c else None) = None"
      using 1(3) [of i] by auto
    have "scan_thinking_tag b (Suc i) c = scan_thinking_tag b k c"
      using 1(1) [OF i(1) n] 1(3,4) i by auto
    then show ?thesis using i n by (simp add: scan_thinking_tag.simps [of b i])
  qed simp
qed

lemma scan_end: "length b \<le> i \<Longrightarrow> scan_thinking_tag b i c = None"
  by (simp add: scan_thinking_tag.simps [of b i])

lemma plain_nth: "plain a \<Longrightarrow> j < length a \<Longrightarrow> (a @ s) ! j \<noteq> CHR ''<''"
  by (metis nth_append nth_mem plain_def)

lemma scan_plain_tag:
  assumes "plain a" and "tag_len c s = Some l"
  shows "scan_thinking_tag (a @ s) 0 c = Some \<lparr>start = length a, len = l\<rparr>"
proof -
  have "scan_thinking_tag (a @ s) 0 c = scan_thinking_tag (a @ s) (length a) c"
    using plain_nth [OF assms(1), of _ s] by (intro scan_skip) auto
  moreover have "s \<noteq> [] \<and> s ! 0 = CHR ''<''"
    using assms(2) by (cases s) (auto simp: tag_len_def split: if_splits)
  ultimately show ?thesis using assms(2)
    by (simp add: scan_thinking_tag.simps [of "a @ s" "length a"] thinking_tag_len_at_def nth_append hd_conv_nth)
qed

lemma scan_none:
  assumes "plain a" and "s = [] \<or> plain (tl s) \<and> tag_len c s = None"
  shows "scan_thinking_tag (a @ s) i c = None"
proof (cases "i < length (a @ s)")
  case True
  have "thinking_tag_len_at (a @ s) j c = None" if "j < length (a @ s)" "(a @ s) ! j = CHR ''<''" for j
  proof -
    have "length a \<le> j" using plain_nth [OF assms(1), of j s] that(2) by force
    moreover have "\<not> length a < j"
    proof
      assume "length a < j"
      then have "(a @ s) ! j = tl s ! (j - length a - 1)" "j - length a - 1 < length (tl s)"
        using that(1) Suc_diff_Suc [of "length a" j] by (auto simp: nth_append nth_tl)
      then show False using assms(2) that by (metis nth_mem plain_def list.sel(2) length_0_conv not_less0)
    qed
    ultimately have "j = length a" by simp
    then show ?thesis using assms(2) that(1) by (auto simp: thinking_tag_len_at_def)
  qed
  then have "scan_thinking_tag (a @ s) i c = scan_thinking_tag (a @ s) (length (a @ s)) c"
    using True by (intro scan_skip) auto
  then show ?thesis by (simp add: scan_end)
qed (simp add: scan_end)

lemma scan_past:
  assumes "plain (tl s)" and "length a < i"
  shows "scan_thinking_tag (a @ s) i c = None"
proof (cases "i < length (a @ s)")
  case True
  have "(a @ s) ! j \<noteq> CHR ''<''" if "i \<le> j" "j < length (a @ s)" for j
  proof -
    have "(a @ s) ! j = tl s ! (j - length a - 1)" "j - length a - 1 < length (tl s)"
      using that assms(2) Suc_diff_Suc [of "length a" j] by (auto simp: nth_append nth_tl)
    then show ?thesis using assms(1) by (metis nth_mem plain_def)
  qed
  then have "scan_thinking_tag (a @ s) i c = scan_thinking_tag (a @ s) (length (a @ s)) c"
    using True by (intro scan_skip) auto
  then show ?thesis by (simp add: scan_end)
qed (simp add: scan_end)

lemma scan_loop_none:
  "scan_thinking_tag b i c = None \<Longrightarrow> scan_loop d b c i = None"
  by (simp add: scan_loop.simps)

lemma finders_none:
  assumes "plain a" and "s = [] \<or> plain (tl s) \<and> tag_len True s = None \<and> tag_len False s = None"
  shows "find_real_thinking_end_tag (a @ s) = None" "find_permanently_unsatisfiable_end_tag (a @ s) = None"
    "find_stray_thinking_end_tag (a @ s) = None" "find_real_thinking_start_tag (a @ s) = None"
  unfolding finder_defs using assms by (auto intro!: scan_loop_none scan_none)

definition quote :: "char \<Rightarrow> bool" where "quote c \<longleftrightarrow> c \<in> {CHR 0x60, CHR 0x22, CHR 0x27}"

definition no_quote_last :: "string \<Rightarrow> bool" where "no_quote_last s \<longleftrightarrow> s = [] \<or> \<not> quote (last s)"
definition no_quote_first :: "string \<Rightarrow> bool" where "no_quote_first s \<longleftrightarrow> s = [] \<or> \<not> quote (hd s)"

lemma not_quoted:
  assumes "no_quote_last a" and "no_quote_first y"
  shows "\<not> thinking_tag_is_quoted (a @ t @ y) \<lparr>start = length a, len = length t\<rparr>"
proof -
  have "\<not> is_quote_char (a @ t @ y) (length a - 1)" if "0 < length a"
    using assms(1) that by (auto simp: is_quote_char_def no_quote_last_def quote_def nth_append last_conv_nth)
  moreover have "\<not> is_quote_char (a @ t @ y) (length a + length t)"
    using assms(2) by (auto simp: is_quote_char_def no_quote_first_def quote_def nth_append hd_conv_nth)
  ultimately show ?thesis by (auto simp: thinking_tag_is_quoted_def match_end_def)
qed

lemma find_start_after:
  assumes "plain a" and "is_tag False opn" and "no_quote_last a" and "no_quote_first y"
  shows "find_real_thinking_start_tag (a @ opn @ y) = Some \<lparr>start = length a, len = length opn\<rparr>"
  using scan_plain_tag [OF assms(1) is_tag_append [OF assms(2)], of y] not_quoted [OF assms(3,4), of opn]
  by (simp add: find_real_thinking_start_tag_def scan_loop.simps unquoted_decision_def)

lemma stray_after:
  assumes "plain a" and "is_tag False opn" and "find_stray_thinking_end_tag (a @ opn @ y) = Some m"
  shows "length a < start m"
proof -
  let ?b = "a @ opn @ y"
  have m: "tag_len True (drop (start m) ?b) = Some (len m)"
    using scan_loop_SomeD [OF assms(3) [unfolded find_stray_thinking_end_tag_def]] unquoted_decision_self
    by (simp add: thinking_tag_len_at_def)
  then have d: "drop (start m) ?b \<noteq> []" "hd (drop (start m) ?b) = CHR ''<''"
    by (cases "drop (start m) ?b"; force simp: tag_len_def split: if_splits)+
  then have lt: "start m < length ?b" "?b ! start m = CHR ''<''"
    using d(1) by (simp_all only: drop_eq_Nil not_le d(2) flip: hd_drop_conv_nth)
  have "start m \<noteq> length a"
  proof
    assume "start m = length a"
    then have "tag_len True (opn @ y) = Some (len m)" using m by simp
    moreover obtain t' where "opn = CHR ''<'' # t'" using is_tag_Cons [OF assms(2)] by blast
    moreover have "opn \<noteq> ''<''" using assms(2) tag_len_bounds [of False opn "length opn"] by (auto simp: is_tag_def)
    ultimately show False using wrong_kind [of False opn "[]" y] assms(2) by auto
  qed
  then show ?thesis using plain_nth [OF assms(1), of "start m" "opn @ y"] lt(2) by (meson linorder_neqE_nat)
qed

subsection \<open>What is held back\<close>

lemma rfind_at: "plain q \<Longrightarrow> rfind_char CHR ''<'' (a @ CHR ''<'' # q) = Some (length a)"
proof -
  assume q: "plain q"
  have "takeWhile (\<lambda>x. x \<noteq> CHR ''<'') (rev q @ CHR ''<'' # rev a) = rev q"
    using q by (subst takeWhile_append2) (auto simp: plain_def)
  then show ?thesis by (simp add: rfind_char_def)
qed

lemma rfind_plain: "plain a \<Longrightarrow> rfind_char CHR ''<'' a = None"
  by (simp add: rfind_char_def plain_def)

lemma keep_plain: "plain a \<Longrightarrow> partial_thinking_tag_suffix_len a = 0"
  by (simp add: partial_thinking_tag_suffix_len_def rfind_plain)

lemma part_Cons:
  assumes "is_tag closing (q @ q')" and "q \<noteq> []"
  obtains q1 where "q = CHR ''<'' # q1" "plain q1"
  using is_tag_Cons [OF assms(1)] assms(2) by (cases q) (auto simp: plain_def)

lemma keep_part:
  assumes "is_tag closing (q @ q')" and "q \<noteq> []" and "q' \<noteq> []"
  shows "partial_thinking_tag_suffix_len (a @ q) = length q" "compact_oversized_hold_tail (a @ q) = a @ q"
proof -
  obtain q1 where q1: "q = CHR ''<'' # q1" "plain q1" by (rule part_Cons [OF assms(1,2)])
  have n: "thinking_tag_len_at (a @ q) (length a) c = None" for c
    using no_tag_in_part [OF assms, of c] by (simp add: thinking_tag_len_at_def)
  show "partial_thinking_tag_suffix_len (a @ q) = length q"
    using part_could_grow [OF assms] n unfolding partial_thinking_tag_suffix_len_def q1(1) rfind_at [OF q1(2)]
    by simp
  show "compact_oversized_hold_tail (a @ q) = a @ q"
    using n unfolding compact_oversized_hold_tail_def q1(1) rfind_at [OF q1(2)] by simp
qed

lemma ws_newline: "ws_len (map code (CHR 0x0A # s)) = 1"
  by (simp add: code_def)

lemma ws_prefix_newline: "ws_prefix_len (CHR 0x0A # s) = Suc (ws_prefix_len s)"
  using ws_newline [of s] by (simp add: ws_prefix_len.simps [of "CHR 0x0A # s"])

lemma trim_newline: "trim [] = []" "trim [CHR 0x0A] = []"
proof -
  have e: "trim_start [] = []" "trim_end [] = []" by (simp_all add: trim_start.simps trim_end.simps)
  moreover have "trim_start [CHR 0x0A] = []"
    using ws_newline [of "[]"] e by (simp add: trim_start.simps [of "[CHR 0x0A]"])
  ultimately show "trim [] = []" "trim [CHR 0x0A] = []" by (simp_all add: trim_def)
qed

lemma keep_close:
  assumes "is_tag True cls" and "w = [] \<or> w = [CHR 0x0A]"
  shows "partial_thinking_tag_suffix_len (a @ cls @ w) = length cls + length w"
    "compact_oversized_hold_tail (a @ cls @ w) = a @ cls @ w"
proof -
  obtain t where t: "cls = CHR ''<'' # t" "plain t" using is_tag_Cons [OF assms(1)] by blast
  then have p: "plain (t @ w)" using assms(2) by (auto simp: plain_def)
  have l: "thinking_tag_len_at (a @ cls @ w) (length a) True = Some (length cls)"
    using is_tag_append [OF assms(1), of w] by (simp add: thinking_tag_len_at_def)
  have r: "rfind_char CHR ''<'' (a @ cls @ w) = Some (length a)"
    using rfind_at [OF p, of a] by (simp add: t(1))
  have w: "drop (length a + length cls) (a @ cls @ w) = w" by simp
  show "partial_thinking_tag_suffix_len (a @ cls @ w) = length cls + length w"
    using assms(2) trim_newline unfolding partial_thinking_tag_suffix_len_def r by (auto simp: l)
  show "compact_oversized_hold_tail (a @ cls @ w) = a @ cls @ w"
    using assms(2) unfolding compact_oversized_hold_tail_def r by (auto simp: l Let_def)
qed

lemma end_after_break:
  assumes "plain t" and "is_tag True cls" and "no_quote_last t"
  shows "find_real_thinking_end_tag (t @ cls @ [CHR 0x0A, CHR 0x0A] @ z) = Some \<lparr>start = length t, len = length cls\<rparr>"
    "thinking_end_tag_consumed_len (t @ cls @ [CHR 0x0A, CHR 0x0A] @ z) \<lparr>start = length t, len = length cls\<rparr> = length cls + 2"
proof -
  let ?b = "t @ cls @ [CHR 0x0A, CHR 0x0A] @ z" and ?m = "\<lparr>start = length t, len = length cls\<rparr>"
  have "no_quote_first ([CHR 0x0A, CHR 0x0A] @ z)" by (simp add: no_quote_first_def quote_def)
  from not_quoted [OF assms(3) this] have nq: "\<not> thinking_tag_is_quoted ?b ?m" .
  have after: "drop (match_end ?m) ?b = CHR 0x0A # CHR 0x0A # z" by (simp add: match_end_def)
  have "ws_prefix_len (CHR 0x0A # CHR 0x0A # z) = Suc (Suc (ws_prefix_len z))" by (simp add: ws_prefix_newline)
  then have "end_tag_decision ?b ?m = Return (Some ?m)"
    using nq ws_newline [of "CHR 0x0A # z"] unfolding end_tag_decision_def after
    by (simp add: Let_def PARAGRAPH_BREAK_LEN_def)
  then show "find_real_thinking_end_tag ?b = Some ?m"
    using scan_plain_tag [OF assms(1) is_tag_append [OF assms(2)], of "[CHR 0x0A, CHR 0x0A] @ z"]
    by (simp add: find_real_thinking_end_tag_def scan_loop.simps)
  show "thinking_end_tag_consumed_len ?b ?m = length cls + 2"
    by (simp add: thinking_end_tag_consumed_len_def match_end_def PARAGRAPH_BREAK_LEN_def)
qed

lemma end_waits:
  assumes "plain t" and "is_tag True cls" and "no_quote_last t" and "w = [] \<or> w = [CHR 0x0A]"
  shows "find_real_thinking_end_tag (t @ cls @ w) = None"
    "find_permanently_unsatisfiable_end_tag (t @ cls @ w) = None"
proof -
  let ?b = "t @ cls @ w" and ?m = "\<lparr>start = length t, len = length cls\<rparr>"
  have "no_quote_first w" using assms(4) by (auto simp: no_quote_first_def quote_def)
  from not_quoted [OF assms(3) this] have nq: "\<not> thinking_tag_is_quoted ?b ?m" .
  have after: "drop (match_end ?m) ?b = w" by (simp add: match_end_def)
  have ws: "ws_prefix_len [CHR 0x0A] = 1"
    by (simp add: ws_prefix_newline ws_prefix_len.simps [of "[]"])
  have "end_tag_decision ?b ?m = Return None" "unsatisfiable_decision ?b ?m = Return None"
    using assms(4) nq ws ws_newline [of "[]"] unfolding end_tag_decision_def unsatisfiable_decision_def after
    by (auto simp: PARAGRAPH_BREAK_LEN_def)
  then show "find_real_thinking_end_tag ?b = None" "find_permanently_unsatisfiable_end_tag ?b = None"
    using scan_plain_tag [OF assms(1) is_tag_append [OF assms(2)], of w]
    by (simp_all add: finder_defs scan_loop.simps)
qed

subsection \<open>Texts with thinking blocks\<close>

type_synonym block = "string \<times> string \<times> string \<times> string"

definition para_break :: string where "para_break = [CHR 0x0A, CHR 0x0A]"

fun blocks_text :: "block list \<Rightarrow> string" where
  "blocks_text [] = []"
| "blocks_text ((opn, t, cls, b) # bs) = opn @ t @ cls @ para_break @ b @ blocks_text bs"

definition wf_text :: "string \<Rightarrow> bool" where
  "wf_text a \<longleftrightarrow> plain a \<and> no_quote_last a"

fun wf_block :: "block \<Rightarrow> bool" where
  "wf_block (opn, t, cls, b) \<longleftrightarrow> is_tag False opn \<and> is_tag True cls \<and> wf_text t \<and> no_quote_first t \<and> wf_text b"

text \<open>What is shown and what is held back after a prefix of such a text.\<close>

definition inside_spec :: "string \<Rightarrow> string \<Rightarrow> (string \<Rightarrow> string \<times> strip_state) \<Rightarrow> string \<Rightarrow> string \<times> strip_state" where
  "inside_spec t cls k y =
     (if length y \<le> length t then ([], \<lparr>thinking_buffer = [], in_thinking_block = True\<rparr>)
      else if length y < length t + length cls + 2
      then ([], \<lparr>thinking_buffer = drop (length t) y, in_thinking_block = True\<rparr>)
      else k (drop (length t + length cls + 2) y))"

fun outside_spec :: "string \<Rightarrow> block list \<Rightarrow> string \<Rightarrow> string \<times> strip_state" where
  "outside_spec a [] x = (x, strip_new)"
| "outside_spec a ((opn, t, cls, b) # bs) x =
     (if length x \<le> length a then (x, strip_new)
      else if length x < length a + length opn
      then (a, \<lparr>thinking_buffer = drop (length a) x, in_thinking_block = False\<rparr>)
      else apfst ((@) a) (inside_spec t cls (outside_spec b bs) (drop (length a + length opn) x)))"

lemma strip_loop_stop:
  "strip_round st = (v, st', False) \<Longrightarrow> strip_loop st = (v, st')"
  by (simp add: strip_loop.simps)

lemma strip_loop_go:
  "strip_round st = (v, st', True) \<Longrightarrow> strip_loop st = apfst ((@) v) (strip_loop st')"
  by (cases "strip_loop st'") (simp add: strip_loop.simps [of st])

lemma prefix_parts:
  assumes "prefix x (a @ m @ r)"
  shows "prefix x a \<or> (\<exists>u q. x = a @ u \<and> u \<noteq> [] \<and> m = u @ q \<and> q \<noteq> []) \<or> (\<exists>y. x = a @ m @ y \<and> prefix y r)"
proof (cases "prefix x a")
  case False
  then obtain u where u: "x = a @ u" "prefix u (m @ r)" using assms by (auto simp: prefix_append)
  then have "u \<noteq> []" using False by auto
  from u(2) consider "prefix u m" | y where "u = m @ y" "prefix y r" by (auto simp: prefix_append)
  then show ?thesis
  proof cases
    case 1
    then obtain q where q: "m = u @ q" by (auto simp: prefix_def)
    show ?thesis
    proof (cases "q = []")
      case True
      then have "x = a @ m @ []" using q u(1) by simp
      then show ?thesis by (metis Nil_prefix)
    next
      case False
      then show ?thesis using q u(1) \<open>u \<noteq> []\<close> by blast
    qed
  qed (use u in auto)
qed simp

lemma inside_loop:
  assumes wf: "wf_text t" "is_tag True cls" and y: "prefix y (t @ cls @ para_break @ r)"
    and k: "\<And>z. prefix z r \<Longrightarrow> strip_loop \<lparr>thinking_buffer = z, in_thinking_block = False\<rparr> = k z"
  shows "strip_loop \<lparr>thinking_buffer = y, in_thinking_block = True\<rparr> = inside_spec t cls k y"
proof -
  have t: "plain t" "no_quote_last t" using wf(1) by (simp_all add: wf_text_def)
  from y consider (plain) "prefix y t" | (rest) u where "y = t @ u" "u \<noteq> []" "prefix u (cls @ para_break @ r)"
    by (metis append_Nil2 prefix_append prefix_order.order_refl)
  then show ?thesis
  proof cases
    case plain
    then have "plain y" using t(1) by (auto simp: plain_def prefix_def)
    then have "strip_round \<lparr>thinking_buffer = y, in_thinking_block = True\<rparr> =
        ([], \<lparr>thinking_buffer = [], in_thinking_block = True\<rparr>, False)"
      using finders_none [of y "[]"] keep_plain rfind_plain
      by (simp add: strip_round_def Let_def compact_oversized_hold_tail_def)
    then show ?thesis using strip_loop_stop plain prefix_length_le [OF plain] by (simp add: inside_spec_def)
  next
    case rest
    from prefix_parts [of u "[]" cls "para_break @ r"] rest(2,3)
    consider (part) q' where "cls = u @ q'" "q' \<noteq> []" | (c) w where "u = cls @ w" "prefix w (para_break @ r)"
      by auto
    then consider (part) q' where "cls = u @ q'" "q' \<noteq> []"
      | (wait) w where "u = cls @ w" "w = [] \<or> w = [CHR 0x0A]"
      | (full) z where "u = cls @ para_break @ z" "prefix z r"
    proof cases
      case c
      then consider "w = []" | "w = [CHR 0x0A]" | z where "w = para_break @ z" "prefix z r"
        by (auto simp: para_break_def prefix_Cons)
      then show thesis using that c(1) by cases auto
    qed (use that in blast)
    then show ?thesis
    proof cases
      case part
      then have tag: "is_tag True (u @ q')" using wf(2) by simp
      obtain u1 where u1: "u = CHR ''<'' # u1" "plain u1" by (rule part_Cons [OF tag rest(2)])
      then have "strip_round \<lparr>thinking_buffer = y, in_thinking_block = True\<rparr> =
          ([], \<lparr>thinking_buffer = u, in_thinking_block = True\<rparr>, False)"
        using finders_none [OF t(1), of u] no_tag_in_part [OF tag rest(2) part(2)]
          keep_part [OF tag rest(2) part(2), of t]
        by (simp add: strip_round_def Let_def rest(1))
      then show ?thesis using strip_loop_stop part rest(1,2) by (auto simp: inside_spec_def)
    next
      case wait
      then have "strip_round \<lparr>thinking_buffer = y, in_thinking_block = True\<rparr> =
          ([], \<lparr>thinking_buffer = u, in_thinking_block = True\<rparr>, False)"
        using end_waits [OF t(1) wf(2) t(2) wait(2)] keep_close [OF wf(2) wait(2), of t]
        by (simp add: strip_round_def Let_def rest(1))
      then show ?thesis using strip_loop_stop wait rest(1,2) by (auto simp: inside_spec_def)
    next
      case full
      have "strip_round \<lparr>thinking_buffer = y, in_thinking_block = True\<rparr> =
          ([], \<lparr>thinking_buffer = z, in_thinking_block = False\<rparr>, True)"
        using end_after_break [OF t(1) wf(2) t(2), of z]
        by (simp add: strip_round_def Let_def rest(1) full(1) para_break_def)
      from strip_loop_go [OF this] k [OF full(2)] show ?thesis
        by (simp add: inside_spec_def rest(1) full(1) para_break_def apfst_def map_prod_def split_beta)
    qed
  qed
qed

lemma outside_loop:
  assumes "wf_text a" and "\<forall>b \<in> set bs. wf_block b" and "prefix x (a @ blocks_text bs)"
  shows "strip_loop \<lparr>thinking_buffer = x, in_thinking_block = False\<rparr> = outside_spec a bs x"
  using assms
proof (induction bs arbitrary: a x)
  case Nil
  then have "plain x" by (auto simp: wf_text_def plain_def prefix_def)
  then have "strip_round \<lparr>thinking_buffer = x, in_thinking_block = False\<rparr> =
      (x, \<lparr>thinking_buffer = [], in_thinking_block = False\<rparr>, False)"
    using finders_none [of x "[]"] keep_plain by (simp add: strip_round_def Let_def)
  then show ?case using strip_loop_stop by (simp add: strip_new_def)
next
  case (Cons blk bs)
  obtain opn t cls b where blk: "blk = (opn, t, cls, b)" by (cases blk)
  have wf: "is_tag False opn" "is_tag True cls" "wf_text t" "no_quote_first t" "wf_text b"
    using Cons.prems(2) by (simp_all add: blk)
  have a: "plain a" "no_quote_last a" using Cons.prems(1) by (simp_all add: wf_text_def)
  from prefix_parts [of x a opn] Cons.prems(3) consider (plain) "prefix x a"
    | (part) u q' where "x = a @ u" "u \<noteq> []" "opn = u @ q'" "q' \<noteq> []"
    | (full) y where "x = a @ opn @ y" "prefix y (t @ cls @ para_break @ b @ blocks_text bs)"
    unfolding blk by (metis blocks_text.simps(2))
  then show ?case
  proof cases
    case plain
    then have "plain x" using a(1) by (auto simp: plain_def prefix_def)
    then have "strip_round \<lparr>thinking_buffer = x, in_thinking_block = False\<rparr> =
        (x, \<lparr>thinking_buffer = [], in_thinking_block = False\<rparr>, False)"
      using finders_none [of x "[]"] keep_plain by (simp add: strip_round_def Let_def)
    then show ?thesis using strip_loop_stop prefix_length_le [OF plain] by (simp add: blk strip_new_def)
  next
    case part
    then have tag: "is_tag False (u @ q')" using wf(1) by simp
    obtain u1 where u1: "u = CHR ''<'' # u1" "plain u1" by (rule part_Cons [OF tag part(2)])
    then have "strip_round \<lparr>thinking_buffer = x, in_thinking_block = False\<rparr> =
        (a, \<lparr>thinking_buffer = u, in_thinking_block = False\<rparr>, False)"
      using finders_none [OF a(1), of u] no_tag_in_part [OF tag part(2,4)] keep_part [OF tag part(2,4), of a]
      by (simp add: strip_round_def Let_def part(1))
    then show ?thesis using strip_loop_stop part by (auto simp: blk)
  next
    case full
    have "no_quote_first y"
      using full(2) wf(4) is_tag_Cons [OF wf(2)] by (cases t; cases y) (auto simp: no_quote_first_def quote_def)
    then have st: "find_real_thinking_start_tag (a @ opn @ y) = Some \<lparr>start = length a, len = length opn\<rparr>"
      using find_start_after a wf(1) by blast
    have "strip_round \<lparr>thinking_buffer = x, in_thinking_block = False\<rparr> =
        (a, \<lparr>thinking_buffer = y, in_thinking_block = True\<rparr>, True)"
      using stray_after [OF a(1) wf(1), of y]
      by (auto simp: strip_round_def Let_def full(1) st match_end_def split: option.split)
    moreover have "strip_loop \<lparr>thinking_buffer = y, in_thinking_block = True\<rparr> =
        inside_spec t cls (outside_spec b bs) y"
      using wf full(2) Cons.IH [OF wf(5)] Cons.prems(2) by (intro inside_loop) auto
    moreover have "opn \<noteq> []" using is_tag_Cons [OF wf(1)] by auto
    ultimately show ?thesis using strip_loop_go by (simp add: blk full(1))
  qed
qed

text \<open>Feeding the rest of a chunk to what the first part left is feeding the whole.\<close>

definition feed_on :: "string \<Rightarrow> string \<times> strip_state \<Rightarrow> string \<times> strip_state" where
  "feed_on c r = apfst ((@) (fst r)) (strip_inline_thinking_when_disabled c (snd r))"

lemma wf_text_drop: "wf_text a \<Longrightarrow> wf_text (drop n a)"
  by (auto simp: wf_text_def plain_def no_quote_last_def dest: in_set_dropD)

lemma wf_text_Nil [simp]: "wf_text []"
  by (simp add: wf_text_def plain_def no_quote_last_def)

lemma feed_on_eq:
  "feed_on c (v, \<lparr>thinking_buffer = b, in_thinking_block = i\<rparr>) =
     apfst ((@) v) (strip_loop \<lparr>thinking_buffer = b @ c, in_thinking_block = i\<rparr>)"
  by (simp add: feed_on_def strip_inline_thinking_when_disabled_def)

lemma feed_on_append: "feed_on c (apfst ((@) v) r) = apfst ((@) v) (feed_on c r)"
  by (simp add: feed_on_def apfst_def map_prod_def split_beta)

lemma prefix_cut: "prefix (y @ c) w \<Longrightarrow> n \<le> length y \<Longrightarrow> prefix (drop n y @ c) (drop n w)"
  by (elim prefixE) simp

lemma inside_resume:
  assumes wf: "wf_text t" "is_tag True cls" and p: "prefix (y @ c) (t @ cls @ para_break @ r)"
    and k: "\<And>z. prefix z r \<Longrightarrow> strip_loop \<lparr>thinking_buffer = z, in_thinking_block = False\<rparr> = k z"
    and res: "\<And>z. prefix (z @ c) r \<Longrightarrow> k (z @ c) = feed_on c (k z)"
  shows "inside_spec t cls k (y @ c) = feed_on c (inside_spec t cls k y)"
proof -
  note cut = prefix_cut [OF p]
  have len: "length para_break = 2" by (simp add: para_break_def)
  consider (plain) "length y \<le> length t"
    | (part) "length t < length y" "length y < length t + length cls + 2"
    | (full) "length t + length cls + 2 \<le> length y" by linarith
  then show ?thesis
  proof cases
    case plain
    have "prefix c (drop (length y) t @ cls @ para_break @ r)" using cut [of "length y"] plain by simp
    from inside_loop [OF wf_text_drop [OF wf(1)] wf(2) this k]
    have "strip_loop \<lparr>thinking_buffer = c, in_thinking_block = True\<rparr> = inside_spec (drop (length y) t) cls k c" .
    then show ?thesis using plain
      by (auto simp: inside_spec_def feed_on_eq apfst_def map_prod_def split_beta Suc_diff_le)
  next
    case part
    have "prefix (drop (length t) y @ c) ([] @ cls @ para_break @ r)" using cut [of "length t"] part by simp
    from inside_loop [OF wf_text_Nil wf(2) this k] part
    show ?thesis by (auto simp: inside_spec_def feed_on_eq apfst_def map_prod_def split_beta add.commute)
  next
    case full
    have "prefix (drop (length t + length cls + 2) y @ c) r"
      using cut [of "length t + length cls + 2"] full by (simp add: len)
    from res [OF this] full show ?thesis by (simp add: inside_spec_def)
  qed
qed

lemma outside_resume:
  assumes "wf_text a" and "\<forall>b \<in> set bs. wf_block b" and "prefix (x @ c) (a @ blocks_text bs)"
  shows "outside_spec a bs (x @ c) = feed_on c (outside_spec a bs x)"
  using assms
proof (induction bs arbitrary: a x)
  case Nil
  then have "prefix c (drop (length x) a)" by (auto simp: prefix_def)
  then have "strip_loop \<lparr>thinking_buffer = c, in_thinking_block = False\<rparr> = outside_spec (drop (length x) a) [] c"
    using Nil by (intro outside_loop) (auto intro: wf_text_drop)
  then show ?case by (simp add: feed_on_eq strip_new_def)
next
  case (Cons blk bs)
  obtain opn t cls b where blk: "blk = (opn, t, cls, b)" by (cases blk)
  have wf: "is_tag False opn" "is_tag True cls" "wf_text t" "no_quote_first t" "wf_text b"
    using Cons.prems(2) by (simp_all add: blk)
  note cut = prefix_cut [OF Cons.prems(3)]
  consider (plain) "length x \<le> length a"
    | (part) "length a < length x" "length x < length a + length opn"
    | (full) "length a < length x" "length a + length opn \<le> length x" by linarith
  then show ?case
  proof cases
    case plain
    have "strip_loop \<lparr>thinking_buffer = c, in_thinking_block = False\<rparr> =
        outside_spec (drop (length x) a) (blk # bs) c"
      using cut [of "length x"] plain Cons.prems by (intro outside_loop) (auto intro: wf_text_drop)
    moreover have "x = take (length x) a" using Cons.prems(3) plain
      by (metis append_eq_conv_conj prefixE append.assoc take_append take_all_iff diff_is_0_eq take_0 append_Nil2)
    moreover have "a = x @ drop (length x) a" using calculation(2) by (metis append_take_drop_id)
    ultimately show ?thesis using plain
      by (auto simp: blk feed_on_eq strip_new_def apfst_def map_prod_def split_beta)
  next
    case part
    have "strip_loop \<lparr>thinking_buffer = drop (length a) x @ c, in_thinking_block = False\<rparr> =
        outside_spec [] (blk # bs) (drop (length a) x @ c)"
      using cut [of "length a"] part Cons.prems by (intro outside_loop) auto
    then show ?thesis using part
      by (auto simp: blk feed_on_eq apfst_def map_prod_def split_beta add.commute)
  next
    case full
    have "prefix (drop (length a + length opn) x @ c) (t @ cls @ para_break @ b @ blocks_text bs)"
      using cut [OF full(2)] by (simp add: blk)
    then have "inside_spec t cls (outside_spec b bs) (drop (length a + length opn) x @ c) =
        feed_on c (inside_spec t cls (outside_spec b bs) (drop (length a + length opn) x))"
      using wf Cons.IH [OF wf(5)] Cons.prems(2) outside_loop [OF wf(5)] by (intro inside_resume) auto
    then show ?thesis using full by (simp add: blk feed_on_append)
  qed
qed

lemma chunks_from:
  assumes "wf_text a" and "\<forall>b \<in> set bs. wf_block b" and "prefix (x @ concat cs) (a @ blocks_text bs)"
  shows "apfst ((@) (fst (outside_spec a bs x))) (strip_chunks cs (snd (outside_spec a bs x))) =
    outside_spec a bs (x @ concat cs)"
  using assms(3)
proof (induction cs arbitrary: x)
  case Nil
  then show ?case by simp
next
  case (Cons c cs)
  have "prefix (x @ c) (a @ blocks_text bs)" using Cons.prems by (auto simp: prefix_def)
  from outside_resume [OF assms(1,2) this]
  have "outside_spec a bs (x @ c) = feed_on c (outside_spec a bs x)" .
  with Cons.IH [of "x @ c"] Cons.prems show ?case
    by (simp add: feed_on_def apfst_def map_prod_def split_beta)
qed

lemma inside_spec_full:
  "inside_spec t cls k (t @ cls @ para_break @ r) = k r"
  by (simp add: inside_spec_def para_break_def)

lemma outside_spec_full:
  "\<forall>b \<in> set bs. wf_block b \<Longrightarrow>
     outside_spec a bs (a @ blocks_text bs) = (a @ concat (map (\<lambda>(opn, t, cls, b). b) bs), strip_new)"
proof (induction bs arbitrary: a)
  case (Cons blk bs)
  obtain opn t cls b where blk: "blk = (opn, t, cls, b)" by (cases blk)
  then have "opn \<noteq> []" using Cons.prems is_tag_Cons [of False opn] by auto
  then show ?case using Cons by (simp add: blk inside_spec_full)
qed simp

text \<open>
  C4. Thinking is removed however the stream is cut. Take a text in which stretches of ordinary
  text alternate with blocks of an opening thinking tag (any case, with or without attributes),
  thinking, a closing tag and an empty line; no stretch contains an opening angle bracket or puts a
  quote character next to a tag. Whatever the chunks it arrives in, even if they cut a tag or the
  empty line anywhere, the client is shown exactly the ordinary text, and nothing is held back in
  the end.
\<close>
theorem thinking_removed:
  assumes "wf_text a" and "\<forall>b \<in> set bs. wf_block b" and "concat chunks = a @ blocks_text bs"
  shows "strip_chunks chunks strip_new = (a @ concat (map (\<lambda>(opn, t, cls, b). b) bs), strip_new)"
proof -
  have "outside_spec a bs [] = ([], strip_new)" by (cases bs) auto
  with chunks_from [OF assms(1,2), of "[]" chunks] outside_spec_full [OF assms(2), of a] assms(3)
  show ?thesis by (simp add: apfst_def map_prod_def split_beta)
qed

lemma ordinary_tags: "is_tag False ''<thinking>''" "is_tag True ''</thinking>''"
proof -
  have "is_tag c (tag_pre c @ ''thinking'' @ ''>'')" for c
    unfolding is_tag_def tag_len_iff
    using lower_thinking by (intro exI [of _ "''thinking''"] exI [of _ "[]"]) (simp add: inner_ok_def)
  from this [of False] this [of True] show "is_tag False ''<thinking>''" "is_tag True ''</thinking>''"
    by (simp_all add: tag_pre_def)
qed

lemma thinking_removed_witness:
  "strip_chunks [''Hi<thin'', ''king>why</thinking>'' @ [CHR 0x0A], CHR 0x0A # ''there''] strip_new =
     (''Hithere'', strip_new)"
proof -
  have "wf_text ''Hi''" "wf_block (''<thinking>'', ''why'', ''</thinking>'', ''there'')"
    using ordinary_tags by (simp_all add: wf_text_def plain_def no_quote_last_def no_quote_first_def quote_def)
  with thinking_removed [of "''Hi''" "[(''<thinking>'', ''why'', ''</thinking>'', ''there'')]"
      "[''Hi<thin'', ''king>why</thinking>'' @ [CHR 0x0A], CHR 0x0A # ''there'']"]
  show ?thesis by (simp add: para_break_def)
qed

text \<open>
  A complete response is treated differently: of the same text only the first thinking block is
  removed (and the text before it, if it is white space only). A second block stays in the answer
  with its tags, although the comment says that both paths remove the same. For a single block
  after real text the two agree.
\<close>
theorem complete_text_first_block:
  assumes "wf_text a" and "wf_block (opn, t, cls, b)"
  shows "strip_thinking_from_complete_text (a @ blocks_text ((opn, t, cls, b) # bs)) =
    (if trim a \<noteq> [] then a else []) @ b @ blocks_text bs"
proof -
  let ?y = "t @ cls @ para_break @ b @ blocks_text bs"
  have wf: "is_tag False opn" "is_tag True cls" "wf_text t" "no_quote_first t" using assms(2) by simp_all
  have "no_quote_first ?y"
    using wf(4) is_tag_Cons [OF wf(2)] by (cases t) (auto simp: no_quote_first_def quote_def)
  then have st: "find_real_thinking_start_tag (a @ opn @ ?y) = Some \<lparr>start = length a, len = length opn\<rparr>"
    using find_start_after assms(1) wf(1) by (simp add: wf_text_def)
  show ?thesis
    using end_after_break [of t cls "b @ blocks_text bs"] wf(2,3)
    unfolding strip_thinking_from_complete_text_def blocks_text.simps st
    by (simp add: match_end_def para_break_def wf_text_def)
qed

lemma complete_text_first_block_witness:
  "strip_thinking_from_complete_text (''Hi<thinking>why</thinking>'' @ para_break @
     ''there<thinking>so</thinking>'' @ para_break) = ''Hithere<thinking>so</thinking>'' @ para_break"
proof -
  have "wf_text ''Hi''" "wf_block (''<thinking>'', ''why'', ''</thinking>'', ''there'')"
    using ordinary_tags by (simp_all add: wf_text_def plain_def no_quote_last_def no_quote_first_def quote_def)
  moreover have "trim ''Hi'' \<noteq> []"
    using trim_id [of "''Hi''"] by (simp add: code_def ws_suffix_len_def)
  ultimately show ?thesis
    using complete_text_first_block [of "''Hi''" "''<thinking>''" "''why''" "''</thinking>''" "''there''"
        "[(''<thinking>'', ''so'', ''</thinking>'', [])]"] by simp
qed

text \<open>
  The quotes around a tag only protect it within one chunk. A response that mentions the tag
  between backquotes is shown whole if it comes in one chunk; if the tag comes in a chunk of its
  own it is taken for a real one and the rest of the answer is lost.
\<close>
theorem quoted_tag_split:
  assumes "plain u" and "u \<noteq> []" and "quote (last u)" and "is_tag False opn" and "plain v" and "trim v \<noteq> []"
  shows "strip_chunks [u @ opn @ v] strip_new = (u @ opn @ v, strip_new) \<and>
    strip_chunks [u, opn, v] strip_new = (u, \<lparr>thinking_buffer = [], in_thinking_block = True\<rparr>)"
proof
  let ?b = "u @ opn @ v" and ?m = "\<lparr>start = length u, len = length opn\<rparr>"
  obtain t where t: "opn = CHR ''<'' # t" "plain t" using is_tag_Cons [OF assms(4)] by blast
  then have pt: "plain (tl (opn @ v))" using assms(5) by (simp add: plain_def)
  have other: "tag_len True (opn @ v) = None"
    using wrong_kind [of False opn "[]" v] assms(4) t tag_len_bounds [of False opn "length opn"]
    by (auto simp: is_tag_def)
  have q: "thinking_tag_is_quoted ?b ?m"
  proof -
    have "length u - 1 < length u" using assms(2) by simp
    moreover from this have "length u - 1 < length u + (length opn + length v)" by (rule trans_less_add1)
    ultimately have "is_quote_char ?b (length u - 1)"
      using assms(2,3) by (simp add: is_quote_char_def quote_def nth_append last_conv_nth)
    then show ?thesis using assms(2) by (simp add: thinking_tag_is_quoted_def)
  qed
  have "scan_thinking_tag ?b (Suc (length u)) False = None"
    by (rule scan_past [OF pt]) simp
  then have "find_real_thinking_start_tag ?b = None"
    using scan_plain_tag [OF assms(1) is_tag_append [OF assms(4)], of v] q
    by (simp add: find_real_thinking_start_tag_def scan_loop.simps unquoted_decision_def)
  moreover have "find_stray_thinking_end_tag ?b = None"
    unfolding find_stray_thinking_end_tag_def using other pt by (intro scan_loop_none scan_none assms(1)) auto
  moreover have "partial_thinking_tag_suffix_len ?b = 0"
    using rfind_at [of "t @ v" u] pt t other assms(6) is_tag_append [OF assms(4), of v]
    by (simp add: partial_thinking_tag_suffix_len_def thinking_tag_len_at_def)
  ultimately show "strip_chunks [?b] strip_new = (?b, strip_new)"
    by (simp add: strip_inline_thinking_when_disabled_def strip_loop.simps strip_round_def strip_new_def Let_def)
  have 1: "strip_loop \<lparr>thinking_buffer = u, in_thinking_block = False\<rparr> = (u, strip_new)"
    using finders_none [OF assms(1), of "[]"] keep_plain [OF assms(1)]
    by (simp add: strip_loop.simps strip_round_def strip_new_def Let_def)
  have 3: "strip_loop \<lparr>thinking_buffer = x, in_thinking_block = True\<rparr> =
      ([], \<lparr>thinking_buffer = [], in_thinking_block = True\<rparr>)" if "plain x" for x
    using finders_none [OF that, of "[]"] keep_plain [OF that] rfind_plain [OF that]
    by (simp add: strip_loop.simps strip_round_def compact_oversized_hold_tail_def Let_def)
  have "strip_loop \<lparr>thinking_buffer = opn, in_thinking_block = False\<rparr> =
      ([], \<lparr>thinking_buffer = [], in_thinking_block = True\<rparr>)"
    using find_start_after [of "[]" opn "[]"] stray_after [of "[]" opn "[]"] assms(4) 3 [of "[]"]
    by (auto simp: plain_def no_quote_last_def no_quote_first_def strip_loop.simps [of "\<lparr>thinking_buffer = opn, in_thinking_block = False\<rparr>"]
        strip_round_def match_end_def Let_def split: option.split)
  with 1 3 [OF assms(5)] show "strip_chunks [u, opn, v] strip_new = (u, \<lparr>thinking_buffer = [], in_thinking_block = True\<rparr>)"
    by (simp add: strip_inline_thinking_when_disabled_def strip_new_def)
qed

lemma quoted_tag_split_witness:
  "fst (strip_chunks [''Use `<thinking>` here''] strip_new) = ''Use `<thinking>` here'' \<and>
   fst (strip_chunks [''Use `'', ''<thinking>'', ''` here''] strip_new) = ''Use `''"
proof -
  have "trim ''` here'' \<noteq> []" using trim_id [of "''` here''"] by (simp add: code_def ws_suffix_len_def)
  with quoted_tag_split [of "''Use `''" "''<thinking>''" "''` here''"] ordinary_tags show ?thesis
    by (simp add: plain_def quote_def)
qed

subsection \<open>Decisions are final\<close>

lemma tag_len_mono_unique: "tag_len c (s @ r) = Some l \<Longrightarrow> l \<le> length s \<Longrightarrow> tag_len c s = Some l"
proof -
  assume l: "tag_len c (s @ r) = Some l" "l \<le> length s"
  then obtain name inner r' where t: "s @ r = tag_pre c @ name @ inner @ CHR ''>'' # r'"
    "length name = 8" "to_ascii_lowercase name = ''thinking''" "inner_ok c inner"
    "l = length (tag_pre c) + 9 + length inner" unfolding tag_len_iff by blast
  then have "take l (s @ r) = tag_pre c @ name @ inner @ ''>''" by simp
  then have "s = (tag_pre c @ name @ inner @ ''>'') @ drop l s" using l(2)
    by (metis append_take_drop_id take_append diff_is_0_eq take_0 append_Nil2)
  then show ?thesis using t(2-5) unfolding tag_len_iff by (metis append.assoc append_Cons append_Nil)
qed

lemma tag_body_plain:
  assumes "tag_len c s = Some l" and "0 < j" and "j < l"
  shows "s ! j \<noteq> CHR ''<''"
proof -
  from assms(1) obtain name inner r where s: "s = (tag_pre c @ name @ inner @ ''>'') @ r"
    and t: "length name = 8" "to_ascii_lowercase name = ''thinking''" "inner_ok c inner"
    "l = length (tag_pre c @ name @ inner @ ''>'')" unfolding tag_len_iff by fastforce
  then have "is_tag c (tag_pre c @ name @ inner @ ''>'')" unfolding is_tag_def tag_len_iff by fastforce
  from is_tag_Cons [OF this] obtain t' where t': "tag_pre c @ name @ inner @ ''>'' = CHR ''<'' # t'" "plain t'"
    by blast
  then have "s ! j = t' ! (j - 1)" "j - 1 < length t'" using assms(2,3) s t(4) by (auto simp: nth_append nth_Cons')
  then show ?thesis using t'(2) by (metis nth_mem plain_def)
qed

lemma tag_at: "tag_len c (drop k b) = Some l \<Longrightarrow> k < length b \<and> b ! k = CHR ''<''"
proof -
  assume "tag_len c (drop k b) = Some l"
  then have "drop k b \<noteq> [] \<and> hd (drop k b) = CHR ''<''"
    by (cases "drop k b") (auto simp: tag_len_def split: if_splits)
  then show ?thesis by (metis drop_eq_Nil hd_drop_conv_nth not_le)
qed

lemma scan_starts: "scan_thinking_tag b i c = Some m \<Longrightarrow> b ! start m = CHR ''<''"
  using tag_at scan_thinking_tag_len by (fastforce simp: thinking_tag_len_at_def)

lemma scan_first:
  "scan_thinking_tag b i c = Some m \<Longrightarrow> i \<le> j \<Longrightarrow> j < start m \<Longrightarrow> b ! j = CHR ''<'' \<Longrightarrow>
     thinking_tag_len_at b j c = None"
proof (induction b i c rule: scan_thinking_tag.induct)
  case (1 b i c)
  have i: "i < length b" using 1(2) by (auto simp: scan_thinking_tag.simps [of b i] split: if_splits)
  have n: "(if b ! i = CHR ''<'' then thinking_tag_len_at b i c else None) = None"
    using 1(2,3,4) i by (auto simp: scan_thinking_tag.simps [of b i] split: option.splits)
  show ?case
  proof (cases "j = i")
    case False
    have "scan_thinking_tag b (Suc i) c = Some m"
      using 1(2) i n by (simp add: scan_thinking_tag.simps [of b i])
    from 1(1) [OF i n this] 1(3-5) False show ?thesis by simp
  qed (use n 1(5) in simp)
qed

lemma scan_tag_append: "scan_thinking_tag b i c = Some m \<Longrightarrow> scan_thinking_tag (b @ r) i c = Some m"
proof -
  assume s: "scan_thinking_tag b i c = Some m"
  have m: "i \<le> start m" "start m < length b" using scan_thinking_tag_bounds [OF s] by auto
  have "tag_len c (drop (start m) b) = Some (len m)"
    using scan_thinking_tag_len [OF s] by (simp add: thinking_tag_len_at_def)
  then have at: "thinking_tag_len_at (b @ r) (start m) c = Some (len m)"
    using m tag_len_append [of c "drop (start m) b" "len m" r] by (simp add: thinking_tag_len_at_def)
  have "thinking_tag_len_at (b @ r) j c = None" if j: "i \<le> j" "j < start m" "b ! j = CHR ''<''" for j
  proof (rule ccontr)
    assume "thinking_tag_len_at (b @ r) j c \<noteq> None"
    then obtain l where l: "tag_len c (drop j b @ r) = Some l" using j m by (auto simp: thinking_tag_len_at_def)
    have "l \<le> length (drop j b)"
    proof (rule ccontr)
      assume "\<not> l \<le> length (drop j b)"
      then have "(drop j b @ r) ! (start m - j) \<noteq> CHR ''<''"
        using tag_body_plain [OF l, of "start m - j"] j m by simp
      moreover have "start m - j < length b - j" using j m by (simp add: diff_less_mono)
      ultimately show False using scan_starts [OF s] j m by (simp add: nth_append)
    qed
    from tag_len_mono_unique [OF l this] have "thinking_tag_len_at b j c = Some l"
      by (simp add: thinking_tag_len_at_def)
    then show False using scan_first [OF s j(1,2)] j(3) by simp
  qed
  then have "scan_thinking_tag (b @ r) i c = scan_thinking_tag (b @ r) (start m) c"
    using m by (intro scan_skip) (auto simp: nth_append)
  then show ?thesis using at m scan_starts [OF s]
    by (simp add: scan_thinking_tag.simps [of "b @ r" "start m"] nth_append)
qed
lemma ws_len_append: "0 < ws_len xs \<Longrightarrow> ws_len (xs @ ys) = ws_len xs"
  by (cases xs; cases "tl xs"; cases "tl (tl xs)") (auto split: if_splits list.splits)

lemma ws_len_lt: "60 \<in> set xs \<Longrightarrow> ws_len (xs @ ys) = ws_len xs"
  by (cases xs; cases "tl xs"; cases "tl (tl xs)") (auto split: if_splits list.splits)

lemma ws_len_take: "60 \<notin> set (take (ws_len xs) xs)" and ws_len_le: "ws_len xs \<le> length xs"
  by (cases xs; cases "tl xs"; cases "tl (tl xs)"; force split: if_splits list.splits)+

lemma code_lt: "code c = 60 \<longleftrightarrow> c = CHR ''<''"
proof
  assume "code c = 60"
  then have "code c = code CHR ''<''" by (simp add: code_def)
  then show "c = CHR ''<''" by (simp only: code_def of_char_eq_iff)
qed (simp add: code_def)

lemma lt_code_set: "60 \<in> set (map code s) \<longleftrightarrow> CHR ''<'' \<in> set s"
  by (auto simp: image_iff) (metis code_lt)+

lemma ws_prefix_le: "ws_prefix_len s \<le> length s"
proof (induction s rule: ws_prefix_len.induct)
  case (1 s)
  show ?case
  proof (cases "s = [] \<or> ws_len (map code s) = 0")
    case False
    then show ?thesis using 1 [OF refl] ws_len_le [of "map code s"]
      by (simp add: ws_prefix_len.simps [of s] Let_def)
  qed (auto simp: ws_prefix_len.simps [of s])
qed

lemma ws_prefix_append: "ws_prefix_len s \<le> ws_prefix_len (s @ r)"
proof (induction s rule: ws_prefix_len.induct)
  case (1 s)
  show ?case
  proof (cases "s = [] \<or> ws_len (map code s) = 0")
    case False
    then show ?thesis using 1 [OF refl] ws_len_le [of "map code s"] ws_len_append [of "map code s" "map code r"]
      by (simp add: ws_prefix_len.simps [of s] ws_prefix_len.simps [of "s @ r"] Let_def)
  qed (auto simp: ws_prefix_len.simps [of s])
qed

lemma ws_prefix_lt: "CHR ''<'' \<in> set s \<Longrightarrow> ws_prefix_len (s @ r) = ws_prefix_len s \<and> ws_prefix_len s < length s"
proof (induction s rule: ws_prefix_len.induct)
  case (1 s)
  let ?n = "ws_len (map code s)"
  have e: "ws_len (map code (s @ r)) = ?n" using 1(2) ws_len_lt [of "map code s" "map code r"] lt_code_set [of s] by simp
  show ?case
  proof (cases "?n = 0")
    case False
    have "CHR ''<'' \<notin> set (take ?n s)"
      using ws_len_take [of "map code s"] lt_code_set [of "take ?n s"] by (simp add: take_map)
    moreover have "set s = set (take ?n s) \<union> set (drop ?n s)" by (metis append_take_drop_id set_append)
    ultimately have "CHR ''<'' \<in> set (drop ?n s)" using 1(2) by blast
    moreover have "s \<noteq> []" using 1(2) by auto
    ultimately have "ws_prefix_len (drop ?n s @ r) = ws_prefix_len (drop ?n s) \<and>
        ws_prefix_len (drop ?n s) < length s - ?n" using 1(1) [OF refl] False by simp
    then show ?thesis using False e 1(2) ws_len_le [of "map code s"]
      by (auto simp: ws_prefix_len.simps [of s] ws_prefix_len.simps [of "s @ r"] Let_def)
  qed (use 1(2) e in \<open>auto simp: ws_prefix_len.simps [of s] ws_prefix_len.simps [of "s @ r"]\<close>)
qed

lemma quote_char_append: "i < length b \<Longrightarrow> is_quote_char (b @ r) i = is_quote_char b i"
  by (simp add: is_quote_char_def nth_append)

lemma quoted_append:
  "match_end m < length b \<Longrightarrow> thinking_tag_is_quoted (b @ r) m = thinking_tag_is_quoted b m"
  by (auto simp: thinking_tag_is_quoted_def match_end_def quote_char_append)

lemma return_append:
  assumes "end_tag_decision b m = Return (Some m)" and "match_end m \<le> length b"
  shows "end_tag_decision (b @ r) m = Return (Some m)"
proof (cases "r = []")
  case False
  let ?a = "drop (match_end m) b"
  have a: "?a \<noteq> []" "\<not> thinking_tag_is_quoted b m"
    using assms(1) by (auto simp: end_tag_decision_def Let_def split: if_splits)
  then have lt: "match_end m < length b" by simp
  have after: "drop (match_end m) (b @ r) = ?a @ r" using assms(2) by simp
  have nq: "\<not> thinking_tag_is_quoted (b @ r) m" using a(2) lt by (simp add: quoted_append)
  show ?thesis
  proof (cases "hd ?a = CHR ''<''")
    case True
    then show ?thesis using nq a(1) unfolding end_tag_decision_def after by (simp add: Let_def)
  next
    case False
    then have ws: "0 < ws_len (map code ?a)" "CHR 0x0A \<in> set (take (ws_prefix_len ?a) ?a)"
      using assms(1) a by (auto simp: end_tag_decision_def Let_def split: if_splits)
    have "take (ws_prefix_len ?a) ?a = take (ws_prefix_len ?a) (?a @ r)" using ws_prefix_le [of ?a] by simp
    then have "CHR 0x0A \<in> set (take (ws_prefix_len (?a @ r)) (?a @ r))"
      using ws(2) ws_prefix_append [of ?a r] by (metis set_take_subset_set_take subsetD)
    moreover have "2 \<le> length (?a @ r)" using a(1) \<open>r \<noteq> []\<close> by (cases ?a; cases r) auto
    moreover have "0 < ws_len (map code (?a @ r))" using ws(1) ws_len_append [of "map code ?a" "map code r"] by simp
    ultimately show ?thesis using nq a(1) False unfolding end_tag_decision_def after
      by (auto simp: Let_def PARAGRAPH_BREAK_LEN_def simp del: append_is_Nil_conv length_append drop_append map_append)
  qed
qed (use assms in simp)

lemma continue_append:
  assumes "end_tag_decision b m = Continue" and "CHR ''<'' \<in> set (drop (match_end m) b)" and "match_end m \<le> length b"
  shows "end_tag_decision (b @ r) m = Continue"
proof -
  let ?a = "drop (match_end m) b"
  have a: "?a \<noteq> []" using assms(2) by auto
  then have lt: "match_end m < length b" by simp
  have after: "drop (match_end m) (b @ r) = ?a @ r" using assms(3) by simp
  note q = quoted_append [OF lt, of r]
  have ws: "ws_len (map code (?a @ r)) = ws_len (map code ?a)"
    using assms(2) ws_len_lt [of "map code ?a" "map code r"] lt_code_set [of ?a] by simp
  note p = ws_prefix_lt [OF assms(2), of r]
  have t: "take (ws_prefix_len ?a) (?a @ r) = take (ws_prefix_len ?a) ?a" using p by simp
  show ?thesis using assms(1) a p
    unfolding end_tag_decision_def after q ws Let_def
    by (auto simp: t hd_append split: if_splits simp del: drop_append)
qed

lemma end_tag_loopD:
  assumes "scan_loop (end_tag_decision b) b True i = Some m"
  shows "i \<le> start m" "tag_len True (drop (start m) b) = Some (len m)" "match_end m \<le> length b"
    "end_tag_decision b m = Return (Some m)"
  using scan_loop_SomeD [OF assms] end_tag_decision_self [of b] by (auto simp: thinking_tag_len_at_def)

text \<open>
  The end of the thinking is decided once and for all: if the scanner recognises a closing tag
  as the end in what has arrived, it recognises the same tag, and strips the same line breaks after
  it, whatever arrives later. Where more input could change the decision, it waits.
\<close>
theorem end_tag_final:
  assumes "find_real_thinking_end_tag b = Some m"
  shows "find_real_thinking_end_tag (b @ r) = Some m \<and>
    thinking_end_tag_consumed_len (b @ r) m = thinking_end_tag_consumed_len b m"
proof
  have loop: "scan_loop (end_tag_decision (b @ r)) (b @ r) True i = Some m"
    if "scan_loop (end_tag_decision b) b True i = Some m" for i
    using that
  proof (induction "length b - i" arbitrary: i rule: less_induct)
    case less
    then obtain m0 where m0: "scan_thinking_tag b i True = Some m0"
      by (auto simp: scan_loop.simps [of "end_tag_decision b" b True i] split: option.splits)
    note b0 = scan_thinking_tag_bounds [OF m0]
    have l0: "tag_len True (drop (start m0) b) = Some (len m0)"
      using scan_thinking_tag_len [OF m0] by (simp add: thinking_tag_len_at_def)
    then have e0: "match_end m0 \<le> length b" using tag_len_bounds [OF l0] b0 unfolding match_end_def length_drop by linarith
    show ?case
    proof (cases "end_tag_decision b m0")
      case Continue
      then have rest: "scan_loop (end_tag_decision b) b True (Suc (start m0)) = Some m"
        using less.prems m0 by (simp add: scan_loop.simps [of "end_tag_decision b" b True i])
      then have m: "start m0 < start m" "tag_len True (drop (start m) b) = Some (len m)"
        using end_tag_loopD by force+
      note lt = tag_at [OF m(2)]
      have "match_end m0 \<le> start m"
      proof (rule ccontr)
        assume "\<not> match_end m0 \<le> start m"
        then have "drop (start m0) b ! (start m - start m0) \<noteq> CHR ''<''"
          using m(1) by (intro tag_body_plain [OF l0]) (auto simp: match_end_def)
        then show False using lt m(1) by simp
      qed
      then have "CHR ''<'' \<in> set (drop (match_end m0) b)"
        using lt e0 nth_mem [of "start m - match_end m0" "drop (match_end m0) b"]
        by (simp add: diff_less_mono)
      from continue_append [OF Continue this e0]
      have "end_tag_decision (b @ r) m0 = Continue" .
      moreover have "scan_loop (end_tag_decision (b @ r)) (b @ r) True (Suc (start m0)) = Some m"
        by (rule less.hyps [OF _ rest]) (use b0 in linarith)
      ultimately show ?thesis using scan_tag_append [OF m0, of r]
        by (simp add: scan_loop.simps [of "end_tag_decision (b @ r)" "b @ r" True i])
    next
      case (Return x)
      then have x: "x = Some m" using less.prems m0 by (simp add: scan_loop.simps [of "end_tag_decision b" b True i])
      then have "m0 = m" using Return end_tag_decision_self by metis
      with return_append [of b m r] Return x e0 scan_tag_append [OF m0, of r] show ?thesis
        by (simp add: scan_loop.simps [of "end_tag_decision (b @ r)" "b @ r" True i])
    qed
  qed
  then show "find_real_thinking_end_tag (b @ r) = Some m"
    using assms by (simp add: find_real_thinking_end_tag_def)
  show "thinking_end_tag_consumed_len (b @ r) m = thinking_end_tag_consumed_len b m"
  proof -
    have d: "end_tag_decision b m = Return (Some m)" "match_end m \<le> length b"
      using end_tag_loopD assms unfolding find_real_thinking_end_tag_def by blast+
    let ?a = "drop (match_end m) b"
    have "takeWhile (\<lambda>c. c = CHR 0x0A) (take 2 (?a @ r)) = takeWhile (\<lambda>c. c = CHR 0x0A) (take 2 ?a)"
    proof (cases "2 \<le> length ?a")
      case False
      then obtain c where c: "?a = [c]" using d(1)
        by (cases ?a; cases "tl ?a") (auto simp: end_tag_decision_def Let_def split: if_splits)
      have "c \<noteq> CHR 0x0A"
      proof
        assume "c = CHR 0x0A"
        then have "?a = [CHR 0x0A]" using c by simp
        moreover have "ws_prefix_len [CHR 0x0A] = 1" by (simp add: ws_prefix_newline ws_prefix_len.simps [of "[]"])
        ultimately show False using d(1) ws_newline [of "[]"]
          by (auto simp: end_tag_decision_def Let_def PARAGRAPH_BREAK_LEN_def split: if_splits)
      qed
      then show ?thesis using c by simp
    qed simp
    then show ?thesis using d(2) by (simp add: thinking_end_tag_consumed_len_def PARAGRAPH_BREAK_LEN_def)
  qed
qed

lemma end_tag_final_witness:
  "find_real_thinking_end_tag ((''why</thinking>'' @ para_break) @ ''so'') = Some \<lparr>start = 3, len = 11\<rparr>"
  using end_after_break [of "''why''" "''</thinking>''" "[]"] ordinary_tags
    end_tag_final [of "''why</thinking>'' @ para_break" "\<lparr>start = 3, len = 11\<rparr>" "''so''"]
  by (simp add: plain_def no_quote_last_def quote_def para_break_def)

end
