(* ===== verification/Credentials.thy ===== *)
theory Credentials
  imports Ssrf "HOL-Library.Char_ord" "HOL-Library.List_Lexorder"
begin

text \<open>
  What a credential says of itself: \<open>KiroCredentials\<close> of \<open>src/src/kiro/model/credentials.rs\<close> with
  its derived views (kind of account, region, profile, endpoints, proxy, family), the region table
  of \<open>src/src/kiro/regions.rs\<close>, and the rules that rename models, \<open>src/src/kiro/model_mapping.rs\<close>.

  The record holds the fields these functions read. Upper-casing of Unicode text
  (\<open>to_uppercase\<close>) and percent-decoding are parameters. A \<open>HashMap\<close> that is iterated is the list of
  its pairs in the order the iterator yields them, which the map does not fix.
\<close>

subsection \<open>Renaming of models\<close>

text \<open>\<open>s.get(..n)\<close>.\<close>

definition get_prefix :: "nat \<Rightarrow> string \<Rightarrow> string option" where
  "get_prefix n s = (if n \<le> length s \<and> is_char_boundary s n then Some (take n s) else None)"

definition strip_suffix_char :: "char \<Rightarrow> string \<Rightarrow> string option" where
  "strip_suffix_char c s = (if s \<noteq> [] \<and> last s = c then Some (butlast s) else None)"

definition wildcard_matches :: "string \<Rightarrow> string \<Rightarrow> bool" where
  "wildcard_matches pattern model =
     (case strip_suffix_char CHR ''*'' pattern of
        Some prefix \<Rightarrow>
          (case get_prefix (length prefix) model of
             Some head \<Rightarrow> eq_ignore_ascii_case prefix head
           | None \<Rightarrow> False)
      | None \<Rightarrow> eq_ignore_ascii_case pattern model)"

definition rule_order :: "string \<Rightarrow> string \<Rightarrow> ordering" where
  "rule_order ka kb =
     then_with (then_with (cmp (length ka) (length kb))
                  (reverse (cmp (CHR ''*'' \<in> set ka) (CHR ''*'' \<in> set kb))))
       (cmp kb ka)"

definition rule_applies :: "string \<Rightarrow> string \<times> string \<Rightarrow> bool" where
  "rule_applies model = (\<lambda>(k, v). trim v \<noteq> [] \<and> wildcard_matches k model)"

definition map_target :: "string \<Rightarrow> (string \<times> string) list \<Rightarrow> string option" where
  "map_target model rules =
     (if rules = [] then None
      else case max_by (\<lambda>(ka, _) (kb, _). rule_order ka kb) (filter (rule_applies model) rules) of
             None \<Rightarrow> None
           | Some (_, target) \<Rightarrow> if eq_ignore_ascii_case target model then None else Some target)"

subsection \<open>Regions\<close>

definition KIRO_DIALOG_REGIONS :: "string list" where
  "KIRO_DIALOG_REGIONS =
     [''us-east-1'', ''us-east-2'', ''us-west-1'', ''us-west-2'', ''ca-central-1'', ''ca-west-1'',
      ''eu-west-1'', ''eu-west-2'', ''eu-west-3'', ''eu-central-1'', ''eu-central-2'', ''eu-north-1'',
      ''eu-south-1'', ''eu-south-2'', ''ap-south-1'', ''ap-south-2'', ''ap-southeast-1'',
      ''ap-southeast-2'', ''ap-southeast-3'', ''ap-southeast-4'', ''ap-northeast-1'',
      ''ap-northeast-2'', ''ap-northeast-3'', ''ap-east-1'', ''sa-east-1'', ''me-south-1'',
      ''me-central-1'', ''af-south-1'', ''il-central-1'', ''us-gov-east-1'', ''us-gov-west-1'',
      ''cn-north-1'', ''cn-northwest-1'']"

text \<open>The configuration of the gateway, as far as regions go.\<close>

record region_config =
  cfg_region :: string
  cfg_auth_region :: "string option"
  cfg_api_region :: "string option"

definition cfg_effective_auth_region :: "region_config \<Rightarrow> string" where
  "cfg_effective_auth_region c = (case cfg_auth_region c of Some r \<Rightarrow> r | None \<Rightarrow> cfg_region c)"

definition cfg_effective_api_region :: "region_config \<Rightarrow> string" where
  "cfg_effective_api_region c = (case cfg_api_region c of Some r \<Rightarrow> r | None \<Rightarrow> cfg_region c)"

definition sanitized_region :: "string \<Rightarrow> string option" where
  "sanitized_region r = (if r \<in> set KIRO_DIALOG_REGIONS then Some r else None)"

definition is_supported_region :: "string \<Rightarrow> bool" where
  "is_supported_region r \<longleftrightarrow> r \<in> set KIRO_DIALOG_REGIONS"

definition region_from_profile_arn :: "string \<Rightarrow> string option" where
  "region_from_profile_arn arn =
     (case split_char CHR '':'' arn of
        a # _ # c # region # _ \<Rightarrow>
          if a = ''arn'' \<and> c = ''codewhisperer'' \<and> region \<in> set KIRO_DIALOG_REGIONS
          then Some region else None
      | _ \<Rightarrow> None)"

subsection \<open>The credential\<close>

datatype disabled_reason =
  Manual | TooManyFailures | TooManyRefreshFailures | QuotaExceeded | AccountSuspended
| SuspiciousActivityAuto | InvalidRefreshToken | InvalidConfig | RequestLimitReached
| PassthroughFailed | PassthroughOverloaded | RegionProbeFailed | RegionProbeTokenDead | Unknown

record kiro_credentials =
  cred_id :: "nat option"
  access_token :: "string option"
  refresh_token :: "string option"
  profile_arn :: "string option"
  token_expires_at :: "string option"
  auth_method :: "string option"
  client_id :: "string option"
  client_secret :: "string option"
  issuer_url :: "string option"
  token_endpoint :: "string option"
  priority :: nat
  rpm_limit :: "nat option"
  allowed_models :: "string list option"
  base_url :: "string option"
  api_key :: "string option"
  region :: "string option"
  auth_region :: "string option"
  api_region :: "string option"
  clone_group :: "string option"
  clone_seq :: "nat option"
  subscription_title :: "string option"
  proxy_url :: "string option"
  proxy_username :: "string option"
  proxy_password :: "string option"
  cred_disabled :: bool
  cred_disabled_reason :: "disabled_reason option"
  cred_disabled_at :: "string option"
  cred_quota_exhausted_at :: "string option"
  kiro_api_key :: "string option"
  endpoint :: "string option"
  cli_origin_kiro_cli :: "bool option"

definition credentials_default :: kiro_credentials where
  "credentials_default =
     \<lparr>cred_id = None, access_token = None, refresh_token = None, profile_arn = None,
      token_expires_at = None, auth_method = None, client_id = None, client_secret = None,
      issuer_url = None, token_endpoint = None, priority = 0, rpm_limit = None, allowed_models = None, base_url = None, api_key = None,
      region = None, auth_region = None, api_region = None, clone_group = None, clone_seq = None,
      subscription_title = None, proxy_url = None, proxy_username = None, proxy_password = None,
      cred_disabled = False, cred_disabled_reason = None, cred_disabled_at = None,
      cred_quota_exhausted_at = None, kiro_api_key = None, endpoint = None,
      cli_origin_kiro_cli = None\<rparr>"

definition canonicalize_auth_method_value :: "string \<Rightarrow> string" where
  "canonicalize_auth_method_value v =
     (if eq_ignore_ascii_case v ''builder-id'' \<or> eq_ignore_ascii_case v ''iam'' then ''idc''
      else if eq_ignore_ascii_case v ''api_key'' \<or> eq_ignore_ascii_case v ''apikey'' then ''api_key''
      else if eq_ignore_ascii_case v ''external-idp'' \<or> eq_ignore_ascii_case v ''externalidp''
              \<or> eq_ignore_ascii_case v ''azure'' \<or> eq_ignore_ascii_case v ''azuread''
              \<or> eq_ignore_ascii_case v ''azure_ad'' then ''external_idp''
      else if eq_ignore_ascii_case v ''custom_api'' \<or> eq_ignore_ascii_case v ''customapi''
              \<or> eq_ignore_ascii_case v ''custom-api'' \<or> eq_ignore_ascii_case v ''passthrough''
        then ''custom_api''
      else v)"

definition canonicalize_auth_method :: "kiro_credentials \<Rightarrow> kiro_credentials" where
  "canonicalize_auth_method c =
     (case auth_method c of
        None \<Rightarrow> c
      | Some m \<Rightarrow> let canonical = canonicalize_auth_method_value m in
          if canonical \<noteq> m then c\<lparr>auth_method := Some canonical\<rparr> else c)"

definition is_custom_api_credential :: "kiro_credentials \<Rightarrow> bool" where
  "is_custom_api_credential c \<longleftrightarrow> auth_method c = Some ''custom_api'' \<or> base_url c \<noteq> None"

definition is_api_key_credential :: "kiro_credentials \<Rightarrow> bool" where
  "is_api_key_credential c \<longleftrightarrow> kiro_api_key c \<noteq> None \<or>
     (case auth_method c of
        Some m \<Rightarrow> eq_ignore_ascii_case m ''api_key'' \<or> eq_ignore_ascii_case m ''apikey''
      | None \<Rightarrow> False)"

definition is_external_idp_credential :: "kiro_credentials \<Rightarrow> bool" where
  "is_external_idp_credential c \<longleftrightarrow>
     (case auth_method c of
        Some m \<Rightarrow> eq_ignore_ascii_case m ''external_idp'' \<or> eq_ignore_ascii_case m ''external-idp''
          \<or> eq_ignore_ascii_case m ''externalidp'' \<or> eq_ignore_ascii_case m ''azure''
          \<or> eq_ignore_ascii_case m ''azuread'' \<or> eq_ignore_ascii_case m ''azure_ad''
      | None \<Rightarrow> False)"

definition is_idc_credential :: "kiro_credentials \<Rightarrow> bool" where
  "is_idc_credential c \<longleftrightarrow>
     (case auth_method c of
        Some m \<Rightarrow> canonicalize_auth_method_value m = ''idc''
      | None \<Rightarrow> client_id c \<noteq> None \<and> client_secret c \<noteq> None)"

definition allows_model :: "kiro_credentials \<Rightarrow> string \<Rightarrow> bool" where
  "allows_model c model =
     (case allowed_models c of
        None \<Rightarrow> True
      | Some [] \<Rightarrow> True
      | Some list \<Rightarrow> list_ex (\<lambda>m. wildcard_matches m model) list)"

definition supports_opus :: "(string \<Rightarrow> string) \<Rightarrow> kiro_credentials \<Rightarrow> bool" where
  "supports_opus to_uppercase c =
     (case subscription_title c of
        Some title \<Rightarrow> find_sub ''FREE'' (to_uppercase title) = None
      | None \<Rightarrow> True)"

subsection \<open>Region, profile, endpoints, proxy\<close>

text \<open>\<open>Option::or_else\<close>.\<close>

definition or_opt :: "'a option \<Rightarrow> 'a option \<Rightarrow> 'a option" where
  "or_opt a b = (case a of Some x \<Rightarrow> Some x | None \<Rightarrow> b)"

definition effective_auth_region :: "region_config \<Rightarrow> kiro_credentials \<Rightarrow> string" where
  "effective_auth_region cfg c =
     (case or_opt (Option.bind (auth_region c) sanitized_region)
                  (Option.bind (region c) sanitized_region) of
        Some r \<Rightarrow> r | None \<Rightarrow> cfg_effective_auth_region cfg)"

definition effective_api_region :: "region_config \<Rightarrow> kiro_credentials \<Rightarrow> string" where
  "effective_api_region cfg c =
     (case Option.bind (api_region c) sanitized_region of
        Some r \<Rightarrow> r | None \<Rightarrow> cfg_effective_api_region cfg)"

definition effective_upstream_region :: "region_config \<Rightarrow> kiro_credentials \<Rightarrow> string" where
  "effective_upstream_region cfg c =
     (case Option.bind (profile_arn c) region_from_profile_arn of
        Some r \<Rightarrow> r
      | None \<Rightarrow>
          (case (if is_api_key_credential c then Option.bind (api_region c) sanitized_region else None) of
             Some r \<Rightarrow> r
           | None \<Rightarrow>
               (case or_opt (Option.bind (region c) sanitized_region)
                            (Option.bind (auth_region c) sanitized_region) of
                  Some r \<Rightarrow> r
                | None \<Rightarrow> effective_api_region cfg c)))"

definition sync_region_from_arn :: "kiro_credentials \<Rightarrow> bool \<times> kiro_credentials" where
  "sync_region_from_arn c =
     (case Option.bind (profile_arn c) region_from_profile_arn of
        None \<Rightarrow> (False, c)
      | Some r \<Rightarrow>
          let (changed1, c1) = (if region c \<noteq> Some r then (True, c\<lparr>region := Some r\<rparr>) else (False, c)) in
          if \<not> is_idc_credential c1 \<and> auth_region c1 \<noteq> Some r
          then (True, c1\<lparr>auth_region := Some r\<rparr>) else (changed1, c1))"

definition DEFAULT_BUILDER_ID_PROFILE_ARN :: string where
  "DEFAULT_BUILDER_ID_PROFILE_ARN = ''arn:aws:codewhisperer:us-east-1:638616132270:profile/AAAACCCCXXXX''"

definition is_placeholder_profile_arn :: "string \<Rightarrow> bool" where
  "is_placeholder_profile_arn arn \<longleftrightarrow> trim arn = DEFAULT_BUILDER_ID_PROFILE_ARN"

definition effective_profile_arn :: "kiro_credentials \<Rightarrow> string option" where
  "effective_profile_arn c =
     (let stored = Option.bind (profile_arn c) (\<lambda>a. if trim a \<noteq> [] then Some (trim a) else None) in
      case stored of
        Some arn \<Rightarrow> Some arn
      | None \<Rightarrow> if is_external_idp_credential c then None
                else if is_api_key_credential c then None
                else Some DEFAULT_BUILDER_ID_PROFILE_ARN)"

definition should_send_profile_arn :: "kiro_credentials \<Rightarrow> bool" where
  "should_send_profile_arn c \<longleftrightarrow> effective_profile_arn c \<noteq> None"

definition usage_profile_arn :: "kiro_credentials \<Rightarrow> string option" where
  "usage_profile_arn c =
     (let stored = Option.bind (profile_arn c) (\<lambda>a.
            if trim a \<noteq> [] \<and> \<not> is_placeholder_profile_arn (trim a) then Some (trim a) else None) in
      case stored of
        Some arn \<Rightarrow> Some arn
      | None \<Rightarrow> if is_api_key_credential c \<or> is_external_idp_credential c then None
                else Some DEFAULT_BUILDER_ID_PROFILE_ARN)"

definition has_real_profile_arn :: "kiro_credentials \<Rightarrow> bool" where
  "has_real_profile_arn c \<longleftrightarrow>
     (case profile_arn c of
        Some a \<Rightarrow> trim a \<noteq> [] \<and> \<not> is_placeholder_profile_arn (trim a)
      | None \<Rightarrow> False)"

definition API_KEY_ENDPOINT_ORDER :: "string list" where
  "API_KEY_ENDPOINT_ORDER = [''cli'', ''cli-runtime'']"

definition effective_endpoint_order :: "string \<Rightarrow> kiro_credentials \<Rightarrow> string list" where
  "effective_endpoint_order default_endpoint c =
     (let is_ksk = \<not> is_custom_api_credential c \<and> is_api_key_credential c;
          name = (case endpoint c of Some n \<Rightarrow> trim n | None \<Rightarrow> []) in
      if name \<noteq> [] then
        (if is_ksk
         then foldl (\<lambda>order ep. if ep \<in> set order then order else order @ [ep]) [name] API_KEY_ENDPOINT_ORDER
         else [name])
      else if is_ksk then API_KEY_ENDPOINT_ORDER
      else [default_endpoint])"

definition effective_endpoint :: "string \<Rightarrow> kiro_credentials \<Rightarrow> string" where
  "effective_endpoint default_endpoint c =
     (case effective_endpoint_order default_endpoint c of e # _ \<Rightarrow> e | [] \<Rightarrow> default_endpoint)"

definition effective_cli_origin_kiro_cli :: "bool \<Rightarrow> kiro_credentials \<Rightarrow> bool" where
  "effective_cli_origin_kiro_cli global c =
     (case cli_origin_kiro_cli c of Some b \<Rightarrow> b | None \<Rightarrow> global)"

record proxy_config =
  proxy_address :: string
  proxy_user :: "string option"
  proxy_pass :: "string option"

definition proxy_new :: "string \<Rightarrow> proxy_config" where
  "proxy_new url = \<lparr>proxy_address = url, proxy_user = None, proxy_pass = None\<rparr>"

definition with_auth :: "string \<Rightarrow> string \<Rightarrow> proxy_config \<Rightarrow> proxy_config" where
  "with_auth u p c = c\<lparr>proxy_user := Some u, proxy_pass := Some p\<rparr>"

definition non_blank :: "string option \<Rightarrow> string option" where
  "non_blank x = Option.bind x (\<lambda>s. if trim s \<noteq> [] then Some s else None)"

definition effective_proxy :: "(string \<Rightarrow> string option) \<Rightarrow> proxy_config option \<Rightarrow> kiro_credentials \<Rightarrow>
    proxy_config option" where
  "effective_proxy dec global_proxy c =
     (case proxy_url c of
        Some url \<Rightarrow>
          if trim url = [] then global_proxy
          else if eq_ignore_ascii_case url ''direct'' then None
          else
            let (clean_url, inline_user, inline_pass) = split_proxy_credentials dec url;
                username = or_opt (non_blank (proxy_username c)) inline_user;
                password = or_opt (non_blank (proxy_password c)) inline_pass in
            (case (username, password) of
               (Some u, Some p) \<Rightarrow> Some (with_auth u p (proxy_new clean_url))
             | _ \<Rightarrow> Some (proxy_new clean_url))
      | None \<Rightarrow> global_proxy)"

subsection \<open>The family of a credential\<close>

definition microsoft_tenant_from_issuer :: "string \<Rightarrow> string option" where
  "microsoft_tenant_from_issuer issuer =
     Option.bind (split_once ''://'' issuer) (\<lambda>(_, rest).
     Option.bind (split_at_char CHR ''/'' rest) (\<lambda>(host, path).
       let host = (case rsplit_at_char CHR '':'' host of Some (h, _) \<Rightarrow> h | None \<Rightarrow> host) in
       if \<not> eq_ignore_ascii_case host ''login.microsoftonline.com'' then None
       else
         let tenant = trim (first_piece {CHR ''/''} path) in
         if tenant = [] then None else Some tenant))"

definition aws_account_of_arn :: "string \<Rightarrow> string option" where
  "aws_account_of_arn arn =
     (let parts = split_char CHR '':'' arn in
      if length parts \<ge> 5 \<and> parts ! 4 \<noteq> [] \<and> length parts \<ge> 3
         \<and> (parts ! 2 = ''codewhisperer'' \<or> parts ! 2 = ''bedrock'')
      then Some (parts ! 4) else None)"

definition clone_group_of :: "kiro_credentials \<Rightarrow> string option" where
  "clone_group_of c =
     (if is_api_key_credential c
      then Option.bind (map_option trim (clone_group c)) (\<lambda>g. if g \<noteq> [] then Some g else None)
      else None)"

definition family_key :: "kiro_credentials \<Rightarrow> nat \<Rightarrow> string" where
  "family_key c cid =
     (let by_idp =
            (if is_external_idp_credential c then
               (case Option.bind (issuer_url c) microsoft_tenant_from_issuer of
                  Some tenant \<Rightarrow> Some (''m365:'' @ tenant)
                | None \<Rightarrow>
                    (case Option.bind (profile_arn c) aws_account_of_arn of
                       Some account \<Rightarrow> Some (''aws:'' @ account)
                     | None \<Rightarrow> None))
             else None) in
      case by_idp of
        Some k \<Rightarrow> k
      | None \<Rightarrow>
          (case clone_group_of c of
             Some g \<Rightarrow> ''clone:'' @ g
           | None \<Rightarrow> ''cred:'' @ show_nat cid))"

subsection \<open>Reading the file, writing back a refresh\<close>

datatype credentials_config = Single kiro_credentials | Multiple "kiro_credentials list"

definition into_sorted_credentials :: "credentials_config \<Rightarrow> kiro_credentials list" where
  "into_sorted_credentials cfg =
     (case cfg of
        Single cred \<Rightarrow> [canonicalize_auth_method cred]
      | Multiple creds \<Rightarrow> map canonicalize_auth_method (sort_key priority creds))"

definition is_multiple :: "credentials_config \<Rightarrow> bool" where
  "is_multiple cfg = (case cfg of Multiple _ \<Rightarrow> True | Single _ \<Rightarrow> False)"

definition apply_refresh_result_fields :: "kiro_credentials \<Rightarrow> kiro_credentials \<Rightarrow> kiro_credentials" where
  "apply_refresh_result_fields new_creds entry_credentials =
     entry_credentials\<lparr>access_token := access_token new_creds, refresh_token := refresh_token new_creds,
       token_expires_at := token_expires_at new_creds, profile_arn := profile_arn new_creds\<rparr>"

definition skip_stale_profile_arn_writeback :: "kiro_credentials \<Rightarrow> kiro_credentials \<Rightarrow> kiro_credentials \<Rightarrow>
    bool \<times> kiro_credentials" where
  "skip_stale_profile_arn_writeback entry_credentials new_creds snapshot =
     (if profile_arn entry_credentials \<noteq> profile_arn snapshot
      then (True, new_creds\<lparr>profile_arn := profile_arn entry_credentials\<rparr>) else (False, new_creds))"

subsection \<open>Which rule renames a model\<close>

lemma cmp_simps [simp]:
  "cmp a b = Less \<longleftrightarrow> a < b" "cmp a b = Greater \<longleftrightarrow> b < a" "cmp a b = Equal \<longleftrightarrow> a = b"
  for a b :: "'a::linorder"
  by (auto simp: cmp_def)

lemma reverse_simps [simp]: "reverse r = Greater \<longleftrightarrow> r = Less" "reverse r = Equal \<longleftrightarrow> r = Equal"
  by (cases r; simp)+

lemma rule_order_Greater:
  "rule_order a b = Greater \<longleftrightarrow>
     length b < length a \<or> length a = length b \<and>
       ((CHR ''*'' \<notin> set a \<and> CHR ''*'' \<in> set b) \<or> ((CHR ''*'' \<in> set a) = (CHR ''*'' \<in> set b) \<and> a < b))"
  by (auto simp: rule_order_def then_with_def)

text \<open>The order of the rules is a strict linear order on their patterns.\<close>

lemma lex3_trans:
  fixes la lb lc :: nat and a b c :: "'a::linorder" and pa pb pc :: bool
  assumes "lb < la \<or> la = lb \<and> (\<not> pa \<and> pb \<or> pa = pb \<and> a < b)"
    and "lc < lb \<or> lb = lc \<and> (\<not> pb \<and> pc \<or> pb = pc \<and> b < c)"
  shows "lc < la \<or> la = lc \<and> (\<not> pa \<and> pc \<or> pa = pc \<and> a < c)"
  using assms less_trans [of a b c] by (cases pa; cases pb; cases pc) auto

lemma rule_order_trans:
  "rule_order a b = Greater \<Longrightarrow> rule_order b c = Greater \<Longrightarrow> rule_order a c = Greater"
  unfolding rule_order_Greater by (rule lex3_trans)

lemma rule_order_total: "a \<noteq> b \<Longrightarrow> rule_order a b = Greater \<or> rule_order b a = Greater"
  unfolding rule_order_Greater by (metis linorder_neqE)

lemma rule_order_irrefl [simp]: "rule_order a a \<noteq> Greater"
  by (simp add: rule_order_Greater)

lemma rule_order_asym: "rule_order a b = Greater \<Longrightarrow> rule_order b a \<noteq> Greater"
  using rule_order_trans rule_order_irrefl by blast

abbreviation best_rule :: "(string \<times> string) set \<Rightarrow> string \<times> string \<Rightarrow> bool" where
  "best_rule R r \<equiv> r \<in> R \<and> (\<forall>r'\<in>R. r' \<noteq> r \<longrightarrow> rule_order (fst r) (fst r') = Greater)"

lemma best_rule_foldl:
  assumes "inj_on fst (set (x # xs))"
  shows "best_rule (set (x # xs))
    (foldl (\<lambda>a b. if (case a of (ka, _) \<Rightarrow> \<lambda>(kb, _). rule_order ka kb) b = Greater then a else b) x xs)"
  using assms
proof (induction xs arbitrary: x)
  case Nil
  then show ?case by simp
next
  case (Cons b xs)
  let ?x = "if rule_order (fst x) (fst b) = Greater then x else b"
  let ?m = "foldl (\<lambda>a b. if (case a of (ka, _) \<Rightarrow> \<lambda>(kb, _). rule_order ka kb) b = Greater then a else b) ?x xs"
  have inj: "inj_on fst (set (?x # xs))"
    using Cons.prems by (auto intro: inj_on_subset)
  have IH: "best_rule (set (?x # xs)) ?m" by (rule Cons.IH [OF inj])
  have xb: "x = b \<or> rule_order (fst x) (fst b) = Greater \<or> rule_order (fst b) (fst x) = Greater"
    using Cons.prems rule_order_total [of "fst x" "fst b"] by (auto simp: inj_on_def)
  have "rule_order (fst ?m) (fst r') = Greater" if "r' \<in> {x, b}" "r' \<noteq> ?m" for r'
    using that xb IH rule_order_trans [of "fst ?m" "fst ?x" "fst r'"]
    by (auto split: if_splits)
  then have "best_rule (set (x # b # xs)) ?m" using IH by (auto split: if_splits)
  then show ?case by (simp add: case_prod_beta)
qed

lemma best_rule_unique:
  assumes "best_rule R r" and "best_rule R s"
  shows "r = s"
proof (rule ccontr)
  assume "r \<noteq> s"
  then have "rule_order (fst r) (fst s) = Greater" "rule_order (fst s) (fst r) = Greater"
    using assms by auto
  then show False using rule_order_asym by blast
qed

text \<open>
  Whatever the order in which the map yields its rules, a model is renamed to the target of the
  one rule that applies and beats every other rule that applies: the longest pattern, on equal
  length an exact one before a wildcard, then the smaller one; unless that target is the model
  itself.\<close>
theorem map_target_iff:
  assumes "distinct (map fst rules)"
  shows "map_target model rules = Some t \<longleftrightarrow>
    (\<exists>k. (k, t) \<in> set rules \<and> rule_applies model (k, t) \<and> \<not> eq_ignore_ascii_case t model \<and>
       (\<forall>(k', t') \<in> set rules. rule_applies model (k', t') \<and> k' \<noteq> k \<longrightarrow>
          length k' < length k \<or> length k = length k' \<and>
            ((CHR ''*'' \<notin> set k \<and> CHR ''*'' \<in> set k') \<or>
             ((CHR ''*'' \<in> set k) = (CHR ''*'' \<in> set k') \<and> k < k'))))"
proof -
  let ?xs = "filter (rule_applies model) rules"
  have inj: "inj_on fst (set ?xs)"
    using assms by (auto simp: distinct_map intro: inj_on_subset)
  have best: "map_target model rules = Some t \<longleftrightarrow>
      (\<exists>k. best_rule (set ?xs) (k, t)) \<and> \<not> eq_ignore_ascii_case t model"
  proof (cases ?xs)
    case Nil
    then show ?thesis by (simp add: map_target_def)
  next
    case (Cons x xs)
    define m where "m = foldl (\<lambda>a b. if (case a of (ka, _) \<Rightarrow> \<lambda>(kb, _). rule_order ka kb) b = Greater then a else b) x xs"
    have m: "best_rule (set ?xs) m"
      using best_rule_foldl [of x xs] inj unfolding m_def Cons by blast
    have "map_target model rules =
        (if eq_ignore_ascii_case (snd m) model then None else Some (snd m))"
      using Cons by (cases m) (auto simp: map_target_def m_def)
    moreover have "(\<exists>k. best_rule (set ?xs) (k, t)) \<longleftrightarrow> snd m = t"
    proof
      assume "\<exists>k. best_rule (set ?xs) (k, t)"
      then obtain k where "best_rule (set ?xs) (k, t)" by blast
      then have "(k, t) = m" using m by (rule best_rule_unique)
      then show "snd m = t" by auto
    next
      assume "snd m = t"
      then have "m = (fst m, t)" by (cases m) simp
      then show "\<exists>k. best_rule (set ?xs) (k, t)" using m by metis
    qed
    ultimately show ?thesis by auto
  qed
  define beaten where "beaten k = (\<forall>(k', t') \<in> set rules. rule_applies model (k', t') \<and> k' \<noteq> k \<longrightarrow>
      rule_order k k' = Greater)" for k
  have fst_eq: "r' = (k, t)" if "r' \<in> set ?xs" "fst r' = k" "(k, t) \<in> set ?xs" for r' k
    using inj_onD [OF inj, of r' "(k, t)"] that by simp
  have "best_rule (set ?xs) (k, t) \<longleftrightarrow> (k, t) \<in> set ?xs \<and> beaten k" for k
  proof (intro iffI; elim conjE)
    assume "(k, t) \<in> set ?xs" and "\<forall>r'\<in>set ?xs. r' \<noteq> (k, t) \<longrightarrow> rule_order (fst (k, t)) (fst r') = Greater"
    then show "(k, t) \<in> set ?xs \<and> beaten k" by (auto simp: beaten_def)
  next
    assume k: "(k, t) \<in> set ?xs" and "beaten k"
    have "rule_order k (fst r') = Greater" if "r' \<in> set ?xs" "r' \<noteq> (k, t)" for r'
    proof -
      have "fst r' \<noteq> k" using fst_eq [OF that(1) _ k] that(2) by blast
      then show ?thesis using \<open>beaten k\<close> that(1) by (auto simp: beaten_def)
    qed
    then show "best_rule (set ?xs) (k, t)" using k by simp
  qed
  then have "map_target model rules = Some t \<longleftrightarrow>
      (\<exists>k. (k, t) \<in> set rules \<and> rule_applies model (k, t) \<and> \<not> eq_ignore_ascii_case t model \<and> beaten k)"
    unfolding best set_filter by blast
  then show ?thesis unfolding beaten_def rule_order_Greater .
qed

text \<open>
  A longer pattern wins, a tie is decided for the exact name, and a rule without a target is
  passed over.\<close>
theorem map_target_iff_witness:
  "map_target ''x1'' [(''x*'', ''b''), (''X1'', ''a''), (''x1*'', '' '')] = Some ''a''"
proof (rule iffD2 [OF map_target_iff])
  show "distinct (map fst [(''x*'', ''b''), (''X1'', ''a''), (''x1*'', '' '')])" by simp
  show "\<exists>k. (k, ''a'') \<in> set [(''x*'', ''b''), (''X1'', ''a''), (''x1*'', '' '')] \<and>
      rule_applies ''x1'' (k, ''a'') \<and> \<not> eq_ignore_ascii_case ''a'' ''x1'' \<and>
      (\<forall>(k', t') \<in> set [(''x*'', ''b''), (''X1'', ''a''), (''x1*'', '' '')].
         rule_applies ''x1'' (k', t') \<and> k' \<noteq> k \<longrightarrow>
           length k' < length k \<or> length k = length k' \<and>
             ((CHR ''*'' \<notin> set k \<and> CHR ''*'' \<in> set k') \<or>
              ((CHR ''*'' \<in> set k) = (CHR ''*'' \<in> set k') \<and> k < k')))"
    by (rule exI [where x = "''X1''"]) code_simp
qed

subsection \<open>Who shares a family\<close>

lemma eq_ignore_case_canonical:
  "eq_ignore_ascii_case m a \<Longrightarrow> eq_ignore_ascii_case m b \<longleftrightarrow> eq_ignore_ascii_case a b"
  by (simp add: eq_ignore_ascii_case_def)

lemma family_key_cases:
  obtains (microsoft) url tenant where "is_external_idp_credential c" "issuer_url c = Some url"
      "microsoft_tenant_from_issuer url = Some tenant" "family_key c i = ''m365:'' @ tenant"
  | (aws) arn account where "is_external_idp_credential c" "profile_arn c = Some arn"
      "aws_account_of_arn arn = Some account" "family_key c i = ''aws:'' @ account"
  | (clone) g where "clone_group_of c = Some g" "family_key c i = ''clone:'' @ g"
  | (single) "family_key c i = ''cred:'' @ show_nat i"
proof (cases "is_external_idp_credential c")
  case True
  show ?thesis
  proof (cases "Option.bind (issuer_url c) microsoft_tenant_from_issuer")
    case (Some t)
    then show ?thesis using True microsoft by (auto simp: family_key_def bind_eq_Some_conv)
  next
    case None
    then show ?thesis using True aws clone single
      by (cases "Option.bind (profile_arn c) aws_account_of_arn"; cases "clone_group_of c")
         (auto simp: family_key_def bind_eq_Some_conv)
  qed
next
  case False
  then show ?thesis using clone single by (cases "clone_group_of c") (auto simp: family_key_def)
qed

text \<open>
  An issuer that is taken for one of a Microsoft tenant: the authority, which is what stands between
  the first \<open>://\<close> and the next slash, is Microsoft's login host in any case of letters, alone or up
  to its last colon, and the first segment of the path is the tenant. Nothing is asked of what follows
  the colon, so it need not be a port.
\<close>

definition taken_for_microsoft :: "string \<Rightarrow> string \<Rightarrow> bool" where
  "taken_for_microsoft url tenant \<longleftrightarrow>
     (\<exists>scheme authority path. url = scheme @ ''://'' @ authority @ ''/'' @ path \<and>
        find_sub ''://'' url = Some (length scheme) \<and> CHR ''/'' \<notin> set authority \<and>
        ((CHR '':'' \<notin> set authority \<and> eq_ignore_ascii_case authority ''login.microsoftonline.com'') \<or>
         (\<exists>host rest. authority = host @ CHR '':'' # rest \<and> CHR '':'' \<notin> set rest \<and>
            eq_ignore_ascii_case host ''login.microsoftonline.com'')) \<and>
        tenant = trim (takeWhile (\<lambda>ch. ch \<noteq> CHR ''/'') path) \<and> tenant \<noteq> [])"

lemma rsplit_at_char_SomeD: "rsplit_at_char ch s = Some (a, b) \<Longrightarrow> s = a @ ch # b \<and> ch \<notin> set b"
  unfolding rsplit_at_char_def
  by (auto dest!: split_at_char_SomeD simp: rev_swap)

lemma microsoft_tenantD:
  assumes "microsoft_tenant_from_issuer url = Some tenant"
  shows "taken_for_microsoft url tenant"
proof -
  obtain scheme rest where 1: "split_once ''://'' url = Some (scheme, rest)"
    using assms by (auto simp: microsoft_tenant_from_issuer_def bind_eq_Some_conv)
  obtain auth path where 2: "split_at_char CHR ''/'' rest = Some (auth, path)"
    using assms 1 by (auto simp: microsoft_tenant_from_issuer_def bind_eq_Some_conv)
  let ?host = "case rsplit_at_char CHR '':'' auth of Some (h, _) \<Rightarrow> h | None \<Rightarrow> auth"
  have host: "eq_ignore_ascii_case ?host ''login.microsoftonline.com''"
    and t: "tenant = trim (first_piece {CHR ''/''} path)" "tenant \<noteq> []"
    using assms 1 2 by (auto simp: microsoft_tenant_from_issuer_def Let_def split: if_splits)
  have 3: "(CHR '':'' \<notin> set auth \<and> eq_ignore_ascii_case auth ''login.microsoftonline.com'') \<or>
      (\<exists>host rest. auth = host @ CHR '':'' # rest \<and> CHR '':'' \<notin> set rest \<and>
         eq_ignore_ascii_case host ''login.microsoftonline.com'')"
  proof (cases "rsplit_at_char CHR '':'' auth")
    case None
    then show ?thesis using host rsplit_at_char_None [of "CHR '':''" auth] by simp
  next
    case (Some hp)
    then obtain h p where "rsplit_at_char CHR '':'' auth = Some (h, p)" by (cases hp) auto
    then show ?thesis using host rsplit_at_char_SomeD by fastforce
  qed
  obtain n where n: "find_sub ''://'' url = Some n" "scheme = take n url" "rest = drop (n + length ''://'') url"
    using 1 by (auto simp: split_once_def)
  obtain r where "url = take n url @ ''://'' @ r" "n + length ''://'' \<le> length url"
    using find_sub_SomeD [OF n(1)] by blast
  then have url: "url = scheme @ ''://'' @ rest" "length scheme = n"
    using n(2, 3) by (metis append_take_drop_id append_assoc append_eq_append_conv_if drop_drop add.commute append_eq_conv_conj, simp)
  have rest: "rest = auth @ CHR ''/'' # path" "CHR ''/'' \<notin> set auth"
    using split_at_char_SomeD [OF 2] by auto
  show ?thesis
    unfolding taken_for_microsoft_def
    using url rest t 3 n(1)
    by (intro exI [of _ scheme] exI [of _ auth] exI [of _ path]) (simp add: first_piece_def)
qed

text \<open>
  C39. Two credentials are held to be one upstream account only for a reason: both sign in through an
  external identity provider and have issuers taken for the same Microsoft tenant, whose authority is
  Microsoft's login host, alone or followed by a colon and any text without another colon; or they
  carry profiles of the same AWS account; or both are API keys of the same clone group. Every other
  credential is a family of its own. (The text after the colon need not be a port: \<open>userinfo_joins_family\<close>.)\<close>
theorem family_shared:
  assumes "family_key c i = family_key d j"
  shows "i = j
    \<or> is_external_idp_credential c \<and> is_external_idp_credential d \<and>
        (\<exists>t u v. issuer_url c = Some u \<and> taken_for_microsoft u t \<and> issuer_url d = Some v \<and> taken_for_microsoft v t)
    \<or> is_external_idp_credential c \<and> is_external_idp_credential d \<and>
        (\<exists>t u v. profile_arn c = Some u \<and> aws_account_of_arn u = Some t \<and>
               profile_arn d = Some v \<and> aws_account_of_arn v = Some t)
    \<or> is_api_key_credential c \<and> is_api_key_credential d \<and>
        (\<exists>u v. clone_group c = Some u \<and> clone_group d = Some v \<and> trim u = trim v \<and> trim u \<noteq> [])"
proof -
  have group: "is_api_key_credential x \<and> (\<exists>u. clone_group x = Some u \<and> trim u = g) \<and> g \<noteq> []"
    if "clone_group_of x = Some g" for x g
    using that by (auto simp: clone_group_of_def bind_eq_Some_conv split: if_splits)
  show ?thesis
  proof (cases rule: family_key_cases [of c i])
    case (microsoft u t)
    then obtain v where "is_external_idp_credential d" "issuer_url d = Some v"
        "microsoft_tenant_from_issuer v = Some t"
      using assms by (cases rule: family_key_cases [of d j]) auto
    then show ?thesis using microsoft microsoft_tenantD by blast
  next
    case (aws u t)
    then have "\<exists>v. is_external_idp_credential d \<and> profile_arn d = Some v \<and> aws_account_of_arn v = Some t"
      using assms by (cases rule: family_key_cases [of d j]) auto
    then show ?thesis using aws by blast
  next
    case (clone g)
    then have "clone_group_of d = Some g"
      using assms by (cases rule: family_key_cases [of d j]) auto
    with clone group [of c g] group [of d g] show ?thesis by auto
  next
    case single
    then have "i = j" using assms by (cases rule: family_key_cases [of d j]) auto
    then show ?thesis ..
  qed
qed

text \<open>Two clones whose groups differ in white space only.\<close>
theorem family_shared_witness:
  "let c = credentials_default\<lparr>kiro_api_key := Some ''k'', clone_group := Some '' g''\<rparr>;
       d = credentials_default\<lparr>kiro_api_key := Some ''k'', clone_group := Some ''g''\<rparr> in
   family_key c 1 = family_key d 2 \<and> (\<exists>u v. clone_group c = Some u \<and> clone_group d = Some v \<and> trim u = trim v)"
proof -
  let ?c = "credentials_default\<lparr>kiro_api_key := Some ''k'', clone_group := Some '' g''\<rparr>"
  let ?d = "credentials_default\<lparr>kiro_api_key := Some ''k'', clone_group := Some ''g''\<rparr>"
  have f: "family_key ?c 1 = family_key ?d 2" by code_simp
  have n: "\<not> is_external_idp_credential ?c" by (simp add: is_external_idp_credential_def credentials_default_def)
  from family_shared [OF f] n f show ?thesis by (auto simp: Let_def)
qed


text \<open>The host of a URL with a scheme and a path: in the authority, what follows the user information
  and comes before the port.\<close>

definition host_of_url :: "string \<Rightarrow> string" where
  "host_of_url url =
     (let authority = first_piece {CHR ''/''} (case split_once ''://'' url of Some (_, r) \<Rightarrow> r | None \<Rightarrow> []) in
      first_piece {CHR '':''} (last_piece CHR ''@'' authority))"

text \<open>
  A colon after the name of Microsoft's host may as well end a user name: an issuer on another host
  with user information of that form puts its credential into the family of a Microsoft tenant.\<close>
lemma userinfo_joins_family:
  "\<exists>url. host_of_url url = ''evil.example'' \<and>
     family_key (credentials_default\<lparr>auth_method := Some ''external_idp'', issuer_url := Some url\<rparr>) 1 =
     family_key (credentials_default\<lparr>auth_method := Some ''external_idp'',
       issuer_url := Some ''https://login.microsoftonline.com/tenant''\<rparr>) 2"
proof -
  let ?url = "''https://login.microsoftonline.com:x@evil.example/tenant''"
  have "host_of_url ?url = ''evil.example''" by code_simp
  moreover have "family_key (credentials_default\<lparr>auth_method := Some ''external_idp'', issuer_url := Some ?url\<rparr>) 1 =
     family_key (credentials_default\<lparr>auth_method := Some ''external_idp'',
       issuer_url := Some ''https://login.microsoftonline.com/tenant''\<rparr>) 2" by code_simp
  ultimately show ?thesis by blast
qed

end
