(* ===== verification/Health.thy ===== *)
theory Health
  imports Prelude Complex_Main
begin

text \<open>
  The health of credential families: \<open>HealthTracker\<close> of \<open>src/src/kiro/health.rs\<close>, a circuit breaker
  per family (closed, open until an instant, half open with an admission probability) beside two
  moving averages that decay with time, and the weight \<open>p_avail\<close> the selection reads.

  Numbers of type \<open>f64\<close> are real numbers; every operation on them and every literal is rounded by
  \<open>rnd\<close>, of which the proofs use what \<open>rounding\<close> states: it is monotone and keeps 0, 1/2 and 1. The
  decay factor \<open>0.5_f64.powf(x)\<close> and the growth of the backoff, \<open>(8.0 * 1.6_f64.powi(n)) as u64\<close>, are
  parameters too, since Rust leaves their precision open. Counters of type \<open>u32\<close> wrap, as in a release
  build. A state map is locked during each call, so a call is one step at the instant it reads.
\<close>

record float_arith =
  rnd :: "real \<Rightarrow> real"
  half_pow :: "real \<Rightarrow> real"
  open_growth :: "nat \<Rightarrow> nat"

definition fadd :: "float_arith \<Rightarrow> real \<Rightarrow> real \<Rightarrow> real" where "fadd F a b = rnd F (a + b)"
definition fsub :: "float_arith \<Rightarrow> real \<Rightarrow> real \<Rightarrow> real" where "fsub F a b = rnd F (a - b)"
definition fmul :: "float_arith \<Rightarrow> real \<Rightarrow> real \<Rightarrow> real" where "fmul F a b = rnd F (a * b)"
definition fdiv :: "float_arith \<Rightarrow> real \<Rightarrow> real \<Rightarrow> real" where "fdiv F a b = rnd F (a / b)"

definition A_SUCCESS :: "float_arith \<Rightarrow> real" where "A_SUCCESS F = rnd F 0.3"
definition A_429 :: "float_arith \<Rightarrow> real" where "A_429 F = rnd F 0.5"
definition HEALTH_429_WEIGHT :: "float_arith \<Rightarrow> real" where "HEALTH_429_WEIGHT F = rnd F 0.6"
definition LOAD_PENALTY :: "float_arith \<Rightarrow> real" where "LOAD_PENALTY F = rnd F 0.5"
definition LOAD_REF :: real where "LOAD_REF = 8"
definition LOAD_REF_MEAN_FACTOR :: real where "LOAD_REF_MEAN_FACTOR = 2"
definition HALFOPEN_START :: "float_arith \<Rightarrow> real" where "HALFOPEN_START F = rnd F 0.1"
definition RECOVERY_STEP :: "float_arith \<Rightarrow> real" where "RECOVERY_STEP F = rnd F 0.2"
definition RECOVERY_FULL :: nat where "RECOVERY_FULL = 5"
definition TRIP_THRESHOLD :: nat where "TRIP_THRESHOLD = 3"
definition MAX_OPEN_SECS :: nat where "MAX_OPEN_SECS = 1800"
definition MIN_ADMIT_SEED :: "float_arith \<Rightarrow> real" where "MIN_ADMIT_SEED F = rnd F 0.02"
definition IDLE_EVICT_SECS :: nat where "IDLE_EVICT_SECS = 900"
definition LAST_TOUCH_REFRESH_SECS :: nat where "LAST_TOUCH_REFRESH_SECS = 10"
definition PENALTY_DECAY_HALFLIFE_SECS :: real where "PENALTY_DECAY_HALFLIFE_SECS = 60"

definition adaptive_load_ref :: "float_arith \<Rightarrow> nat \<Rightarrow> nat \<Rightarrow> real" where
  "adaptive_load_ref F total_inflight cred_count =
     (if cred_count = 0 then LOAD_REF
      else max (fmul F (fdiv F (rnd F (real total_inflight)) (rnd F (real cred_count))) LOAD_REF_MEAN_FACTOR)
             LOAD_REF)"

subsection \<open>The state of a family\<close>

datatype circuit = Closed | Open instant | HalfOpen real

record health_state =
  ewma_success :: real
  ewma_429 :: real
  circuit :: circuit
  h_consecutive_429 :: nat
  last_success :: "instant option"
  last_429 :: "instant option"
  open_start :: "instant option"
  admit_prob_seed :: real
  recovery_samples :: nat
  open_count :: nat
  last_touch :: instant
  last_decay_at :: instant
  decay_carry :: real

definition health_default :: "float_arith \<Rightarrow> instant \<Rightarrow> health_state" where
  "health_default F now =
     \<lparr>ewma_success = 1, ewma_429 = 0, circuit = Closed, h_consecutive_429 = 0, last_success = None,
      last_429 = None, open_start = None, admit_prob_seed = HALFOPEN_START F, recovery_samples = 0,
      open_count = 0, last_touch = now, last_decay_at = now, decay_carry = 0\<rparr>"

definition health_tier :: "float_arith \<Rightarrow> real \<Rightarrow> nat" where
  "health_tier F p = (if p \<ge> rnd F 0.75 then 0 else if p \<ge> rnd F 0.40 then 1 else 2)"

definition open_backoff :: "float_arith \<Rightarrow> nat \<Rightarrow> duration" where
  "open_backoff F n = secs (min (open_growth F (n - 1)) MAX_OPEN_SECS)"

definition tick_circuit :: "instant \<Rightarrow> health_state \<Rightarrow> health_state" where
  "tick_circuit now s =
     (case circuit s of
        Open until \<Rightarrow>
          if now \<ge> until then s\<lparr>circuit := HalfOpen (admit_prob_seed s), recovery_samples := 0\<rparr> else s
      | _ \<Rightarrow> s)"

text \<open>The loop over \<open>decay_carry\<close>, with the number of rounds that are left of 64.\<close>

fun decay_steps :: "float_arith \<Rightarrow> nat \<Rightarrow> real \<Rightarrow> nat \<times> real" where
  "decay_steps F 0 carry = (0, carry)"
| "decay_steps F (Suc left) carry =
     (if carry \<ge> 1 then (let (n, c) = decay_steps F left (fsub F carry 1) in (Suc n, c)) else (0, carry))"

definition as_secs_f64 :: "float_arith \<Rightarrow> duration \<Rightarrow> real" where
  "as_secs_f64 F d =
     fadd F (rnd F (real (d div 1000000000))) (fdiv F (real (d mod 1000000000)) 1000000000)"

definition decay_penalties :: "float_arith \<Rightarrow> instant \<Rightarrow> health_state \<Rightarrow> health_state" where
  "decay_penalties F now s =
     (let dt = as_secs_f64 F (now - last_decay_at s) in
      if dt \<le> 0 then s
      else
        let factor = half_pow F (fdiv F dt PENALTY_DECAY_HALFLIFE_SECS);
            s1 = s\<lparr>last_decay_at := now, ewma_429 := fmul F (ewma_429 s) factor,
                   ewma_success := fsub F 1 (fmul F (fsub F 1 (ewma_success s)) factor)\<rparr>;
            (steps, carry) = decay_steps F 64
              (fadd F (decay_carry s) (fdiv F dt PENALTY_DECAY_HALFLIFE_SECS));
            s2 = s1\<lparr>decay_carry := carry\<rparr> in
        if steps > 0 then
          s2\<lparr>h_consecutive_429 := h_consecutive_429 s2 - steps, open_count := open_count s2 - steps,
             admit_prob_seed :=
               (if admit_prob_seed s2 < HALFOPEN_START F
                then min (fmul F (admit_prob_seed s2) (2 ^ min steps 16)) (HALFOPEN_START F)
                else admit_prob_seed s2)\<rparr>
        else s2)"


subsection \<open>Results that are reported\<close>

definition success_state :: "float_arith \<Rightarrow> instant \<Rightarrow> health_state \<Rightarrow> health_state" where
  "success_state F now s0 =
     (let s = decay_penalties F now (tick_circuit now s0);
          s1 = s\<lparr>ewma_success := fadd F (A_SUCCESS F) (fmul F (fsub F 1 (A_SUCCESS F)) (ewma_success s)),
                 ewma_429 := fmul F (fsub F 1 (A_429 F)) (ewma_429 s), h_consecutive_429 := 0,
                 last_success := Some now, last_touch := now\<rparr> in
      case circuit s1 of
        HalfOpen admit_prob \<Rightarrow>
          let s2 = s1\<lparr>recovery_samples := inc32 (recovery_samples s1)\<rparr> in
          if recovery_samples s2 \<ge> RECOVERY_FULL
          then s2\<lparr>circuit := Closed, open_count := 0, admit_prob_seed := HALFOPEN_START F\<rparr>
          else s2\<lparr>circuit := HalfOpen (min (fadd F admit_prob (RECOVERY_STEP F)) 1)\<rparr>
      | _ \<Rightarrow> s1)"

definition trip :: "float_arith \<Rightarrow> instant \<Rightarrow> real \<Rightarrow> health_state \<Rightarrow> health_state" where
  "trip F now seed s =
     (let s1 = s\<lparr>open_count := inc32 (open_count s), admit_prob_seed := seed\<rparr> in
      s1\<lparr>circuit := Open (now + open_backoff F (open_count s1)), open_start := Some now\<rparr>)"

definition rate_limited_state :: "float_arith \<Rightarrow> instant \<Rightarrow> health_state \<Rightarrow> health_state" where
  "rate_limited_state F now s0 =
     (let s = decay_penalties F now (tick_circuit now s0);
          s1 = s\<lparr>ewma_success := fmul F (fsub F 1 (A_SUCCESS F)) (ewma_success s),
                 ewma_429 := fadd F (A_429 F) (fmul F (fsub F 1 (A_429 F)) (ewma_429 s)),
                 h_consecutive_429 := inc32 (h_consecutive_429 s), last_429 := Some now,
                 last_touch := now\<rparr> in
      case circuit s1 of
        HalfOpen _ \<Rightarrow> trip F now (max (fmul F (admit_prob_seed s1) (rnd F 0.5)) (MIN_ADMIT_SEED F)) s1
      | Closed \<Rightarrow>
          if h_consecutive_429 s1 \<ge> TRIP_THRESHOLD then trip F now (HALFOPEN_START F) s1 else s1
      | Open _ \<Rightarrow> s1)"

definition suspicious_state :: "float_arith \<Rightarrow> instant \<Rightarrow> duration \<Rightarrow> health_state \<Rightarrow> health_state" where
  "suspicious_state F now backoff s0 =
     (let s = decay_penalties F now (tick_circuit now s0);
          s1 = s\<lparr>ewma_429 := fadd F (A_429 F) (fmul F (fsub F 1 (A_429 F)) (ewma_429 s)),
                 h_consecutive_429 := inc32 (h_consecutive_429 s), last_429 := Some now,
                 last_touch := now\<rparr>;
          s2 = s1\<lparr>admit_prob_seed :=
                 (case circuit s1 of
                    Closed \<Rightarrow> HALFOPEN_START F
                  | _ \<Rightarrow> max (fmul F (admit_prob_seed s1) (rnd F 0.5)) (MIN_ADMIT_SEED F)),
                 open_count := inc32 (open_count s1)\<rparr> in
      s2\<lparr>circuit := Open (now + backoff), open_start := Some now\<rparr>)"

subsection \<open>The weight the selection reads\<close>

definition p_avail_from_state :: "float_arith \<Rightarrow> instant \<Rightarrow> nat \<Rightarrow> nat \<Rightarrow> nat \<Rightarrow> real \<Rightarrow> bool \<Rightarrow>
    health_state \<Rightarrow> real \<times> health_state" where
  "p_avail_from_state F now rpm inflight rpm_limit load_ref disable_429_weight s0 =
     (let s1 = decay_penalties F now (tick_circuit now s0);
          s = (if now - last_touch s1 \<ge> secs LAST_TOUCH_REFRESH_SECS then s1\<lparr>last_touch := now\<rparr> else s1);
          gate = (case circuit s of Closed \<Rightarrow> 1 | Open _ \<Rightarrow> 0 | HalfOpen admit_prob \<Rightarrow> admit_prob);
          health = (if disable_429_weight then clamp 0 1 (ewma_success s)
                    else clamp 0 1 (fmul F (ewma_success s)
                           (fsub F 1 (fmul F (HEALTH_429_WEIGHT F) (ewma_429 s)))));
          rpm_pressure = (if rpm_limit > 0 then clamp 0 1 (fdiv F (real rpm) (real rpm_limit)) else 0);
          load = clamp 0 1 (fdiv F (real inflight) (max load_ref 1)) in
      (clamp 0 1 (fmul F (fmul F (fmul F gate health) (fsub F 1 rpm_pressure))
                    (fsub F 1 (fmul F (LOAD_PENALTY F) load))), s))"

record health_tracker =
  states :: "string \<rightharpoonup> health_state"
  disable_429_weight :: bool

definition health_new :: health_tracker where
  "health_new = \<lparr>states = Map.empty, disable_429_weight = False\<rparr>"

definition set_disable_429_weight :: "bool \<Rightarrow> health_tracker \<Rightarrow> health_tracker" where
  "set_disable_429_weight b t = t\<lparr>disable_429_weight := b\<rparr>"

text \<open>\<open>map.entry(key).or_default()\<close>.\<close>

definition health_of :: "float_arith \<Rightarrow> instant \<Rightarrow> string \<Rightarrow> health_tracker \<Rightarrow> health_state" where
  "health_of F now key t = (case states t key of Some s \<Rightarrow> s | None \<Rightarrow> health_default F now)"

definition on_success :: "float_arith \<Rightarrow> instant \<Rightarrow> string \<Rightarrow> health_tracker \<Rightarrow> health_tracker" where
  "on_success F now key t =
     t\<lparr>states := (states t)(key \<mapsto> success_state F now (health_of F now key t))\<rparr>"

definition on_429 :: "float_arith \<Rightarrow> instant \<Rightarrow> string \<Rightarrow> health_tracker \<Rightarrow> health_tracker" where
  "on_429 F now key t =
     t\<lparr>states := (states t)(key \<mapsto> rate_limited_state F now (health_of F now key t))\<rparr>"

definition report_family_suspicious ::
  "float_arith \<Rightarrow> instant \<Rightarrow> string \<Rightarrow> duration \<Rightarrow> health_tracker \<Rightarrow> health_tracker" where
  "report_family_suspicious F now fam backoff t =
     t\<lparr>states := (states t)(fam \<mapsto> suspicious_state F now backoff (health_of F now fam t))\<rparr>"

definition p_avail_with_load_ref :: "float_arith \<Rightarrow> instant \<Rightarrow> string \<Rightarrow> nat \<Rightarrow> nat \<Rightarrow> nat \<Rightarrow> real \<Rightarrow>
    health_tracker \<Rightarrow> real \<times> health_tracker" where
  "p_avail_with_load_ref F now key rpm inflight rpm_limit load_ref t =
     (let (p, s) = p_avail_from_state F now rpm inflight rpm_limit load_ref (disable_429_weight t)
                     (health_of F now key t) in
      (p, t\<lparr>states := (states t)(key \<mapsto> s)\<rparr>))"

definition p_avail :: "float_arith \<Rightarrow> instant \<Rightarrow> string \<Rightarrow> nat \<Rightarrow> nat \<Rightarrow> nat \<Rightarrow> health_tracker \<Rightarrow>
    real \<times> health_tracker" where
  "p_avail F now key rpm inflight rpm_limit t =
     p_avail_with_load_ref F now key rpm inflight rpm_limit LOAD_REF t"

fun p_avail_batch :: "float_arith \<Rightarrow> instant \<Rightarrow> (nat \<times> string \<times> nat \<times> nat \<times> nat) list \<Rightarrow> real \<Rightarrow>
    health_tracker \<Rightarrow> (nat \<rightharpoonup> real) \<Rightarrow> (nat \<rightharpoonup> real) \<times> health_tracker" where
  "p_avail_batch F now [] load_ref t out = (out, t)"
| "p_avail_batch F now ((i, key, rpm, inflight, rpm_limit) # items) load_ref t out =
     (let (p, t') = p_avail_with_load_ref F now key rpm inflight rpm_limit load_ref t in
      p_avail_batch F now items load_ref t' (out(i \<mapsto> p)))"

record health_snapshot =
  snap_circuit_open :: bool
  snap_half_open :: bool
  snap_admit_prob :: real
  snap_health :: real
  snap_ewma_success :: real
  snap_ewma_429 :: real
  snap_consecutive_429 :: nat
  snap_open_remaining_secs :: nat

definition health_snapshot :: "float_arith \<Rightarrow> instant \<Rightarrow> string \<Rightarrow> health_tracker \<Rightarrow>
    health_snapshot option \<times> health_tracker" where
  "health_snapshot F now key t =
     (case states t key of
        None \<Rightarrow> (None, t)
      | Some s0 \<Rightarrow>
          let s = tick_circuit now s0;
              (is_open, half_open, admit, remaining) =
                (case circuit s of
                   Closed \<Rightarrow> (False, False, 1, 0)
                 | Open until \<Rightarrow> (True, False, 0, as_secs (until - now))
                 | HalfOpen admit_prob \<Rightarrow> (False, True, admit_prob, 0)) in
          (Some \<lparr>snap_circuit_open = is_open, snap_half_open = half_open, snap_admit_prob = admit,
             snap_health = clamp 0 1 (fmul F (ewma_success s)
               (fsub F 1 (fmul F (HEALTH_429_WEIGHT F) (ewma_429 s)))),
             snap_ewma_success = ewma_success s, snap_ewma_429 = ewma_429 s,
             snap_consecutive_429 = h_consecutive_429 s, snap_open_remaining_secs = remaining\<rparr>,
           t\<lparr>states := (states t)(key \<mapsto> s)\<rparr>))"

definition health_cleanup :: "instant \<Rightarrow> health_tracker \<Rightarrow> health_tracker" where
  "health_cleanup now t =
     t\<lparr>states := retain (\<lambda>_ s. now - last_touch s < secs IDLE_EVICT_SECS) (states t)\<rparr>"

definition health_clear :: "string \<Rightarrow> health_tracker \<Rightarrow> bool \<times> health_tracker" where
  "health_clear key t = (states t key \<noteq> None, t\<lparr>states := (states t)(key := None)\<rparr>)"


subsection \<open>Arithmetic that the proofs rely on\<close>

definition rounding :: "float_arith \<Rightarrow> bool" where
  "rounding F \<longleftrightarrow> mono (rnd F) \<and> (\<forall>x. rnd F (rnd F x) = rnd F x) \<and> rnd F 0 = 0 \<and> rnd F 1 = 1"

text \<open>Exact arithmetic, a growth table and a halving that is rounded to whole half-lives.\<close>

definition exact_arith :: float_arith where
  "exact_arith = \<lparr>rnd = (\<lambda>x. x), half_pow = (\<lambda>x. (1 / 2) ^ nat \<lfloor>x\<rfloor>),
     open_growth = (\<lambda>n. [8, 12, 20, 32, 52, 83, 134, 214, 343, 549, 879, 1407] ! min n 11)\<rparr>"

lemma rounding_exact: "rounding exact_arith"
  by (simp add: rounding_def exact_arith_def mono_def)

lemma rnd_mono: "rounding F \<Longrightarrow> x \<le> y \<Longrightarrow> rnd F x \<le> rnd F y"
  by (simp add: rounding_def monoD)

lemma rnd_idem: "rounding F \<Longrightarrow> rnd F (rnd F x) = rnd F x"
  by (simp add: rounding_def)

lemma rnd_ge: "rounding F \<Longrightarrow> rnd F a \<le> x \<Longrightarrow> rnd F a \<le> rnd F x"
  using rnd_mono [of F "rnd F a" x] by (simp add: rnd_idem)

lemma rnd_le: "rounding F \<Longrightarrow> x \<le> rnd F a \<Longrightarrow> rnd F x \<le> rnd F a"
  using rnd_mono [of F x "rnd F a"] by (simp add: rnd_idem)

lemma seed_order:
  assumes "rounding F"
  shows "0 \<le> MIN_ADMIT_SEED F" "MIN_ADMIT_SEED F \<le> HALFOPEN_START F" "HALFOPEN_START F \<le> 1"
    "0 \<le> RECOVERY_STEP F" "0 \<le> rnd F 0.5" "rnd F 0.5 \<le> 1"
  using rnd_mono [OF assms, of 0 "0.02"] rnd_mono [OF assms, of "0.02" "0.1"] rnd_mono [OF assms, of "0.1" 1]
    rnd_mono [OF assms, of 0 "0.2"] rnd_mono [OF assms, of 0 "0.5"] rnd_mono [OF assms, of "0.5" 1] assms
  by (simp_all add: MIN_ADMIT_SEED_def HALFOPEN_START_def RECOVERY_STEP_def rounding_def)

subsection \<open>What decay and the tick leave alone\<close>

lemma decay_penalties_keeps [simp]:
  "circuit (decay_penalties F now s) = circuit s"
  "recovery_samples (decay_penalties F now s) = recovery_samples s"
  "open_start (decay_penalties F now s) = open_start s"
  "last_touch (decay_penalties F now s) = last_touch s"
  by (auto simp: decay_penalties_def Let_def split: prod.splits)

lemma tick_circuit_Open:
  "circuit (tick_circuit now s) = Open u \<longleftrightarrow> circuit s = Open u \<and> now < u"
  by (auto simp: tick_circuit_def split: circuit.splits)

lemma tick_circuit_Closed [simp]: "circuit (tick_circuit now s) = Closed \<longleftrightarrow> circuit s = Closed"
  by (auto simp: tick_circuit_def split: circuit.splits)

text \<open>
  Half open, a family is let through with a probability that is at least \<open>MIN_ADMIT_SEED\<close>; it
  has not yet had the successes that close the circuit.
\<close>

definition health_inv :: "float_arith \<Rightarrow> health_state \<Rightarrow> bool" where
  "health_inv F s \<longleftrightarrow> MIN_ADMIT_SEED F \<le> admit_prob_seed s \<and> admit_prob_seed s \<le> HALFOPEN_START F \<and>
     (case circuit s of
        HalfOpen p \<Rightarrow> MIN_ADMIT_SEED F \<le> p \<and> p \<le> 1 \<and> recovery_samples s < RECOVERY_FULL
      | _ \<Rightarrow> True)"

lemma decay_seed:
  assumes "rounding F" and "MIN_ADMIT_SEED F \<le> admit_prob_seed s" and "admit_prob_seed s \<le> HALFOPEN_START F"
  shows "MIN_ADMIT_SEED F \<le> admit_prob_seed (decay_penalties F now s) \<and>
    admit_prob_seed (decay_penalties F now s) \<le> HALFOPEN_START F"
proof -
  have ge: "MIN_ADMIT_SEED F \<le> fmul F (admit_prob_seed s) (2 ^ n)" for n :: nat
  proof -
    have p: "0 \<le> admit_prob_seed s" using assms(2) seed_order(1) [OF assms(1)] by linarith
    have "admit_prob_seed s * 1 \<le> admit_prob_seed s * 2 ^ n" by (rule mult_left_mono [OF _ p]) simp
    then show ?thesis using assms(2) rnd_ge [OF assms(1), of "0.02"]
      by (simp add: fmul_def MIN_ADMIT_SEED_def)
  qed
  show ?thesis
    using assms(2, 3) ge seed_order(2) [OF assms(1)]
    by (auto simp: decay_penalties_def Let_def split: prod.splits)
qed

lemma health_inv_default: "rounding F \<Longrightarrow> health_inv F (health_default F now)"
  by (simp add: health_inv_def health_default_def seed_order)

lemma health_inv_tick: "rounding F \<Longrightarrow> health_inv F s \<Longrightarrow> health_inv F (tick_circuit now s)"
  using seed_order(3) [of F]
  by (auto simp: health_inv_def tick_circuit_def RECOVERY_FULL_def split: circuit.splits)

lemma health_inv_decay: "rounding F \<Longrightarrow> health_inv F s \<Longrightarrow> health_inv F (decay_penalties F now s)"
  using decay_seed [of F s now] by (auto simp: health_inv_def split: circuit.splits)

lemma health_inv_advance:
  "rounding F \<Longrightarrow> health_inv F s \<Longrightarrow> health_inv F (decay_penalties F now (tick_circuit now s))"
  by (intro health_inv_decay health_inv_tick)

lemma halved_seed:
  assumes "rounding F" and "MIN_ADMIT_SEED F \<le> x" and "x \<le> HALFOPEN_START F"
  shows "MIN_ADMIT_SEED F \<le> max (fmul F x (rnd F 0.5)) (MIN_ADMIT_SEED F)"
    and "max (fmul F x (rnd F 0.5)) (MIN_ADMIT_SEED F) \<le> HALFOPEN_START F"
proof -
  note so = seed_order [OF assms(1)]
  have "x * rnd F 0.5 \<le> x * 1" using so(1, 6) assms(2) by (intro mult_left_mono) linarith+
  then have "x * rnd F 0.5 \<le> HALFOPEN_START F" using assms(3) by linarith
  then have "fmul F x (rnd F 0.5) \<le> HALFOPEN_START F"
    using rnd_le [OF assms(1)] by (simp add: fmul_def HALFOPEN_START_def)
  then show "max (fmul F x (rnd F 0.5)) (MIN_ADMIT_SEED F) \<le> HALFOPEN_START F" using so(2) by simp
qed simp

lemma health_inv_success:
  assumes "rounding F" and "health_inv F s"
  shows "health_inv F (success_state F now s)"
proof -
  define s' where "s' = decay_penalties F now (tick_circuit now s)"
  have inv: "health_inv F s'" unfolding s'_def by (rule health_inv_advance [OF assms])
  have step: "MIN_ADMIT_SEED F \<le> fadd F p (RECOVERY_STEP F)" if "MIN_ADMIT_SEED F \<le> p" for p
    using that seed_order(4) [OF assms(1)] rnd_ge [OF assms(1), of "0.02" "p + RECOVERY_STEP F"]
    by (simp add: fadd_def MIN_ADMIT_SEED_def)
  have "MIN_ADMIT_SEED F \<le> 1" using seed_order(2, 3) [OF assms(1)] by linarith
  then show ?thesis
    using inv step seed_order(2) [OF assms(1)]
    unfolding success_state_def s'_def [symmetric]
    by (auto simp: health_inv_def Let_def split: circuit.splits)
qed


lemma health_inv_rate_limited:
  assumes "rounding F" and "health_inv F s"
  shows "health_inv F (rate_limited_state F now s)"
proof -
  define s' where "s' = decay_penalties F now (tick_circuit now s)"
  have inv: "health_inv F s'" unfolding s'_def by (rule health_inv_advance [OF assms])
  then show ?thesis
    using seed_order(2) [OF assms(1)] halved_seed [OF assms(1), of "admit_prob_seed s'"]
    unfolding rate_limited_state_def s'_def [symmetric]
    by (auto simp: health_inv_def trip_def Let_def split: circuit.splits)
qed

lemma health_inv_suspicious:
  assumes "rounding F" and "health_inv F s"
  shows "health_inv F (suspicious_state F now backoff s)"
proof -
  define s' where "s' = decay_penalties F now (tick_circuit now s)"
  have inv: "health_inv F s'" unfolding s'_def by (rule health_inv_advance [OF assms])
  then show ?thesis
    using seed_order(2) [OF assms(1)] halved_seed [OF assms(1), of "admit_prob_seed s'"]
    unfolding suspicious_state_def s'_def [symmetric]
    by (auto simp: health_inv_def Let_def split: circuit.splits)
qed

lemma p_avail_state:
  "snd (p_avail_from_state F now rpm inflight rpm_limit load_ref dis s) =
     (let s1 = decay_penalties F now (tick_circuit now s) in
      if now - last_touch s1 \<ge> secs LAST_TOUCH_REFRESH_SECS then s1\<lparr>last_touch := now\<rparr> else s1)"
  by (simp add: p_avail_from_state_def Let_def)

lemma health_inv_touch [simp]: "health_inv F (s\<lparr>last_touch := n\<rparr>) = health_inv F s"
  by (auto simp: health_inv_def split: circuit.splits)

lemma health_inv_p_avail:
  "rounding F \<Longrightarrow> health_inv F s \<Longrightarrow>
    health_inv F (snd (p_avail_from_state F now rpm inflight rpm_limit load_ref dis s))"
  using health_inv_advance [of F s now] by (simp add: p_avail_state Let_def)

lemma p_avail_bounds:
  "0 \<le> fst (p_avail_from_state F now rpm inflight rpm_limit load_ref dis s)"
  "fst (p_avail_from_state F now rpm inflight rpm_limit load_ref dis s) \<le> 1"
  by (simp_all add: p_avail_from_state_def Let_def clamp_bounds)


subsection \<open>Sequences of calls\<close>

datatype health_op =
  Succeeded string
| RateLimited string
| Suspicious string duration
| Weigh string nat nat nat real
| Inspect string
| SweepIdle
| Forget string

fun health_step :: "float_arith \<Rightarrow> health_op \<Rightarrow> instant \<Rightarrow> health_tracker \<Rightarrow> health_tracker" where
  "health_step F (Succeeded k) now t = on_success F now k t"
| "health_step F (RateLimited k) now t = on_429 F now k t"
| "health_step F (Suspicious k d) now t = report_family_suspicious F now k d t"
| "health_step F (Weigh k rpm inflight cap lref) now t = snd (p_avail_with_load_ref F now k rpm inflight cap lref t)"
| "health_step F (Inspect k) now t = snd (health_snapshot F now k t)"
| "health_step F SweepIdle now t = health_cleanup now t"
| "health_step F (Forget k) now t = snd (health_clear k t)"

fun health_run :: "float_arith \<Rightarrow> (instant \<times> health_op) list \<Rightarrow> health_tracker \<Rightarrow> health_tracker" where
  "health_run F [] t = t"
| "health_run F ((now, x) # xs) t = health_run F xs (health_step F x now t)"

definition tracker_inv :: "float_arith \<Rightarrow> health_tracker \<Rightarrow> bool" where
  "tracker_inv F t \<longleftrightarrow> (\<forall>k s. states t k = Some s \<longrightarrow> health_inv F s)"

lemma health_inv_of: "rounding F \<Longrightarrow> tracker_inv F t \<Longrightarrow> health_inv F (health_of F now k t)"
  by (auto simp: health_of_def tracker_inv_def health_inv_default split: option.splits)

lemma tracker_inv_step:
  assumes "rounding F" and "tracker_inv F t"
  shows "tracker_inv F (health_step F x now t)"
proof -
  have upd: "tracker_inv F (t\<lparr>states := (states t)(k \<mapsto> s)\<rparr>)" if "health_inv F s" for k s
    using assms(2) that by (auto simp: tracker_inv_def)
  note of_inv = health_inv_of [OF assms]
  note assms_of = assms(1) of_inv
  show ?thesis
  proof (cases x)
    case (Succeeded k)
    show ?thesis unfolding Succeeded health_step.simps on_success_def
      by (intro upd health_inv_success assms_of)
  next
    case (RateLimited k)
    show ?thesis unfolding RateLimited health_step.simps on_429_def
      by (intro upd health_inv_rate_limited assms_of)
  next
    case (Suspicious k d)
    show ?thesis unfolding Suspicious health_step.simps report_family_suspicious_def
      by (intro upd health_inv_suspicious assms_of)
  next
    case (Inspect k)
    show ?thesis
    proof (cases "states t k")
      case None
      then show ?thesis using assms(2) Inspect by (simp add: health_snapshot_def)
    next
      case (Some s)
      then have "health_inv F (tick_circuit now s)"
        using assms by (auto simp: tracker_inv_def intro: health_inv_tick)
      then show ?thesis using upd Some Inspect
        by (simp add: health_snapshot_def Let_def split_beta)
    qed
  next
    case (Weigh k rpm inflight cap lref)
    then show ?thesis
      using upd [OF health_inv_p_avail [OF assms(1) of_inv]]
      by (simp add: p_avail_with_load_ref_def split_beta)
  next
    case (Forget k)
    then show ?thesis using assms(2) by (auto simp: tracker_inv_def health_clear_def)
  next
    case SweepIdle
    then show ?thesis using assms(2) by (auto simp: tracker_inv_def health_cleanup_def)
  qed
qed

lemma tracker_inv_run: "rounding F \<Longrightarrow> tracker_inv F t \<Longrightarrow> tracker_inv F (health_run F xs t)"
  by (induction F xs t rule: health_run.induct) (simp_all add: tracker_inv_step)

lemma tracker_inv_new [simp]: "tracker_inv F health_new"
  by (simp add: tracker_inv_def health_new_def)

text \<open>
  After any sequence of calls a family whose circuit is half open is let through with a
  probability between 0.02 and 1, however often it failed before, and every weight that the
  selection reads lies between 0 and 1.\<close>
theorem never_starved:
  assumes "rounding F"
  shows "let t = health_run F xs health_new in
    (\<forall>k s. states t k = Some s \<longrightarrow> rnd F 0.02 \<le> admit_prob_seed s \<and>
       (\<forall>p. circuit s = HalfOpen p \<longrightarrow> rnd F 0.02 \<le> p \<and> p \<le> 1)) \<and>
    (\<forall>now k rpm inflight cap lref.
       fst (p_avail_with_load_ref F now k rpm inflight cap lref t) \<in> {0..1})"
proof -
  define t where "t = health_run F xs health_new"
  have "tracker_inv F t" unfolding t_def by (intro tracker_inv_run assms) simp
  then have "rnd F 0.02 \<le> admit_prob_seed s \<and> (\<forall>p. circuit s = HalfOpen p \<longrightarrow> rnd F 0.02 \<le> p \<and> p \<le> 1)"
    if "states t k = Some s" for k s
    using that by (force simp: tracker_inv_def health_inv_def MIN_ADMIT_SEED_def)
  moreover have "fst (p_avail_with_load_ref F now k rpm inflight cap lref t) \<in> {0..1}"
    for now k rpm inflight cap lref
    using p_avail_bounds by (simp add: p_avail_with_load_ref_def split_beta)
  ultimately show ?thesis unfolding t_def Let_def by blast
qed

text \<open>Two trips and a failed probe later the probability is still positive.\<close>
theorem never_starved_witness:
  "let t = health_run exact_arith [(0, Suspicious ''m'' (secs 9)), (secs 10, RateLimited ''m'')] health_new in
   0.02 \<le> admit_prob_seed (the (states t ''m'')) \<and>
   fst (p_avail_with_load_ref exact_arith (secs 12) ''m'' 3 1 60 8 t) \<in> {0..1}"
proof -
  let ?t = "health_run exact_arith [(0, Suspicious ''m'' (secs 9)), (secs 10, RateLimited ''m'')] health_new"
  have "\<exists>s. states ?t ''m'' = Some s" by (simp add: on_429_def)
  moreover have "rnd exact_arith 0.02 \<le> admit_prob_seed s" if "states ?t ''m'' = Some s" for s
    using never_starved [OF rounding_exact, of "[(0, Suspicious ''m'' (secs 9)), (secs 10, RateLimited ''m'')]"] that
    unfolding Let_def by blast
  moreover have "fst (p_avail_with_load_ref exact_arith (secs 12) ''m'' 3 1 60 8 ?t) \<in> {0..1}"
    using never_starved [OF rounding_exact, of "[(0, Suspicious ''m'' (secs 9)), (secs 10, RateLimited ''m'')]"]
    unfolding Let_def by blast
  ultimately show ?thesis unfolding Let_def by (elim exE) (simp add: exact_arith_def)
qed


subsection \<open>An open circuit\<close>












text \<open>
  The window is overwritten, not extended: a report with a shorter backoff, as a sibling's first
  suspension brings, ends the window of its whole family sooner. And the sweep of idle records,
  after 15 minutes, also removes one whose window of up to 30 minutes still runs.
\<close>

lemma suspicious_overwrites:
  "circuit (suspicious_state F now backoff s) = Open (now + backoff)"
  by (simp add: suspicious_state_def Let_def)

lemma idle_open_forgotten:
  "states t k = Some s \<Longrightarrow> circuit s = Open u \<Longrightarrow> last_touch s + secs IDLE_EVICT_SECS \<le> now \<Longrightarrow>
    now < u \<Longrightarrow> circuit (health_of F now k (health_cleanup now t)) = Closed"
  by (simp add: health_cleanup_def health_of_def retain_def health_default_def)


subsection \<open>Recovery\<close>

text \<open>How many successes are left until the circuit of a family closes.\<close>

definition successes_left :: "health_state \<Rightarrow> nat" where
  "successes_left s =
     (case circuit s of Closed \<Rightarrow> 0 | Open _ \<Rightarrow> RECOVERY_FULL | HalfOpen _ \<Rightarrow> RECOVERY_FULL - recovery_samples s)"

definition left_of :: "string \<Rightarrow> health_tracker \<Rightarrow> nat" where
  "left_of k t = (case states t k of None \<Rightarrow> 0 | Some s \<Rightarrow> successes_left s)"

definition window_over :: "instant \<Rightarrow> health_state \<Rightarrow> bool" where
  "window_over now s \<longleftrightarrow> (case circuit s of Open u \<Rightarrow> u \<le> now | _ \<Rightarrow> True)"

fun successes :: "string \<Rightarrow> (instant \<times> health_op) list \<Rightarrow> nat" where
  "successes k [] = 0"
| "successes k ((_, x) # xs) = (if x = Succeeded k then 1 else 0) + successes k xs"

text \<open>No failure of the family is reported.\<close>

fun no_failure :: "string \<Rightarrow> instant \<times> health_op \<Rightarrow> bool" where
  "no_failure k (_, RateLimited k') = (k' \<noteq> k)"
| "no_failure k (_, Suspicious k' _) = (k' \<noteq> k)"
| "no_failure k (_, x) = True"

lemma successes_left_bound [simp]: "successes_left s \<le> RECOVERY_FULL"
  by (simp add: successes_left_def split: circuit.splits)

lemma successes_left_tick: "successes_left (tick_circuit now s) \<le> successes_left s"
  by (auto simp: successes_left_def tick_circuit_def split: circuit.splits)

lemma successes_left_decay [simp]: "successes_left (decay_penalties F now s) = successes_left s"
  by (simp add: successes_left_def split: circuit.split)

lemma successes_left_touch [simp]: "successes_left (s\<lparr>last_touch := n\<rparr>) = successes_left s"
  by (simp add: successes_left_def split: circuit.split)

lemma successes_left_success:
  assumes "rounding F" and "health_inv F s" and "window_over now s"
  shows "successes_left (success_state F now s) \<le> successes_left s - 1"
proof -
  define s' where "s' = decay_penalties F now (tick_circuit now s)"
  have le: "successes_left s' \<le> successes_left s"
    unfolding s'_def by (simp add: successes_left_tick)
  have inv: "health_inv F s'" unfolding s'_def by (rule health_inv_advance [OF assms(1, 2)])
  have shut: "circuit s' \<noteq> Open v" for v
    using assms(3) by (auto simp: s'_def tick_circuit_Open window_over_def)
  have "successes_left (success_state F now s) \<le> successes_left s' - 1"
    using inv shut unfolding success_state_def s'_def [symmetric]
    by (cases "circuit s'") (auto simp: successes_left_def health_inv_def inc32_def RECOVERY_FULL_def Let_def)
  then show ?thesis using le by linarith
qed

lemma successes_left_zero: "successes_left s = 0 \<Longrightarrow> health_inv F s \<Longrightarrow> circuit s = Closed"
  by (auto simp: successes_left_def health_inv_def RECOVERY_FULL_def split: circuit.splits)

lemma circuit_success_Open:
  "circuit (success_state F now s) = Open v \<Longrightarrow> circuit (tick_circuit now s) = Open v"
  by (cases "circuit (tick_circuit now s)") (auto simp: success_state_def Let_def split: if_splits)

lemma circuit_p_avail [simp]:
  "circuit (snd (p_avail_from_state F now rpm inflight cap lref dis s)) = circuit (tick_circuit now s)"
  by (simp add: p_avail_state Let_def)

lemma not_Open_window_over: "(\<And>v. circuit s \<noteq> Open v) \<Longrightarrow> window_over now s"
  by (cases "circuit s") (auto simp: window_over_def)

lemma window_over_steps:
  assumes "window_over now s"
  shows "window_over n (success_state F now s)" "window_over n (tick_circuit now s)"
    "window_over n (snd (p_avail_from_state F now rpm inflight cap lref dis s))"
proof -
  have o: "circuit (tick_circuit now s) \<noteq> Open v" for v
    using assms by (auto simp: tick_circuit_Open window_over_def)
  show "window_over n (tick_circuit now s)" by (rule not_Open_window_over) (rule o)
  show "window_over n (success_state F now s)"
    using o circuit_success_Open by (intro not_Open_window_over) blast
  show "window_over n (snd (p_avail_from_state F now rpm inflight cap lref dis s))"
    by (rule not_Open_window_over) (simp add: o)
qed


definition recovering :: "float_arith \<Rightarrow> instant \<Rightarrow> string \<Rightarrow> health_tracker \<Rightarrow> bool" where
  "recovering F T k t \<longleftrightarrow> tracker_inv F t \<and> (\<forall>s. states t k = Some s \<longrightarrow> window_over T s)"

lemma window_over_later: "window_over T s \<Longrightarrow> T \<le> now \<Longrightarrow> window_over now s"
  by (auto simp: window_over_def split: circuit.splits)

lemma window_over_of: "recovering F T k t \<Longrightarrow> window_over T (health_of F now k t)"
  by (auto simp: recovering_def health_of_def health_default_def window_over_def split: option.splits)

lemma left_of_health: "left_of k t = successes_left (health_of F now k t)"
  by (auto simp: left_of_def health_of_def health_default_def successes_left_def split: option.splits)

lemma recovering_step:
  assumes "rounding F" and "recovering F T k t" and "T \<le> now" and "no_failure k (now, x)"
  shows "recovering F T k (health_step F x now t) \<and>
    left_of k (health_step F x now t) \<le> left_of k t - (if x = Succeeded k then 1 else 0)"
proof -
  let ?s = "health_of F now k t"
  have over: "window_over now ?s"
    using window_over_later [OF window_over_of [OF assms(2)] assms(3)] .
  have inv: "health_inv F ?s" using assms(2) health_inv_of [OF assms(1)] by (simp add: recovering_def)
  note steps = window_over_steps [OF over]
  have upd: "recovering F T k (health_step F x now t) \<and>
      left_of k (health_step F x now t) \<le> left_of k t - d"
    if "states (health_step F x now t) k = Some s'" "window_over T s'" "successes_left s' \<le> successes_left ?s - d" for s' d
    using that tracker_inv_step [OF assms(1), of t x now] assms(2)
    by (simp add: recovering_def left_of_health [of k t F now]) (simp add: left_of_def)
  have same: ?thesis if "states (health_step F x now t) k = states t k" "x \<noteq> Succeeded k"
    using that tracker_inv_step [OF assms(1), of t x now] assms(2) by (simp add: recovering_def left_of_def)
  have gone: ?thesis if "states (health_step F x now t) k = None"
    using that tracker_inv_step [OF assms(1), of t x now] assms(2) by (simp add: recovering_def left_of_def)
  show ?thesis
  proof (cases x)
    case (Succeeded k')
    show ?thesis
    proof (cases "k' = k")
      case True
      then show ?thesis using upd [of "success_state F now ?s" 1] steps successes_left_success [OF assms(1) inv over] Succeeded
        by (simp add: on_success_def)
    next
      case False
      then show ?thesis by (intro same) (simp_all add: Succeeded on_success_def)
    qed
  next
    case (RateLimited k')
    then show ?thesis using assms(4) by (intro same) (simp_all add: on_429_def)
  next
    case (Suspicious k' d)
    then show ?thesis using assms(4) by (intro same) (simp_all add: report_family_suspicious_def)
  next
    case (Weigh k' rpm inflight cap lref)
    show ?thesis
    proof (cases "k' = k")
      case True
      let ?s' = "snd (p_avail_from_state F now rpm inflight cap lref (disable_429_weight t) ?s)"
      have "successes_left ?s' \<le> successes_left ?s - 0"
        using successes_left_tick [of now ?s] by (simp add: p_avail_state Let_def)
      then show ?thesis using upd [of ?s' 0] steps Weigh True
        by (simp add: p_avail_with_load_ref_def split_beta)
    next
      case False
      then show ?thesis by (intro same) (simp_all add: Weigh p_avail_with_load_ref_def split_beta)
    qed
  next
    case (Inspect k')
    show ?thesis
    proof (cases "k' = k \<and> states t k \<noteq> None")
      case True
      then have "states t k = Some ?s" by (auto simp: health_of_def)
      then show ?thesis using upd [of "tick_circuit now ?s" 0] steps Inspect True successes_left_tick [of now ?s]
        by (simp add: health_snapshot_def Let_def split_beta)
    next
      case False
      then show ?thesis
        by (intro same) (auto simp: Inspect health_snapshot_def Let_def split_beta split: option.split)
    qed
  next
    case SweepIdle
    have "states (health_step F x now t) k = None \<or> states (health_step F x now t) k = states t k"
      by (auto simp: SweepIdle health_cleanup_def retain_def split: option.splits)
    then show ?thesis using gone same SweepIdle by blast
  next
    case (Forget k')
    then show ?thesis using gone same by (cases "k' = k") (auto simp: health_clear_def)
  qed
qed

lemma recovering_run:
  assumes "rounding F"
  shows "recovering F T k t \<Longrightarrow> list_all (\<lambda>e. T \<le> fst e \<and> no_failure k e) xs \<Longrightarrow>
    recovering F T k (health_run F xs t) \<and> left_of k (health_run F xs t) \<le> left_of k t - successes k xs"
proof (induction xs arbitrary: t)
  case Nil
  then show ?case by simp
next
  case (Cons e xs)
  obtain now x where e: "e = (now, x)" by (cases e)
  then have s: "recovering F T k (health_step F x now t)"
      "left_of k (health_step F x now t) \<le> left_of k t - (if x = Succeeded k then 1 else 0)"
    using recovering_step [OF assms Cons.prems(1), of now x] Cons.prems(2) by auto
  show ?case using Cons.IH [OF s(1)] Cons.prems(2) s(2) by (auto simp: e)
qed

text \<open>
  C26. Whatever happened to a family before, once its window is over and no further failure of it is
  reported, five successes close its circuit: from then on its weight is no longer cut by a gate,
  however the calls of other families, the readings of its own weight and the sweeps interleave.\<close>
theorem breaker_recovers:
  assumes "rounding F"
    and "\<forall>s u. states (health_run F ys health_new) k = Some s \<and> circuit s = Open u \<longrightarrow> u \<le> T"
    and "list_all (\<lambda>e. T \<le> fst e \<and> no_failure k e) xs"
    and "RECOVERY_FULL \<le> successes k xs"
  shows "circuit (health_of F now k (health_run F xs (health_run F ys health_new))) = Closed"
proof -
  let ?t = "health_run F ys health_new"
  have "recovering F T k ?t"
    using assms(1, 2) tracker_inv_run [OF assms(1) tracker_inv_new]
    by (auto simp: recovering_def window_over_def split: circuit.splits)
  from recovering_run [OF assms(1) this assms(3)]
  have r: "recovering F T k (health_run F xs ?t)" "left_of k (health_run F xs ?t) \<le> left_of k ?t - successes k xs"
    by auto
  have "successes_left (health_of F now k (health_run F xs ?t)) = 0"
    using r(2) assms(4) successes_left_bound [of "health_of F now k ?t"]
    unfolding left_of_health [of _ _ F now] by linarith
  moreover have "health_inv F (health_of F now k (health_run F xs ?t))"
    using r(1) health_inv_of [OF assms(1)] by (simp add: recovering_def)
  ultimately show ?thesis by (rule successes_left_zero)
qed

text \<open>A suspension at 0 for nine nanoseconds, five successes from 9 on.\<close>
theorem breaker_recovers_witness:
  "circuit (health_of exact_arith 20 ''m'' (health_run exact_arith
     [(9, Succeeded ''m''), (10, Succeeded ''m''), (11, Inspect ''m''), (12, Succeeded ''m''),
      (13, Succeeded ''m''), (14, Succeeded ''m'')]
     (health_run exact_arith [(0, Suspicious ''m'' 9)] health_new))) = Closed"
proof (rule breaker_recovers [OF rounding_exact, where T = 9])
  show "\<forall>s u. states (health_run exact_arith [(0, Suspicious ''m'' 9)] health_new) ''m'' = Some s \<and>
      circuit s = Open u \<longrightarrow> u \<le> 9"
    by (auto simp: report_family_suspicious_def suspicious_state_def Let_def)
qed (simp_all add: RECOVERY_FULL_def)

end
