(* ===== verification/Pool.thy ===== *)
theory Pool
  imports Credentials Health Affinity Cooldown RateLimiter Scheduling "HOL-Library.Multiset" "HOL-Library.Sublist"
begin

text \<open>
  The credential pool: \<open>CredentialEntry\<close>, \<open>DisabledReason\<close> and the part of \<open>MultiTokenManager\<close>
  of \<open>src/src/kiro/token_manager.rs\<close> that decides which credentials are in service, with the write-back
  of a refreshed token from \<open>src/src/kiro/token_refresh_http.rs\<close>.

  The manager's tables for session affinity, cooldowns, rate limits, request counts and health are
  the models of their own theories; each report drives them the way the code does. A report runs
  under the locks it takes, so it is one step; \<open>call_env\<close> carries what it reads from outside: the
  monotonic clock, the wall clock as RFC 3339 text, the random draw of the rate limiter and the
  floating-point operations. chrono's reading of that text is a parameter. What is written to disk
  (credentials file, statistics, trash file) and the counters for metrics and alerts are left out.
\<close>

definition MAX_FAILURES_PER_CREDENTIAL :: nat where "MAX_FAILURES_PER_CREDENTIAL = 3"
definition MAX_CONSECUTIVE_SUSPICIOUS_BEFORE_DISABLE :: nat where
  "MAX_CONSECUTIVE_SUSPICIOUS_BEFORE_DISABLE = 6"
definition MAX_RETRY_AFTER_COOLDOWN_SECS :: nat where "MAX_RETRY_AFTER_COOLDOWN_SECS = 600"
definition MODEL_BLOCK_TTL :: duration where "MODEL_BLOCK_TTL = secs 1800"
definition QUOTA_RESET_GRACE_SECS :: real where "QUOTA_RESET_GRACE_SECS = 300"
definition MAX_PRIORITY :: nat where "MAX_PRIORITY = 9999"

subsection \<open>Entries\<close>

record credential_entry =
  eid :: nat
  credentials :: kiro_credentials
  failure_count :: nat
  refresh_failure_count :: nat
  consecutive_suspicious :: nat
  consecutive_passthrough_failures :: nat
  last_failure_at :: "instant option"
  disabled :: bool
  disabled_reason :: "disabled_reason option"
  disabled_at :: "string option"
  quota_exhausted_at :: "string option"
  success_count :: nat
  request_count :: nat
  total_credits_used :: real
  last_used_at :: "string option"
  family_cache :: "string option"

definition family_key_cached :: "credential_entry \<Rightarrow> string \<times> credential_entry" where
  "family_key_cached e =
     (case family_cache e of
        Some k \<Rightarrow> (k, e)
      | None \<Rightarrow> let k = family_key (credentials e) (eid e) in (k, e\<lparr>family_cache := Some k\<rparr>))"

definition family_key_ref :: "credential_entry \<Rightarrow> string" where
  "family_key_ref e =
     (case family_cache e of Some k \<Rightarrow> k | None \<Rightarrow> family_key (credentials e) (eid e))"

definition clear_transient_counters :: "credential_entry \<Rightarrow> credential_entry" where
  "clear_transient_counters e =
     e\<lparr>failure_count := 0, refresh_failure_count := 0, consecutive_suspicious := 0\<rparr>"

definition is_self_healable_reason :: "disabled_reason option \<Rightarrow> bool" where
  "is_self_healable_reason r \<longleftrightarrow>
     r \<in> {Some TooManyFailures, Some SuspiciousActivityAuto, Some TooManyRefreshFailures}"

text \<open>\<open>entries.iter().find(|e| e.id == id)\<close>, the same with \<open>iter_mut\<close>, and \<open>any(|e| !e.disabled)\<close>.\<close>

definition find_entry :: "nat \<Rightarrow> credential_entry list \<Rightarrow> credential_entry option" where
  "find_entry i es = find (\<lambda>e. eid e = i) es"

fun update_entry :: "nat \<Rightarrow> (credential_entry \<Rightarrow> credential_entry) \<Rightarrow> credential_entry list \<Rightarrow>
    credential_entry list" where
  "update_entry i f [] = []"
| "update_entry i f (e # es) = (if eid e = i then f e # es else e # update_entry i f es)"

definition any_enabled :: "credential_entry list \<Rightarrow> bool" where
  "any_enabled es \<longleftrightarrow> list_ex (\<lambda>e. \<not> disabled e) es"

definition custom_api :: "credential_entry \<Rightarrow> bool" where
  "custom_api e \<longleftrightarrow> is_custom_api_credential (credentials e)"

record balance_snapshot =
  remaining_at_cache :: real
  effective_limit :: real
  credits_used_at_cache :: real
  next_reset_at :: "real option"
  fetched_at :: real

record trash_entry =
  trashed :: kiro_credentials
  deleted_at :: string
  trashed_success_count :: nat
  trashed_request_count :: nat
  trashed_total_credits_used :: real
  trashed_last_used_at :: "string option"

record token_manager =
  pool :: "credential_entry list"
  trash :: "trash_entry list"
  next_id :: nat
  current_id :: nat
  affinity_table :: user_affinity_manager
  cooldown_table :: cooldown_manager
  cooldown_enabled :: bool
  limiter :: rate_limiter
  rate_limit_enabled :: bool
  rpm_table :: rpm_tracker
  health_table :: health_tracker
  auto_disable_suspicious :: bool
  self_heal_streak :: nat
  last_self_heal_at :: "instant option"
  self_heal_revived :: "nat set"
  model_blocklist :: "nat \<times> string \<rightharpoonup> instant"
  balance_snapshots :: "nat \<rightharpoonup> balance_snapshot"

record call_env =
  at_instant :: instant
  at_utc :: string
  esc_16 :: escalation
  esc_13 :: escalation
  draw_of :: nat
  floats :: float_arith

subsection \<open>Starting\<close>

definition entry_new :: "nat \<Rightarrow> kiro_credentials \<Rightarrow> credential_entry" where
  "entry_new cid cred =
     \<lparr>eid = cid, credentials = cred, failure_count = 0, refresh_failure_count = 0,
      consecutive_suspicious = 0, consecutive_passthrough_failures = 0, last_failure_at = None,
      disabled = cred_disabled cred,
      disabled_reason = (if cred_disabled cred
        then Some (case cred_disabled_reason cred of Some r \<Rightarrow> r | None \<Rightarrow> Manual) else None),
      disabled_at = cred_disabled_at cred, quota_exhausted_at = cred_quota_exhausted_at cred,
      success_count = 0, request_count = 0, total_credits_used = 0, last_used_at = None,
      family_cache = Some (family_key cred cid)\<rparr>"

fun number_credentials :: "nat \<Rightarrow> kiro_credentials list \<Rightarrow> credential_entry list" where
  "number_credentials nxt [] = []"
| "number_credentials nxt (cred # creds) =
     (let c = canonicalize_auth_method cred in
      case cred_id c of
        Some i \<Rightarrow> entry_new i c # number_credentials nxt creds
      | None \<Rightarrow> entry_new nxt (c\<lparr>cred_id := Some nxt\<rparr>) # number_credentials (nxt + 1) creds)"

definition legacy_auto_disabled :: "credential_entry \<Rightarrow> bool" where
  "legacy_auto_disabled e \<longleftrightarrow> custom_api e \<and> disabled e \<and>
     disabled_reason e \<notin> {None, Some Manual, Some Unknown}"

definition revive_legacy :: "credential_entry \<Rightarrow> credential_entry" where
  "revive_legacy e =
     (if legacy_auto_disabled e
      then e\<lparr>disabled := False, disabled_reason := None, disabled_at := None,
             credentials := (credentials e)\<lparr>cred_disabled := False, cred_disabled_reason := None,
               cred_disabled_at := None\<rparr>\<rparr>
      else e)"

definition invalid_config :: "credential_entry \<Rightarrow> bool" where
  "invalid_config e \<longleftrightarrow> \<not> custom_api e \<and> kiro_api_key (credentials e) = None \<and>
     (case auth_method (credentials e) of
        Some m \<Rightarrow> eq_ignore_ascii_case m ''api_key'' \<or> eq_ignore_ascii_case m ''apikey''
      | None \<Rightarrow> False)"

definition disable_with :: "disabled_reason \<Rightarrow> string \<Rightarrow> credential_entry \<Rightarrow> credential_entry" where
  "disable_with r t e = e\<lparr>disabled := True, disabled_reason := Some r, disabled_at := Some t\<rparr>"

definition clear_revive_side_penalties :: "nat \<Rightarrow> string \<Rightarrow> token_manager \<Rightarrow> token_manager" where
  "clear_revive_side_penalties i health_key m =
     m\<lparr>cooldown_table := snd (clear_cooldown i (cooldown_table m)),
       limiter := rate_reset i (limiter m),
       health_table := snd (health_clear health_key (health_table m))\<rparr>"

text \<open>
  The manager at start: \<open>cooldowns\<close> is the table loaded from the disk, and an error lists the
  numbers that occur twice.
\<close>

definition duplicates :: "nat list \<Rightarrow> nat list" where
  "duplicates ids = map fst (filter (\<lambda>(i, k). i \<in> set (take k ids)) (zip ids [0..<length ids]))"

definition manager_new :: "string \<Rightarrow> cooldown_manager \<Rightarrow> bool \<Rightarrow> rate_limit_config \<Rightarrow> bool \<Rightarrow> bool \<Rightarrow>
    kiro_credentials list \<Rightarrow> nat list + token_manager" where
  "manager_new t cooldowns cd_on rl_cfg rl_on auto creds =
     (let max_existing = foldr max (List.map_filter cred_id creds) 0;
          es0 = number_credentials (max_existing + 1) creds;
          next0 = max_existing + 1 + length (filter (\<lambda>c. cred_id c = None) creds);
          legacy = map (\<lambda>e. (eid e, family_key_ref e)) (filter legacy_auto_disabled es0);
          es1 = map revive_legacy es0;
          es = map (\<lambda>e. if invalid_config e then disable_with InvalidConfig t e else e) es1;
          dups = duplicates (map eid es) in
      if dups \<noteq> [] then Err dups
      else
        let initial = (case min_by_key (\<lambda>e. priority (credentials e)) (filter (\<lambda>e. \<not> disabled e) es) of
                         Some e \<Rightarrow> eid e | None \<Rightarrow> 0);
            m = \<lparr>pool = es, trash = [], next_id = next0, current_id = initial, affinity_table = affinity_new,
                 cooldown_table = cooldowns, cooldown_enabled = cd_on,
                 limiter = rate_limiter_new rl_cfg, rate_limit_enabled = rl_on,
                 rpm_table = rpm_new, health_table = health_new, auto_disable_suspicious = auto,
                 self_heal_streak = 0, last_self_heal_at = None, self_heal_revived = {},
                 model_blocklist = Map.empty, balance_snapshots = Map.empty\<rparr> in
        Ok (foldl (\<lambda>m (i, key). clear_revive_side_penalties i key m) m legacy))"

subsection \<open>Common steps of the reports\<close>

definition enabled_by_priority :: "credential_entry list \<Rightarrow> credential_entry option" where
  "enabled_by_priority es = min_by_key (\<lambda>e. priority (credentials e)) (filter (\<lambda>e. \<not> disabled e) es)"

definition preserve_custom_api_state :: "nat \<Rightarrow> token_manager \<Rightarrow> bool option" where
  "preserve_custom_api_state i m =
     (if list_ex (\<lambda>e. eid e = i \<and> custom_api e) (pool m) then Some (any_enabled (pool m)) else None)"

definition family_key_of :: "nat \<Rightarrow> token_manager \<Rightarrow> string" where
  "family_key_of i m =
     (case find_entry i (pool m) of
        Some e \<Rightarrow> family_key (credentials e) (eid e)
      | None \<Rightarrow> ''cred:'' @ show_nat i)"

definition clear_streaks :: "nat \<Rightarrow> token_manager \<Rightarrow> token_manager" where
  "clear_streaks i m = m\<lparr>affinity_table := clear_streaks_by_credential i (affinity_table m)\<rparr>"

definition unbind :: "nat \<Rightarrow> token_manager \<Rightarrow> token_manager" where
  "unbind i m = m\<lparr>affinity_table := remove_by_credential i (affinity_table m)\<rparr>"

definition limiter_failure :: "call_env \<Rightarrow> nat \<Rightarrow> token_manager \<Rightarrow> token_manager" where
  "limiter_failure E i m =
     (if rate_limit_enabled m
      then m\<lparr>limiter := snd (record_failure (draw_of E) (at_instant E) i Transient (limiter m))\<rparr> else m)"

definition cool :: "call_env \<Rightarrow> nat \<Rightarrow> cooldown_reason \<Rightarrow> token_manager \<Rightarrow> token_manager" where
  "cool E i r m =
     (if cooldown_enabled m
      then m\<lparr>cooldown_table := snd (set_cooldown (esc_16 E) (esc_13 E) (at_instant E) i r (cooldown_table m))\<rparr>
      else m)"

definition cool_briefly :: "call_env \<Rightarrow> nat \<Rightarrow> cooldown_reason \<Rightarrow> token_manager \<Rightarrow> token_manager" where
  "cool_briefly E i r m =
     (if cooldown_enabled m
      then m\<lparr>cooldown_table := snd (set_transient_cooldown (at_instant E) i r (cooldown_table m))\<rparr> else m)"

text \<open>After an entry was disabled, the enabled one of the best priority becomes the current one.\<close>

definition switch_current :: "token_manager \<Rightarrow> bool \<times> token_manager" where
  "switch_current m =
     (case enabled_by_priority (pool m) of
        Some next \<Rightarrow> (True, m\<lparr>current_id := eid next\<rparr>)
      | None \<Rightarrow> (False, m))"


subsection \<open>Reports of the request path\<close>

definition note_success :: "call_env \<Rightarrow> credential_entry \<Rightarrow> credential_entry" where
  "note_success E e =
     e\<lparr>failure_count := 0, refresh_failure_count := 0, consecutive_suspicious := 0,
       success_count := success_count e + 1, last_used_at := Some (at_utc E)\<rparr>"

definition absolve :: "string \<Rightarrow> credential_entry \<Rightarrow> credential_entry" where
  "absolve fam e =
     (let (k, e') = family_key_cached e in if k = fam then e'\<lparr>consecutive_suspicious := 0\<rparr> else e')"

definition report_success :: "call_env \<Rightarrow> nat \<Rightarrow> token_manager \<Rightarrow> token_manager" where
  "report_success E i m0 =
     (let m1 = (if i \<in> self_heal_revived m0
                then m0\<lparr>self_heal_revived := self_heal_revived m0 - {i}, self_heal_streak := 0\<rparr> else m0);
          m2 = clear_streaks i m1;
          fam = family_key_of i m2;
          es1 = update_entry i (note_success E) (pool m2);
          es2 = (if \<not> starts_with ''cred:'' fam then map (absolve fam) es1 else es1);
          m3 = m2\<lparr>pool := es2\<rparr>;
          m4 = (if cooldown_enabled m3
                then m3\<lparr>cooldown_table := snd (clear_cooldown i (cooldown_table m3))\<rparr> else m3);
          m5 = (if rate_limit_enabled m4
                then m4\<lparr>limiter := record_success (at_instant E) i (limiter m4)\<rparr> else m4) in
      m5\<lparr>health_table := on_success (floats E) (at_instant E) fam (health_table m5)\<rparr>)"

definition note_failure :: "call_env \<Rightarrow> credential_entry \<Rightarrow> credential_entry" where
  "note_failure E e0 =
     (let e1 = e0\<lparr>failure_count := inc32 (failure_count e0), last_used_at := Some (at_utc E)\<rparr> in
      if failure_count e1 \<ge> MAX_FAILURES_PER_CREDENTIAL
      then disable_with TooManyFailures (at_utc E) e1 else e1)"

definition report_failure :: "call_env \<Rightarrow> nat \<Rightarrow> token_manager \<Rightarrow> bool \<times> token_manager" where
  "report_failure E i m0 =
     (case preserve_custom_api_state i m0 of
        Some has_enabled \<Rightarrow> (has_enabled, m0)
      | None \<Rightarrow>
          let m1 = clear_streaks i m0 in
          case find_entry i (pool m1) of
            None \<Rightarrow> (any_enabled (pool m1), m1)
          | Some e0 \<Rightarrow>
              if disabled e0 then (any_enabled (pool m1), m1)
              else
                let disabled_now = disabled (note_failure E e0);
                    m2 = m1\<lparr>pool := update_entry i (note_failure E) (pool m1)\<rparr>;
                    m3 = (if disabled_now then snd (switch_current m2) else m2);
                    result = any_enabled (pool m3);
                    m4 = (if disabled_now then unbind i m3 else m3) in
                (result, limiter_failure E i m4))"

definition report_rate_limited_with_retry_after ::
  "call_env \<Rightarrow> nat \<Rightarrow> nat option \<Rightarrow> token_manager \<Rightarrow> token_manager" where
  "report_rate_limited_with_retry_after E i retry_after_secs m0 =
     (let m1 = (if cooldown_enabled m0 then
            (case retry_after_secs of
               Some s \<Rightarrow>
                 if s > 0
                 then m0\<lparr>cooldown_table := snd (set_cooldown_with_duration (esc_16 E) (esc_13 E) (at_instant E)
                        i RateLimitExceeded (Some (secs (min s MAX_RETRY_AFTER_COOLDOWN_SECS)))
                        (cooldown_table m0))\<rparr>
                 else cool_briefly E i RateLimitExceeded m0
             | None \<Rightarrow> cool_briefly E i RateLimitExceeded m0)
            else m0);
          m2 = limiter_failure E i m1 in
      m2\<lparr>health_table := on_429 (floats E) (at_instant E) (family_key_of i m2) (health_table m2)\<rparr>)"

definition report_rate_limited_for_session ::
  "call_env \<Rightarrow> nat \<Rightarrow> nat option \<Rightarrow> string option \<Rightarrow> token_manager \<Rightarrow> token_manager" where
  "report_rate_limited_for_session E i retry_after_secs session_id m0 =
     (let m1 = report_rate_limited_with_retry_after E i retry_after_secs m0 in
      case session_id of
        Some uid \<Rightarrow> m1\<lparr>affinity_table := snd (note_rate_limited (at_instant E) uid i (affinity_table m1))\<rparr>
      | None \<Rightarrow> m1)"

definition report_server_error :: "call_env \<Rightarrow> nat \<Rightarrow> token_manager \<Rightarrow> token_manager" where
  "report_server_error E i m = cool_briefly E i ServerError (clear_streaks i m)"

definition same_family :: "string \<Rightarrow> credential_entry \<Rightarrow> bool" where
  "same_family fam e \<longleftrightarrow> \<not> disabled e \<and> family_key (credentials e) (eid e) = fam"

text \<open>The pool after a suspension of \<open>i\<close>: the counter of the family, and who was disabled.\<close>

definition suspect_family :: "call_env \<Rightarrow> nat \<Rightarrow> bool \<Rightarrow> credential_entry list \<Rightarrow>
    nat list \<times> credential_entry list" where
  "suspect_family E i auto es =
     (case find_entry i es of
        None \<Rightarrow> ([], es)
      | Some e0 \<Rightarrow>
          if disabled e0 then ([], es)
          else
            let fam = family_key (credentials e0) (eid e0);
                nxt = sat_add32 (foldr max (map consecutive_suspicious (filter (same_family fam) es)) 0) 1;
                should_disable = auto \<and> nxt \<ge> MAX_CONSECUTIVE_SUSPICIOUS_BEFORE_DISABLE in
            (if should_disable then map eid (filter (same_family fam) es) else [],
             map (\<lambda>e. if same_family fam e
                      then let e1 = e\<lparr>consecutive_suspicious := nxt\<rparr> in
                           (if should_disable then disable_with SuspiciousActivityAuto (at_utc E) e1 else e1)
                      else e) es))"

definition report_suspicious_activity :: "call_env \<Rightarrow> nat \<Rightarrow> token_manager \<Rightarrow> token_manager" where
  "report_suspicious_activity E i m0 =
     (case preserve_custom_api_state i m0 of
        Some _ \<Rightarrow> m0
      | None \<Rightarrow>
          let m1 = clear_streaks i m0;
              es1 = update_entry i (\<lambda>e. e\<lparr>last_used_at := Some (at_utc E)\<rparr>) (pool m1);
              (disabled_ids, es2) = suspect_family E i (auto_disable_suspicious m1) es1;
              m2 = foldl (\<lambda>m cid. unbind cid m) (m1\<lparr>pool := es2\<rparr>) disabled_ids;
              m3 = (if cooldown_enabled m2 then
                      let (dur, cd) = set_cooldown (esc_16 E) (esc_13 E) (at_instant E) i
                                        cooldown_reason.SuspiciousActivity (cooldown_table m2);
                          m = m2\<lparr>cooldown_table := cd\<rparr> in
                      m\<lparr>health_table := report_family_suspicious (floats E) (at_instant E)
                          (family_key_of i m) dur (health_table m)\<rparr>
                    else m2) in
          limiter_failure E i m3)"

definition report_auth_cooldown :: "call_env \<Rightarrow> nat \<Rightarrow> token_manager \<Rightarrow> token_manager" where
  "report_auth_cooldown E i m = cool E i AuthenticationFailed (clear_streaks i m)"

definition report_auth_transient_cooldown :: "call_env \<Rightarrow> nat \<Rightarrow> token_manager \<Rightarrow> token_manager" where
  "report_auth_transient_cooldown E i m = cool E i AuthTransient (clear_streaks i m)"

text \<open>
  The verdicts that disable at once: the entry's new state is \<open>mark e\<close>. The three reports below
  differ in it only.
\<close>

definition disable_at_once :: "nat \<Rightarrow> (credential_entry \<Rightarrow> credential_entry) \<Rightarrow> token_manager \<Rightarrow>
    bool \<times> token_manager" where
  "disable_at_once i mark m0 =
     (case preserve_custom_api_state i m0 of
        Some has_enabled \<Rightarrow> (has_enabled, m0)
      | None \<Rightarrow>
          (case find_entry i (pool m0) of
             None \<Rightarrow> (any_enabled (pool m0), m0)
           | Some e0 \<Rightarrow>
               if disabled e0 then (any_enabled (pool m0), m0)
               else
                 let (result, m1) = switch_current (m0\<lparr>pool := update_entry i mark (pool m0)\<rparr>) in
                 (result, unbind i m1)))"

definition report_quota_exhausted :: "call_env \<Rightarrow> nat \<Rightarrow> token_manager \<Rightarrow> bool \<times> token_manager" where
  "report_quota_exhausted E i =
     disable_at_once i (\<lambda>e. (disable_with QuotaExceeded (at_utc E) e)
       \<lparr>quota_exhausted_at := Some (at_utc E), last_used_at := Some (at_utc E),
        failure_count := MAX_FAILURES_PER_CREDENTIAL\<rparr>)"

definition report_account_suspended :: "call_env \<Rightarrow> nat \<Rightarrow> token_manager \<Rightarrow> bool \<times> token_manager" where
  "report_account_suspended E i =
     disable_at_once i (\<lambda>e. (disable_with disabled_reason.AccountSuspended (at_utc E) e)
       \<lparr>last_used_at := Some (at_utc E), failure_count := MAX_FAILURES_PER_CREDENTIAL\<rparr>)"

definition report_refresh_token_invalid :: "call_env \<Rightarrow> nat \<Rightarrow> token_manager \<Rightarrow> bool \<times> token_manager" where
  "report_refresh_token_invalid E i =
     disable_at_once i (\<lambda>e. disable_with InvalidRefreshToken (at_utc E) (e\<lparr>last_used_at := Some (at_utc E)\<rparr>))"

definition note_refresh_failure :: "call_env \<Rightarrow> credential_entry \<Rightarrow> credential_entry" where
  "note_refresh_failure E e0 =
     (let e1 = e0\<lparr>last_used_at := Some (at_utc E),
                 refresh_failure_count := inc32 (refresh_failure_count e0)\<rparr> in
      if refresh_failure_count e1 < MAX_FAILURES_PER_CREDENTIAL then e1
      else disable_with TooManyRefreshFailures (at_utc E) e1)"

definition report_refresh_failure :: "call_env \<Rightarrow> nat \<Rightarrow> token_manager \<Rightarrow> bool \<times> token_manager" where
  "report_refresh_failure E i m0 =
     (case preserve_custom_api_state i m0 of
        Some has_enabled \<Rightarrow> (has_enabled, m0)
      | None \<Rightarrow>
          let m1 = clear_streaks i m0 in
          case find_entry i (pool m1) of
            None \<Rightarrow> (any_enabled (pool m1), m1)
          | Some e0 \<Rightarrow>
              if disabled e0 then (any_enabled (pool m1), m1)
              else
                let m2 = m1\<lparr>pool := update_entry i (note_refresh_failure E) (pool m1)\<rparr> in
                if \<not> disabled (note_refresh_failure E e0) then (any_enabled (pool m2), m2)
                else let (result, m3) = switch_current m2 in (result, unbind i m3))"

text \<open>\<open>credential_level\<close>: whether \<open>is_refresh_error_credential_level\<close> blames the credential.\<close>

definition report_refresh_failure_classified ::
  "call_env \<Rightarrow> nat \<Rightarrow> bool \<Rightarrow> token_manager \<Rightarrow> bool \<times> token_manager" where
  "report_refresh_failure_classified E i credential_level m0 =
     (case preserve_custom_api_state i m0 of
        Some has_enabled \<Rightarrow> (has_enabled, m0)
      | None \<Rightarrow>
          if credential_level then report_refresh_failure E i m0
          else
            let m1 = cool E i TokenRefreshFailed (clear_streaks i m0) in (any_enabled (pool m1), m1))"

definition switch_to_next :: "token_manager \<Rightarrow> bool \<times> token_manager" where
  "switch_to_next m =
     (case min_by_key (\<lambda>e. priority (credentials e))
             (filter (\<lambda>e. \<not> disabled e \<and> eid e \<noteq> current_id m) (pool m)) of
        Some next \<Rightarrow> (True, m\<lparr>current_id := eid next\<rparr>)
      | None \<Rightarrow> (list_ex (\<lambda>e. eid e = current_id m \<and> \<not> disabled e) (pool m), m))"

definition select_highest_priority :: "token_manager \<Rightarrow> token_manager" where
  "select_highest_priority m =
     (case enabled_by_priority (pool m) of
        Some best \<Rightarrow> if eid best \<noteq> current_id m then m\<lparr>current_id := eid best\<rparr> else m
      | None \<Rightarrow> m)"


subsection \<open>Models a credential does not offer\<close>

definition is_model_blocked :: "instant \<Rightarrow> nat \<Rightarrow> string \<Rightarrow> token_manager \<Rightarrow> bool \<times> token_manager" where
  "is_model_blocked now i model m =
     (if model = [] then (False, m)
      else case model_blocklist m (i, model) of
             Some t \<Rightarrow>
               if now - t < MODEL_BLOCK_TTL then (True, m)
               else (False, m\<lparr>model_blocklist := (model_blocklist m)((i, model) := None)\<rparr>)
           | None \<Rightarrow> (False, m))"

fun count_selectable :: "instant \<Rightarrow> string \<Rightarrow> credential_entry list \<Rightarrow> token_manager \<Rightarrow> nat \<times> token_manager" where
  "count_selectable now model [] m = (0, m)"
| "count_selectable now model (e # es) m =
     (if \<not> disabled e \<and> \<not> custom_api e then
        (if model = [] then (let (n, m') = count_selectable now model es m in (n + 1, m'))
         else
           let (blocked, m1) = is_model_blocked now (eid e) model m;
               (n, m2) = count_selectable now model es m1 in
           (if blocked then n else n + 1, m2))
      else count_selectable now model es m)"

definition report_model_invalid :: "call_env \<Rightarrow> nat \<Rightarrow> string option \<Rightarrow> token_manager \<Rightarrow> bool \<times> token_manager" where
  "report_model_invalid E i model m0 =
     (let name = (case model of Some s \<Rightarrow> s | None \<Rightarrow> []);
          m1 = m0\<lparr>model_blocklist := (model_blocklist m0)((i, name) \<mapsto> at_instant E)\<rparr>;
          (n, m2) = count_selectable (at_instant E) name (pool m1) m1 in
      (n > 0, m2))"

subsection \<open>Relayed credentials\<close>

datatype relay_outcome =
  Success | RateLimited | ServerFailed | NetworkFailed | BadRequest | EmptyResponse | Interrupted
| AuthFailed | QuotaUsedUp | OtherFailed | Suspended | ModelMissing

definition mark_passthrough_failure :: "call_env \<Rightarrow> nat \<Rightarrow> token_manager \<Rightarrow> token_manager" where
  "mark_passthrough_failure E i m =
     m\<lparr>pool := update_entry i (\<lambda>e. e\<lparr>last_failure_at := Some (at_instant E)\<rparr>) (pool m)\<rparr>"

definition record_passthrough_result :: "call_env \<Rightarrow> nat \<Rightarrow> relay_outcome \<Rightarrow> token_manager \<Rightarrow> token_manager" where
  "record_passthrough_result E i outcome m =
     m\<lparr>pool := update_entry i (\<lambda>e0.
        let e = e0\<lparr>last_used_at := Some (at_utc E)\<rparr> in
        (case outcome of
           Success \<Rightarrow> e\<lparr>consecutive_passthrough_failures := 0, last_failure_at := None,
             success_count := sat_add64 (success_count e) 1, request_count := sat_add64 (request_count e) 1\<rparr>
         | ServerFailed \<Rightarrow> e\<lparr>failure_count := sat_add32 (failure_count e) 1\<rparr>
         | NetworkFailed \<Rightarrow> e\<lparr>failure_count := sat_add32 (failure_count e) 1\<rparr>
         | RateLimited \<Rightarrow> e\<lparr>consecutive_passthrough_failures := 0\<rparr>
         | BadRequest \<Rightarrow> e
         | EmptyResponse \<Rightarrow> e
         | Interrupted \<Rightarrow> e
         | _ \<Rightarrow> e\<lparr>failure_count := sat_add32 (failure_count e) 1, consecutive_passthrough_failures := 0\<rparr>))
        (pool m)\<rparr>"

definition cooldown_custom_api :: "call_env \<Rightarrow> nat \<Rightarrow> nat \<Rightarrow> cooldown_reason \<Rightarrow> token_manager \<Rightarrow>
    bool \<times> token_manager" where
  "cooldown_custom_api E i s r m =
     (if cooldown_enabled m
      then (True, m\<lparr>cooldown_table := snd (set_cooldown_with_duration (esc_16 E) (esc_13 E) (at_instant E)
              i r (Some (secs s)) (cooldown_table m))\<rparr>)
      else (False, m))"

subsection \<open>Automatic recovery\<close>

definition quota_truth_path_due :: "float_arith \<Rightarrow> real \<Rightarrow> balance_snapshot \<Rightarrow> real \<Rightarrow> bool" where
  "quota_truth_path_due F ts s now_epoch \<longleftrightarrow>
     \<not> now_epoch < fadd F ts QUOTA_RESET_GRACE_SECS \<and>
     \<not> (fetched_at s \<ge> ts \<and> remaining_at_cache s \<le> 0)"

text \<open>
  The wall clock of the recovery: year and month, days into the month, hour, Unix time; and
  \<open>year_month_of\<close>, what chrono reads from a stored RFC 3339 text.
\<close>

record wall_clock =
  year_month :: "int \<times> nat"
  day0 :: nat
  hour :: nat
  epoch :: real
  year_month_of :: "string \<Rightarrow> (int \<times> nat) option"

definition quota_due :: "float_arith \<Rightarrow> wall_clock \<Rightarrow> (nat \<rightharpoonup> balance_snapshot) \<Rightarrow> credential_entry \<Rightarrow> bool" where
  "quota_due F w snaps e \<longleftrightarrow>
     (case Option.bind (snaps (eid e)) (\<lambda>s. map_option (\<lambda>ts. (ts, s)) (next_reset_at s)) of
        Some (ts, s) \<Rightarrow> quota_truth_path_due F ts s (epoch w)
      | None \<Rightarrow>
          \<not> day0 w * 24 + hour w < 12 \<and>
          \<not> (case Option.bind (quota_exhausted_at e) (year_month_of w) of
               Some ym \<Rightarrow> ym = year_month w | None \<Rightarrow> False))"

definition quota_recoverable :: "float_arith \<Rightarrow> wall_clock \<Rightarrow> (nat \<rightharpoonup> balance_snapshot) \<Rightarrow> credential_entry \<Rightarrow> bool" where
  "quota_recoverable F w snaps e \<longleftrightarrow>
     disabled e \<and> disabled_reason e = Some QuotaExceeded \<and> quota_due F w snaps e"

definition penalties_of :: "(nat \<times> string) list \<Rightarrow> token_manager \<Rightarrow> token_manager" where
  "penalties_of ks m = foldl (\<lambda>m (i, key). clear_revive_side_penalties i key m) m ks"

definition revive :: "credential_entry \<Rightarrow> credential_entry" where
  "revive e = snd (family_key_cached (clear_transient_counters
     (e\<lparr>disabled := False, disabled_reason := None, disabled_at := None\<rparr>)))"

definition recover_expired_quota_disables :: "call_env \<Rightarrow> wall_clock \<Rightarrow> token_manager \<Rightarrow> nat \<times> token_manager" where
  "recover_expired_quota_disables E w m =
     (let due = quota_recoverable (floats E) w (balance_snapshots m);
          recovered = map (\<lambda>e. (eid e, family_key_ref e)) (filter due (pool m));
          m1 = m\<lparr>pool := map (\<lambda>e. if due e then revive (e\<lparr>quota_exhausted_at := None\<rparr>) else e) (pool m)\<rparr> in
      (length recovered, penalties_of recovered m1))"

definition ids_due_for_quota_recovery_probe :: "float_arith \<Rightarrow> wall_clock \<Rightarrow> token_manager \<Rightarrow> nat list" where
  "ids_due_for_quota_recovery_probe F w m =
     map eid (filter (\<lambda>e.
       (case Option.bind (balance_snapshots m (eid e)) (\<lambda>s. map_option (\<lambda>ts. (ts, s)) (next_reset_at s)) of
          Some (ts, s) \<Rightarrow> quota_truth_path_due F ts s (epoch w)
        | None \<Rightarrow> False))
       (filter (\<lambda>e. \<not> custom_api e)
         (filter (\<lambda>e. disabled e \<and> disabled_reason e = Some QuotaExceeded) (pool m))))"

record heal_config =
  self_heal_base_backoff_secs :: nat
  self_heal_max_backoff_secs :: nat
  self_heal_max_shift :: nat

definition heal_wait :: "heal_config \<Rightarrow> nat \<Rightarrow> duration" where
  "heal_wait cfg streak =
     (let shift = min streak (min (self_heal_max_shift cfg) 31) in
      min (duration_sat_mul (secs (self_heal_base_backoff_secs cfg)) (2 ^ shift))
          (secs (self_heal_max_backoff_secs cfg)))"

definition heal_allowed :: "heal_config \<Rightarrow> instant \<Rightarrow> token_manager \<Rightarrow> bool" where
  "heal_allowed cfg now m \<longleftrightarrow>
     (case last_self_heal_at m of
        None \<Rightarrow> True
      | Some t \<Rightarrow> now - t \<ge> heal_wait cfg (self_heal_streak m))"

definition self_heal :: "call_env \<Rightarrow> heal_config \<Rightarrow> token_manager \<Rightarrow> token_manager" where
  "self_heal E cfg m =
     (let healable = list_ex (\<lambda>e. disabled e \<and> is_self_healable_reason (disabled_reason e)) (pool m) in
      if healable \<and> \<not> heal_allowed cfg (at_instant E) m then m
      else if healable then
        let ready = (\<lambda>e. is_self_healable_reason (disabled_reason e));
            healed = map (\<lambda>e. (eid e, family_key_ref e)) (filter ready (pool m));
            m1 = m\<lparr>last_self_heal_at := Some (at_instant E), self_heal_streak := inc32 (self_heal_streak m),
                   pool := map (\<lambda>e. if ready e then revive e else e) (pool m),
                   self_heal_revived := set (map fst healed)\<rparr> in
        penalties_of healed m1
      else m)"


subsection \<open>Refreshed tokens\<close>

text \<open>
  The write-back of a refresh: \<open>snapshot\<close> are the credentials the refresh started from, \<open>new_creds\<close>
  what it brought. The result says whether it was written.
\<close>

definition refresh_writeback :: "nat \<Rightarrow> kiro_credentials \<Rightarrow> kiro_credentials \<Rightarrow> token_manager \<Rightarrow>
    bool \<times> token_manager" where
  "refresh_writeback i snapshot new_creds m =
     (case find_entry i (pool m) of
        None \<Rightarrow> (True, m)
      | Some e \<Rightarrow>
          if refresh_token (credentials e) \<noteq> refresh_token snapshot then (False, m)
          else
            let new = snd (skip_stale_profile_arn_writeback (credentials e) new_creds snapshot);
                e' = e\<lparr>credentials := apply_refresh_result_fields new (credentials e),
                       family_cache := None, refresh_failure_count := 0\<rparr> in
            (True, m\<lparr>pool := update_entry i (\<lambda>_. e') (pool m)\<rparr>))"

definition resolved_arn_writeback :: "nat \<Rightarrow> kiro_credentials \<Rightarrow> string \<Rightarrow> token_manager \<Rightarrow> token_manager" where
  "resolved_arn_writeback i arn_creds arn m =
     m\<lparr>pool := update_entry i (\<lambda>e.
        if profile_arn (credentials e) \<noteq> profile_arn arn_creds then e
        else e\<lparr>credentials := snd (sync_region_from_arn ((credentials e)\<lparr>profile_arn := Some arn\<rparr>)),
               family_cache := None\<rparr>) (pool m)\<rparr>"

definition token_ready :: "nat \<Rightarrow> token_manager \<Rightarrow> token_manager" where
  "token_ready i m = m\<lparr>pool := update_entry i (\<lambda>e. e\<lparr>refresh_failure_count := 0\<rparr>) (pool m)\<rparr>"

subsection \<open>Administration\<close>

datatype admin_error =
  NoSuchCredential nat | ConfigInvalid nat | NotDisabled nat | TrashNotWritten | NotInTrash nat
| DuplicateKey | DuplicateToken | AlreadyPresent

definition set_disabled :: "call_env \<Rightarrow> nat \<Rightarrow> bool \<Rightarrow> token_manager \<Rightarrow> admin_error + token_manager" where
  "set_disabled E i off m =
     (case find_entry i (pool m) of
        None \<Rightarrow> Err (NoSuchCredential i)
      | Some e \<Rightarrow>
          if off
          then Ok (unbind i (m\<lparr>pool := update_entry i (disable_with Manual (at_utc E)) (pool m)\<rparr>))
          else Ok (clear_revive_side_penalties i (family_key (credentials e) i)
                     (m\<lparr>pool := update_entry i (\<lambda>e. (clear_transient_counters (e\<lparr>disabled := False\<rparr>))
                        \<lparr>disabled_reason := None, quota_exhausted_at := None, disabled_at := None\<rparr>) (pool m)\<rparr>)))"

definition set_priority :: "nat \<Rightarrow> nat \<Rightarrow> token_manager \<Rightarrow> admin_error + token_manager" where
  "set_priority i p m =
     (case find_entry i (pool m) of
        None \<Rightarrow> Err (NoSuchCredential i)
      | Some _ \<Rightarrow> Ok (select_highest_priority (m\<lparr>pool := update_entry i
          (\<lambda>e. e\<lparr>credentials := (credentials e)\<lparr>priority := min p MAX_PRIORITY\<rparr>\<rparr>) (pool m)\<rparr>)))"

definition reset_and_enable :: "nat \<Rightarrow> token_manager \<Rightarrow> admin_error + token_manager" where
  "reset_and_enable i m =
     (case find_entry i (pool m) of
        None \<Rightarrow> Err (NoSuchCredential i)
      | Some e \<Rightarrow>
          if disabled_reason e = Some InvalidConfig then Err (ConfigInvalid i)
          else Ok (clear_revive_side_penalties i (family_key (credentials e) i)
                 (m\<lparr>pool := update_entry i (\<lambda>e.
                    let e1 = (if disabled_reason e = Some RequestLimitReached then e\<lparr>request_count := 0\<rparr> else e) in
                    (clear_transient_counters e1)\<lparr>disabled := False, disabled_reason := None,
                       quota_exhausted_at := None, disabled_at := None\<rparr>) (pool m)\<rparr>)))"

datatype probe_outcome = NoUsableRegion | TokenDead | OtherOutcome

definition mark_region_probe_failed :: "call_env \<Rightarrow> nat \<Rightarrow> probe_outcome \<Rightarrow> token_manager \<Rightarrow> token_manager" where
  "mark_region_probe_failed E i outcome m =
     (case preserve_custom_api_state i m of
        Some _ \<Rightarrow> m
      | None \<Rightarrow>
          (case outcome of
             NoUsableRegion \<Rightarrow> m\<lparr>pool := update_entry i (disable_with RegionProbeFailed (at_utc E)) (pool m)\<rparr>
           | TokenDead \<Rightarrow> m\<lparr>pool := update_entry i (disable_with RegionProbeTokenDead (at_utc E)) (pool m)\<rparr>
           | OtherOutcome \<Rightarrow> m))"

definition set_clone_identity :: "nat \<Rightarrow> string option \<Rightarrow> nat option \<Rightarrow> token_manager \<Rightarrow>
    admin_error + token_manager" where
  "set_clone_identity i grp seq m =
     (case find_entry i (pool m) of
        None \<Rightarrow> Err (NoSuchCredential i)
      | Some _ \<Rightarrow> Ok (m\<lparr>pool := update_entry i
          (\<lambda>e. e\<lparr>credentials := (credentials e)\<lparr>clone_group := non_blank grp, clone_seq := seq\<rparr>,
                 family_cache := None\<rparr>) (pool m)\<rparr>))"

definition remove_entry :: "nat \<Rightarrow> credential_entry list \<Rightarrow> credential_entry list" where
  "remove_entry i es = takeWhile (\<lambda>e. eid e \<noteq> i) es @ drop 1 (dropWhile (\<lambda>e. eid e \<noteq> i) es)"

definition is_trashed :: "nat \<Rightarrow> trash_entry \<Rightarrow> bool" where
  "is_trashed i t \<longleftrightarrow> cred_id (trashed t) = Some i"

definition take_trash :: "nat \<Rightarrow> trash_entry list \<Rightarrow> trash_entry list" where
  "take_trash i ts = takeWhile (\<lambda>t. \<not> is_trashed i t) ts @ drop 1 (dropWhile (\<lambda>t. \<not> is_trashed i t) ts)"

definition entry_of_trash :: "nat \<Rightarrow> trash_entry \<Rightarrow> kiro_credentials \<Rightarrow> bool \<Rightarrow> disabled_reason option \<Rightarrow>
    string option \<Rightarrow> credential_entry" where
  "entry_of_trash i t cred off r at_time =
     \<lparr>eid = i, credentials = cred, failure_count = 0, refresh_failure_count = 0,
      consecutive_suspicious = 0, consecutive_passthrough_failures = 0, last_failure_at = None,
      disabled = off, disabled_reason = r, disabled_at = at_time,
      quota_exhausted_at = cred_quota_exhausted_at cred, success_count = trashed_success_count t,
      request_count = trashed_request_count t, total_credits_used = trashed_total_credits_used t,
      last_used_at = trashed_last_used_at t,
      family_cache = Some (family_key cred i)\<rparr>"

text \<open>
  Deleting moves the entry into the trash and clears the tables of its number; if the trash cannot be
  written (\<open>persisted = False\<close>) the entry is put back, the tables stay cleared.
\<close>

definition discard :: "call_env \<Rightarrow> nat \<Rightarrow> credential_entry \<Rightarrow> token_manager \<Rightarrow> token_manager" where
  "discard E i e m =
     (let cred = (credentials e)\<lparr>cred_id := Some (eid e), cred_disabled := disabled e,
                   cred_disabled_reason := disabled_reason e, cred_disabled_at := disabled_at e,
                   cred_quota_exhausted_at := quota_exhausted_at e\<rparr>;
          t = \<lparr>trashed = cred, deleted_at = at_utc E, trashed_success_count = success_count e,
               trashed_request_count = request_count e,
               trashed_total_credits_used = total_credits_used e, trashed_last_used_at = last_used_at e\<rparr>;
          m1 = m\<lparr>pool := remove_entry i (pool m), trash := trash m @ [t]\<rparr>;
          m2 = (unbind i m1)\<lparr>cooldown_table := snd (clear_cooldown i (cooldown_table m1)),
                 rpm_table := snd (rpm_remove i (rpm_table m1)),
                 model_blocklist := retain (\<lambda>(c, _) _. c \<noteq> i) (model_blocklist m1),
                 limiter := rate_reset i (limiter m1)\<rparr>;
          m3 = (if current_id m = i then select_highest_priority m2 else m2) in
      if pool m3 = [] then m3\<lparr>current_id := 0\<rparr> else m3)"

definition put_back :: "nat \<Rightarrow> token_manager \<Rightarrow> token_manager" where
  "put_back i m =
     (case find (is_trashed i) (trash m) of
        None \<Rightarrow> m
      | Some t \<Rightarrow>
          let cred = (trashed t)\<lparr>cred_id := Some i\<rparr>;
              e = entry_of_trash i t cred (cred_disabled cred)
                    (if cred_disabled cred then cred_disabled_reason cred else None)
                    (cred_disabled_at cred) in
          m\<lparr>trash := take_trash i (trash m), pool := pool m @ [e]\<rparr>)"

definition delete_credential_forced :: "call_env \<Rightarrow> bool \<Rightarrow> nat \<Rightarrow> bool \<Rightarrow> token_manager \<Rightarrow>
    (admin_error + unit) \<times> token_manager" where
  "delete_credential_forced E persisted i force m =
     (case find_entry i (pool m) of
        None \<Rightarrow> (Err (NoSuchCredential i), m)
      | Some e \<Rightarrow>
          if \<not> disabled e \<and> \<not> force then (Err (NotDisabled i), m)
          else if persisted then (Ok (), discard E i e m)
          else (Err TrashNotWritten, put_back i (discard E i e m)))"

definition delete_credential :: "call_env \<Rightarrow> bool \<Rightarrow> nat \<Rightarrow> token_manager \<Rightarrow>
    (admin_error + unit) \<times> token_manager" where
  "delete_credential E persisted i m = delete_credential_forced E persisted i False m"

definition load_trash :: "trash_entry list \<Rightarrow> token_manager \<Rightarrow> token_manager" where
  "load_trash ts m =
     m\<lparr>trash := ts,
       next_id := (case List.map_filter (\<lambda>t. cred_id (trashed t)) ts of
                     [] \<Rightarrow> next_id m | i # rest \<Rightarrow> max (next_id m) (foldr max rest i + 1))\<rparr>"

text \<open>Whether a secret is already in the pool; \<open>sha256\<close> is the hash.\<close>

definition has_hash :: "(string \<Rightarrow> string) \<Rightarrow> (kiro_credentials \<Rightarrow> string option) \<Rightarrow> string \<Rightarrow>
    credential_entry list \<Rightarrow> bool" where
  "has_hash sha256 f secret es \<longleftrightarrow> list_ex (\<lambda>e. map_option sha256 (f (credentials e)) = Some (sha256 secret)) es"

definition restore_credential :: "call_env \<Rightarrow> (string \<Rightarrow> string) \<Rightarrow> nat \<Rightarrow> bool \<Rightarrow> token_manager \<Rightarrow>
    admin_error + token_manager" where
  "restore_credential E sha256 i force m =
     (case find (is_trashed i) (trash m) of
        None \<Rightarrow> Err (NotInTrash i)
      | Some t \<Rightarrow>
          let cred = trashed t in
          if \<not> force \<and> is_api_key_credential cred \<and>
             (case kiro_api_key cred of Some k \<Rightarrow> has_hash sha256 kiro_api_key k (pool m) | None \<Rightarrow> False)
          then Err DuplicateKey
          else if \<not> force \<and> \<not> is_api_key_credential cred \<and>
             (case refresh_token cred of Some k \<Rightarrow> has_hash sha256 refresh_token k (pool m) | None \<Rightarrow> False)
          then Err DuplicateToken
          else
            let r = or_opt (cred_disabled_reason cred) (Some Manual);
                at_time = or_opt (cred_disabled_at cred) (Some (at_utc E));
                cred' = cred\<lparr>cred_id := Some i, cred_disabled := True, cred_disabled_reason := r,
                             cred_disabled_at := at_time\<rparr> in
            Ok (m\<lparr>trash := take_trash i (trash m),
                  pool := pool m @ [entry_of_trash i t cred' True r at_time]\<rparr>))"

definition purge_credential :: "nat \<Rightarrow> token_manager \<Rightarrow> admin_error + token_manager" where
  "purge_credential i m =
     (case find (is_trashed i) (trash m) of
        None \<Rightarrow> Err (NotInTrash i)
      | Some _ \<Rightarrow> Ok (m\<lparr>trash := take_trash i (trash m)\<rparr>))"


text \<open>
  A validated credential enters the pool; its number is taken even if the check for duplicates under
  the lock then refuses it.
\<close>

definition relay_secret :: "kiro_credentials \<Rightarrow> string option" where
  "relay_secret c =
     (if is_custom_api_credential c
      then Some ((case base_url c of Some u \<Rightarrow> u | None \<Rightarrow> []) @ ''|'' @ (case api_key c of Some k \<Rightarrow> k | None \<Rightarrow> []))
      else None)"

definition already_present :: "(string \<Rightarrow> string) \<Rightarrow> kiro_credentials \<Rightarrow> credential_entry list \<Rightarrow> bool" where
  "already_present sha256 c es \<longleftrightarrow>
     (case relay_secret c of
        Some s \<Rightarrow> has_hash sha256 relay_secret s es
      | None \<Rightarrow>
          (case kiro_api_key c of
             Some k \<Rightarrow> has_hash sha256 kiro_api_key k es
           | None \<Rightarrow>
               (case refresh_token c of
                  Some t \<Rightarrow> has_hash sha256 refresh_token t es
                | None \<Rightarrow> False)))"

definition add_validated :: "(string \<Rightarrow> string) \<Rightarrow> bool \<Rightarrow> kiro_credentials \<Rightarrow> token_manager \<Rightarrow>
    (admin_error + nat) \<times> token_manager" where
  "add_validated sha256 allow_duplicate c0 m =
     (let new_id = next_id m;
          m1 = m\<lparr>next_id := new_id + 1\<rparr>;
          c = snd (sync_region_from_arn (c0\<lparr>cred_id := Some new_id\<rparr>));
          e = (entry_new new_id c)\<lparr>disabled_at := None, quota_exhausted_at := None,
                disabled_reason := (if cred_disabled c then Some Manual else None)\<rparr> in
      if \<not> allow_duplicate \<and> already_present sha256 c (pool m1) then (Err AlreadyPresent, m1)
      else (Ok new_id, m1\<lparr>pool := pool m1 @ [e]\<rparr>))"

subsection \<open>Sequences of calls\<close>

datatype pool_op =
  Succeed nat
| Fail nat
| Limited nat "nat option" "string option"
| ServerFault nat
| Suspect nat
| AuthCool nat
| AuthCoolBriefly nat
| NoModel nat "string option"
| OutOfQuota nat
| Ban nat
| RefreshFail nat bool
| TokenInvalid nat
| Relayed nat relay_outcome
| RelayFailed nat
| RelayCool nat nat cooldown_reason
| ProbeFailed nat probe_outcome
| WriteBack nat kiro_credentials kiro_credentials
| ResolvedArn nat kiro_credentials string
| TokenReady nat
| Selected nat
| SwitchNext
| RecoverQuota wall_clock
| SelfHeal heal_config
| SetDisabled nat bool
| SetPriority nat nat
| ResetEnable nat
| SetClone nat "string option" "nat option"
| Delete bool nat bool
| Restore "string \<Rightarrow> string" nat bool
| Purge nat
| Add "string \<Rightarrow> string" bool kiro_credentials

definition or_same :: "token_manager \<Rightarrow> 'e + token_manager \<Rightarrow> token_manager" where
  "or_same m r = (case r of Inl _ \<Rightarrow> m | Inr m' \<Rightarrow> m')"

fun pool_step :: "call_env \<Rightarrow> pool_op \<Rightarrow> token_manager \<Rightarrow> token_manager" where
  "pool_step E (Succeed i) m = report_success E i m"
| "pool_step E (Fail i) m = snd (report_failure E i m)"
| "pool_step E (Limited i s u) m = report_rate_limited_for_session E i s u m"
| "pool_step E (ServerFault i) m = report_server_error E i m"
| "pool_step E (Suspect i) m = report_suspicious_activity E i m"
| "pool_step E (AuthCool i) m = report_auth_cooldown E i m"
| "pool_step E (AuthCoolBriefly i) m = report_auth_transient_cooldown E i m"
| "pool_step E (NoModel i s) m = snd (report_model_invalid E i s m)"
| "pool_step E (OutOfQuota i) m = snd (report_quota_exhausted E i m)"
| "pool_step E (Ban i) m = snd (report_account_suspended E i m)"
| "pool_step E (RefreshFail i b) m = snd (report_refresh_failure_classified E i b m)"
| "pool_step E (TokenInvalid i) m = snd (report_refresh_token_invalid E i m)"
| "pool_step E (Relayed i r) m = record_passthrough_result E i r m"
| "pool_step E (RelayFailed i) m = mark_passthrough_failure E i m"
| "pool_step E (RelayCool i s r) m = snd (cooldown_custom_api E i s r m)"
| "pool_step E (ProbeFailed i r) m = mark_region_probe_failed E i r m"
| "pool_step E (WriteBack i s n) m = snd (refresh_writeback i s n m)"
| "pool_step E (ResolvedArn i s a) m = resolved_arn_writeback i s a m"
| "pool_step E (TokenReady i) m = token_ready i m"
| "pool_step E (Selected i) m = m\<lparr>current_id := i\<rparr>"
| "pool_step E SwitchNext m = snd (switch_to_next m)"
| "pool_step E (RecoverQuota w) m = snd (recover_expired_quota_disables E w m)"
| "pool_step E (SelfHeal cfg) m = self_heal E cfg m"
| "pool_step E (SetDisabled i b) m = or_same m (set_disabled E i b m)"
| "pool_step E (SetPriority i p) m = or_same m (set_priority i p m)"
| "pool_step E (ResetEnable i) m = or_same m (reset_and_enable i m)"
| "pool_step E (SetClone i g s) m = or_same m (set_clone_identity i g s m)"
| "pool_step E (Delete b i f) m = snd (delete_credential_forced E b i f m)"
| "pool_step E (Restore h i f) m = or_same m (restore_credential E h i f m)"
| "pool_step E (Purge i) m = or_same m (purge_credential i m)"
| "pool_step E (Add h d c) m = snd (add_validated h d c m)"

fun pool_run :: "(call_env \<times> pool_op) list \<Rightarrow> token_manager \<Rightarrow> token_manager" where
  "pool_run [] m = m"
| "pool_run ((E, x) # xs) m = pool_run xs (pool_step E x m)"

end
