(* ===== verification/PoolLaws.thy ===== *)
theory PoolLaws
  imports Pool
begin

text \<open>
  What the credential pool promises: the invariant of its entries and numbers over every sequence of
  calls, who may bring a disabled credential back, when failures of requests disable one, what the
  reports answer, and the two behaviours the comments of the code exclude.
\<close>

subsection \<open>What leaves the pool alone\<close>

lemma side_tables [simp]:
  "pool (clear_streaks i m) = pool m"
  "pool (unbind i m) = pool m"
  "pool (limiter_failure E i m) = pool m"
  "pool (cool E i r m) = pool m"
  "pool (cool_briefly E i r m) = pool m"
  "pool (clear_revive_side_penalties i k m) = pool m"
  "pool (snd (switch_current m)) = pool m"
  "pool (select_highest_priority m) = pool m"
  "pool (snd (is_model_blocked now i s m)) = pool m"
  "trash (clear_streaks i m) = trash m"
  "trash (unbind i m) = trash m"
  "trash (limiter_failure E i m) = trash m"
  "trash (cool E i r m) = trash m"
  "trash (cool_briefly E i r m) = trash m"
  "trash (clear_revive_side_penalties i k m) = trash m"
  "trash (snd (switch_current m)) = trash m"
  "trash (select_highest_priority m) = trash m"
  "trash (snd (is_model_blocked now i s m)) = trash m"
  "next_id (clear_streaks i m) = next_id m"
  "next_id (unbind i m) = next_id m"
  "next_id (limiter_failure E i m) = next_id m"
  "next_id (cool E i r m) = next_id m"
  "next_id (cool_briefly E i r m) = next_id m"
  "next_id (clear_revive_side_penalties i k m) = next_id m"
  "next_id (snd (switch_current m)) = next_id m"
  "next_id (select_highest_priority m) = next_id m"
  "next_id (snd (is_model_blocked now i s m)) = next_id m"
  by (simp_all add: clear_streaks_def unbind_def limiter_failure_def cool_def cool_briefly_def
      clear_revive_side_penalties_def switch_current_def select_highest_priority_def
      is_model_blocked_def split: option.splits)

lemma side_tables_lists [simp]:
  "pool (snd (count_selectable now s es m)) = pool m"
  "trash (snd (count_selectable now s es m)) = trash m"
  "next_id (snd (count_selectable now s es m)) = next_id m"
  by (induction es arbitrary: m) (auto simp: split_beta Let_def)

lemma penalties_side_tables [simp]:
  "pool (penalties_of ks m) = pool m" "trash (penalties_of ks m) = trash m"
  "next_id (penalties_of ks m) = next_id m"
  unfolding penalties_of_def by (induction ks arbitrary: m) (simp_all add: split_beta)

lemma unbind_side_tables [simp]:
  "pool (foldl (\<lambda>m i. unbind i m) m is1) = pool m" "trash (foldl (\<lambda>m i. unbind i m) m is1) = trash m"
  "next_id (foldl (\<lambda>m i. unbind i m) m is1) = next_id m"
  by (induction is1 arbitrary: m) simp_all

subsection \<open>Changes in place\<close>

text \<open>What a call does to the entries, one by one, with the trash and the numbering left alone.\<close>

definition evolves :: "(credential_entry \<Rightarrow> credential_entry \<Rightarrow> bool) \<Rightarrow> token_manager \<Rightarrow> token_manager \<Rightarrow> bool" where
  "evolves R m m' \<longleftrightarrow> list_all2 R (pool m) (pool m') \<and> trash m' = trash m \<and> next_id m' = next_id m"

lemma find_entry_SomeD: "find_entry i es = Some e \<Longrightarrow> e \<in> set es \<and> eid e = i"
  by (auto simp: find_entry_def find_Some_iff)

lemma find_entry_None: "find_entry i es = None \<longleftrightarrow> (\<forall>e\<in>set es. eid e \<noteq> i)"
  by (auto simp: find_entry_def find_None_iff)

lemma find_entry_simps [simp]:
  "find_entry i [] = None" "find_entry i (e # es) = (if eid e = i then Some e else find_entry i es)"
  by (simp_all add: find_entry_def)

lemma update_entry_found:
  assumes "\<And>e. R e e" and "\<And>e. find_entry i es = Some e \<Longrightarrow> R e (f e)"
  shows "list_all2 R es (update_entry i f es)"
  using assms(2) by (induction es) (auto simp: assms(1) list.rel_refl)

lemma update_entry_const:
  "find_entry i es = Some e \<Longrightarrow> update_entry i (\<lambda>_. f e) es = update_entry i f es"
  by (induction es) (auto split: if_splits)

lemma list_all2_map_self: "(\<And>e. e \<in> set es \<Longrightarrow> R e (f e)) \<Longrightarrow> list_all2 R es (map f es)"
  by (induction es) auto

lemma evolves_refl: "(\<And>e. R e e) \<Longrightarrow> evolves R m m"
  by (simp add: evolves_def list.rel_refl)

lemma evolves_update:
  "(\<And>e. R e e) \<Longrightarrow> (\<And>e. find_entry i (pool m) = Some e \<Longrightarrow> R e (f e)) \<Longrightarrow>
    pool m' = update_entry i f (pool m) \<Longrightarrow> trash m' = trash m \<Longrightarrow> next_id m' = next_id m \<Longrightarrow> evolves R m m'"
  by (simp add: evolves_def update_entry_found)

lemma evolves_updated:
  "(\<And>e. R e e) \<Longrightarrow> (\<And>e. find_entry i (pool m) = Some e \<Longrightarrow> R e (f e)) \<Longrightarrow>
    evolves R m (m\<lparr>pool := update_entry i f (pool m)\<rparr>)"
  by (rule evolves_update [where f = f and i = i]) simp_all

lemma evolves_map:
  "(\<And>e. e \<in> set (pool m) \<Longrightarrow> R e (f e)) \<Longrightarrow> pool m' = map f (pool m) \<Longrightarrow>
    trash m' = trash m \<Longrightarrow> next_id m' = next_id m \<Longrightarrow> evolves R m m'"
  by (simp add: evolves_def list_all2_map_self)


text \<open>A well-formed entry: disabled exactly if a reason is recorded, the cached family the true one.\<close>

definition entry_ok :: "credential_entry \<Rightarrow> bool" where
  "entry_ok e \<longleftrightarrow> (disabled e \<longleftrightarrow> disabled_reason e \<noteq> None) \<and>
     family_cache e \<in> {None, Some (family_key (credentials e) (eid e))}"

definition comes_back :: "disabled_reason option \<Rightarrow> bool" where
  "comes_back r \<longleftrightarrow> is_self_healable_reason r \<or> r = Some QuotaExceeded"

definition keeps_ok :: "credential_entry \<Rightarrow> credential_entry \<Rightarrow> bool" where
  "keeps_ok e e' \<longleftrightarrow> eid e' = eid e \<and> (entry_ok e \<longrightarrow> entry_ok e')"

definition auto_change :: "credential_entry \<Rightarrow> credential_entry \<Rightarrow> bool" where
  "auto_change e e' \<longleftrightarrow> keeps_ok e e' \<and>
     (disabled e \<and> \<not> comes_back (disabled_reason e) \<longrightarrow>
        disabled e' \<and> disabled_reason e' = disabled_reason e)"

lemma keeps_ok_refl [simp]: "keeps_ok e e" by (simp add: keeps_ok_def)
lemma auto_change_refl [simp]: "auto_change e e" by (simp add: auto_change_def)

lemma auto_changeI:
  "disabled e' = disabled e \<Longrightarrow> disabled_reason e' = disabled_reason e \<Longrightarrow> eid e' = eid e \<Longrightarrow>
    credentials e' = credentials e \<Longrightarrow>
    family_cache e' = family_cache e \<or> family_cache e' = Some (family_key (credentials e) (eid e)) \<Longrightarrow> auto_change e e'"
  by (auto simp: auto_change_def keeps_ok_def entry_ok_def)

lemma auto_change_disable:
  "\<not> disabled e \<Longrightarrow> disabled e' \<Longrightarrow> disabled_reason e' \<noteq> None \<Longrightarrow> eid e' = eid e \<Longrightarrow>
    credentials e' = credentials e \<Longrightarrow> family_cache e' = family_cache e \<Longrightarrow> auto_change e e'"
  by (auto simp: auto_change_def keeps_ok_def entry_ok_def)

lemma disable_with_simps [simp]:
  "disabled (disable_with r t e)" "disabled_reason (disable_with r t e) = Some r"
  "eid (disable_with r t e) = eid e" "credentials (disable_with r t e) = credentials e"
  "family_cache (disable_with r t e) = family_cache e"
  by (simp_all add: disable_with_def)

lemma family_key_cached_simps [simp]:
  "disabled (snd (family_key_cached e)) = disabled e"
  "disabled_reason (snd (family_key_cached e)) = disabled_reason e"
  "eid (snd (family_key_cached e)) = eid e" "credentials (snd (family_key_cached e)) = credentials e"
  "failure_count (snd (family_key_cached e)) = failure_count e"
  "family_cache (snd (family_key_cached e)) = family_cache e \<or>
    family_cache (snd (family_key_cached e)) = Some (family_key (credentials e) (eid e))"
  by (simp_all add: family_key_cached_def Let_def split: option.split)

lemma clear_transient_counters_simps [simp]:
  "disabled (clear_transient_counters e) = disabled e"
  "disabled_reason (clear_transient_counters e) = disabled_reason e"
  "eid (clear_transient_counters e) = eid e" "credentials (clear_transient_counters e) = credentials e"
  "family_cache (clear_transient_counters e) = family_cache e"
  by (simp_all add: clear_transient_counters_def)

lemma revive_simps [simp]:
  "\<not> disabled (revive e)" "disabled_reason (revive e) = None" "eid (revive e) = eid e"
  "credentials (revive e) = credentials e"
  by (simp_all add: revive_def)

lemma auto_change_revive:
  assumes "disabled e \<Longrightarrow> comes_back (disabled_reason e)"
  shows "auto_change e (revive (e\<lparr>quota_exhausted_at := q\<rparr>))" "auto_change e (revive e)"
  using assms
  by (auto simp: auto_change_def keeps_ok_def entry_ok_def revive_def family_key_cached_def
      clear_transient_counters_def Let_def split: option.split)

lemma auto_change_trans: "auto_change a b \<Longrightarrow> auto_change b c \<Longrightarrow> auto_change a c"
  by (auto simp: auto_change_def keeps_ok_def)

lemma auto_note_success: "auto_change e (note_success E e)"
  by (rule auto_changeI) (simp_all add: note_success_def)

lemma auto_absolve: "auto_change e (absolve fam e)"
  by (rule auto_changeI) (auto simp: absolve_def family_key_cached_def Let_def split: option.splits)

lemma auto_note_failure: "\<not> disabled e \<Longrightarrow> auto_change e (note_failure E e)"
  by (auto simp: note_failure_def Let_def intro: auto_changeI auto_change_disable)

lemma auto_note_refresh_failure: "\<not> disabled e \<Longrightarrow> auto_change e (note_refresh_failure E e)"
  by (auto simp: note_refresh_failure_def Let_def intro: auto_changeI auto_change_disable)

lemma auto_report_success: "evolves auto_change m (report_success E i m)"
proof -
  have 1: "list_all2 auto_change (pool m) (update_entry i (note_success E) (pool m))"
    by (rule update_entry_found) (simp_all add: auto_note_success)
  have 2: "list_all2 auto_change (pool m) (map (absolve fam) (update_entry i (note_success E) (pool m)))" for fam
    by (rule list_all2_trans [OF _ 1, of auto_change])
       (auto simp: auto_absolve intro: list_all2_map_self auto_change_trans)
  show ?thesis
    using 1 2 by (auto simp: report_success_def Let_def evolves_def)
qed

text \<open>The reports that disable an entry change nothing in the pool unless it is enabled and not relayed.\<close>

definition reports_on :: "nat \<Rightarrow> token_manager \<Rightarrow> bool" where
  "reports_on i m \<longleftrightarrow> preserve_custom_api_state i m = None \<and>
     (\<exists>e. find_entry i (pool m) = Some e \<and> \<not> disabled e)"

definition best_enabled :: "token_manager \<Rightarrow> bool" where
  "best_enabled m \<longleftrightarrow> (\<exists>e\<in>set (pool m). eid e = current_id m \<and> \<not> disabled e \<and>
     (\<forall>e'\<in>set (pool m). \<not> disabled e' \<longrightarrow> priority (credentials e) \<le> priority (credentials e')))"

text \<open>
  The reports that may disable one credential keep one contract: they change the entry they are
  about, if it is an enabled one of the pool and no relay, and nothing else of the pool; they answer
  whether an enabled entry is left; and after disabling one they make the best one left the current.
\<close>

lemma find_entry_updated:
  "find_entry i es = Some e \<Longrightarrow> eid (f e) = eid e \<Longrightarrow> find_entry i (update_entry i f es) = Some (f e)"
  by (induction es) (auto split: if_splits)

locale verdict =
  fixes i :: nat
    and mark :: "credential_entry \<Rightarrow> credential_entry"
    and report :: "token_manager \<Rightarrow> bool \<times> token_manager"
  assumes mark_ok: "\<not> disabled e \<Longrightarrow> auto_change e (mark e)"
    and pool_report: "pool (snd (report m)) =
      (if reports_on i m then update_entry i mark (pool m) else pool m)"
    and trash_report: "trash (snd (report m)) = trash m"
    and next_report: "next_id (snd (report m)) = next_id m"
    and answer: "fst (report m) = any_enabled (pool (snd (report m)))"
    and moves: "reports_on i m \<Longrightarrow> find_entry i (pool m) = Some e \<Longrightarrow> disabled (mark e) \<Longrightarrow>
      fst (report m) \<Longrightarrow> best_enabled (snd (report m))"
begin

lemma evolves_report: "evolves auto_change m (snd (report m))"
proof (cases "reports_on i m")
  case True
  then show ?thesis
    using pool_report trash_report next_report mark_ok
    by (intro evolves_update [where f = mark and i = i]) (auto simp: reports_on_def)
next
  case False
  then show ?thesis using pool_report trash_report next_report by (simp add: evolves_def list.rel_refl)
qed

lemma moved_on:
  assumes "report m = (b, m')" and "find_entry i (pool m) = Some e" and "\<not> disabled e"
    and "find_entry i (pool m') = Some e'" and "disabled e'" and b
  shows "best_enabled m'"
proof -
  have on: "reports_on i m"
    using pool_report [of m] assms by (auto split: if_splits)
  have "eid (mark e) = eid e" using mark_ok [OF assms(3)] by (simp add: auto_change_def keeps_ok_def)
  then have "find_entry i (update_entry i mark (pool m)) = Some (mark e)"
    using assms(2) by (simp add: find_entry_updated)
  then have "e' = mark e" using pool_report [of m] on assms(1, 4) by simp
  then show ?thesis using moves [OF on assms(2)] assms(1, 5, 6) by simp
qed

end

lemma switch_current_answer:
  "fst (switch_current m) = any_enabled (pool m)"
  "any_enabled (pool m) \<Longrightarrow> best_enabled (snd (switch_current m))"
proof -
  have none: "enabled_by_priority (pool m) = None \<longleftrightarrow> \<not> any_enabled (pool m)"
    by (auto simp: enabled_by_priority_def any_enabled_def list_ex_iff filter_empty_conv)
  then show "fst (switch_current m) = any_enabled (pool m)"
    by (auto simp: switch_current_def split: option.split)
  assume "any_enabled (pool m)"
  then obtain e where e: "enabled_by_priority (pool m) = Some e" using none by fastforce
  then have "e \<in> set (pool m) \<and> \<not> disabled e \<and>
      (\<forall>e'\<in>set (pool m). \<not> disabled e' \<longrightarrow> priority (credentials e) \<le> priority (credentials e'))"
    using min_by_key_Some [of "\<lambda>e. priority (credentials e)" "filter (\<lambda>e. \<not> disabled e) (pool m)" e]
    by (auto simp: enabled_by_priority_def)
  then show "best_enabled (snd (switch_current m))"
    using e by (auto simp: switch_current_def best_enabled_def)
qed

lemma best_enabled_side [simp]:
  "best_enabled (unbind i m) = best_enabled m" "best_enabled (limiter_failure E i m) = best_enabled m"
  by (simp_all add: best_enabled_def unbind_def limiter_failure_def)

lemma preserved_answer: "preserve_custom_api_state i m = Some b \<Longrightarrow> b = any_enabled (pool m)"
  by (simp add: preserve_custom_api_state_def split: if_splits)

interpretation failure: verdict i "note_failure E" "report_failure E i" for i E
proof unfold_locales
  fix m e
  show "\<not> disabled e \<Longrightarrow> auto_change e (note_failure E e)" by (rule auto_note_failure)
  show "pool (snd (report_failure E i m)) =
     (if reports_on i m then update_entry i (note_failure E) (pool m) else pool m)"
    by (auto simp: report_failure_def reports_on_def Let_def split: option.splits)
  show "trash (snd (report_failure E i m)) = trash m" "next_id (snd (report_failure E i m)) = next_id m"
    by (simp_all add: report_failure_def Let_def split: option.splits)
  show "fst (report_failure E i m) = any_enabled (pool (snd (report_failure E i m)))"
    by (auto simp: report_failure_def Let_def preserved_answer split: option.splits)
  assume "reports_on i m" "find_entry i (pool m) = Some e" "disabled (note_failure E e)" "fst (report_failure E i m)"
  then show "best_enabled (snd (report_failure E i m))"
    by (auto simp: report_failure_def Let_def reports_on_def intro!: switch_current_answer(2))
qed

interpretation refresh_failure: verdict i "note_refresh_failure E" "report_refresh_failure E i" for i E
proof unfold_locales
  fix m e
  show "\<not> disabled e \<Longrightarrow> auto_change e (note_refresh_failure E e)" by (rule auto_note_refresh_failure)
  show "pool (snd (report_refresh_failure E i m)) =
     (if reports_on i m then update_entry i (note_refresh_failure E) (pool m) else pool m)"
    by (auto simp: report_refresh_failure_def reports_on_def Let_def split_beta split: option.splits)
  show "trash (snd (report_refresh_failure E i m)) = trash m"
    "next_id (snd (report_refresh_failure E i m)) = next_id m"
    by (simp_all add: report_refresh_failure_def Let_def split_beta split: option.splits)
  show "fst (report_refresh_failure E i m) = any_enabled (pool (snd (report_refresh_failure E i m)))"
    by (auto simp: report_refresh_failure_def Let_def split_beta preserved_answer switch_current_answer
        split: option.splits)
  assume "reports_on i m" "find_entry i (pool m) = Some e" "disabled (note_refresh_failure E e)"
    "fst (report_refresh_failure E i m)"
  then show "best_enabled (snd (report_refresh_failure E i m))"
    by (auto simp: report_refresh_failure_def Let_def reports_on_def split_beta switch_current_answer
        intro!: switch_current_answer(2))
qed

lemma verdict_at_once:
  assumes "\<And>e. \<not> disabled e \<Longrightarrow> auto_change e (mark e)"
  shows "verdict i mark (disable_at_once i mark)"
proof unfold_locales
  fix m e
  show "\<not> disabled e \<Longrightarrow> auto_change e (mark e)" by (rule assms)
  show "pool (snd (disable_at_once i mark m)) = (if reports_on i m then update_entry i mark (pool m) else pool m)"
    by (auto simp: disable_at_once_def reports_on_def Let_def split_beta split: option.splits)
  show "trash (snd (disable_at_once i mark m)) = trash m" "next_id (snd (disable_at_once i mark m)) = next_id m"
    by (simp_all add: disable_at_once_def split_beta split: option.splits)
  show "fst (disable_at_once i mark m) = any_enabled (pool (snd (disable_at_once i mark m)))"
    by (auto simp: disable_at_once_def split_beta preserved_answer switch_current_answer split: option.splits)
  assume "reports_on i m" "fst (disable_at_once i mark m)"
  then show "best_enabled (snd (disable_at_once i mark m))"
    by (auto simp: disable_at_once_def reports_on_def split_beta switch_current_answer
        intro!: switch_current_answer(2))
qed

interpretation quota: verdict i "\<lambda>e. (disable_with QuotaExceeded (at_utc E) e)
       \<lparr>quota_exhausted_at := Some (at_utc E), last_used_at := Some (at_utc E),
        failure_count := MAX_FAILURES_PER_CREDENTIAL\<rparr>" "report_quota_exhausted E i" for i E
  unfolding report_quota_exhausted_def by (rule verdict_at_once; rule auto_change_disable; simp)

interpretation ban: verdict i "\<lambda>e. (disable_with disabled_reason.AccountSuspended (at_utc E) e)
       \<lparr>last_used_at := Some (at_utc E), failure_count := MAX_FAILURES_PER_CREDENTIAL\<rparr>"
    "report_account_suspended E i" for i E
  unfolding report_account_suspended_def by (rule verdict_at_once; rule auto_change_disable; simp)

interpretation token_invalid: verdict i "\<lambda>e. disable_with InvalidRefreshToken (at_utc E)
       (e\<lparr>last_used_at := Some (at_utc E)\<rparr>)" "report_refresh_token_invalid E i" for i E
  unfolding report_refresh_token_invalid_def by (rule verdict_at_once; rule auto_change_disable; simp)

lemmas auto_report_failure = failure.evolves_report
lemmas auto_report_refresh_failure = refresh_failure.evolves_report
lemmas auto_verdicts = quota.evolves_report ban.evolves_report token_invalid.evolves_report

lemma auto_suspected:
  "auto_change e (e\<lparr>consecutive_suspicious := n\<rparr>)"
  "\<not> disabled e \<Longrightarrow> auto_change e (disable_with r t (e\<lparr>consecutive_suspicious := n\<rparr>))"
  by (rule auto_changeI; simp) (rule auto_change_disable; simp)

lemma auto_suspect_family: "list_all2 auto_change es (snd (suspect_family E i auto es))"
  by (auto simp: suspect_family_def Let_def same_family_def list.rel_refl auto_suspected
      intro!: list_all2_map_self split: option.split)

lemma auto_report_suspicious: "evolves auto_change m (report_suspicious_activity E i m)"
proof (cases "preserve_custom_api_state i m")
  case (Some b)
  then show ?thesis by (simp add: report_suspicious_activity_def evolves_refl)
next
  case None
  let ?es = "update_entry i (\<lambda>e. e\<lparr>last_used_at := Some (at_utc E)\<rparr>) (pool m)"
  have 1: "list_all2 auto_change (pool m) ?es"
    by (rule update_entry_found) (auto intro: auto_changeI)
  have "list_all2 auto_change (pool m) (snd (suspect_family E i (auto_disable_suspicious m) ?es))"
    by (rule list_all2_trans [OF _ 1 auto_suspect_family]) (rule auto_change_trans)
  then show ?thesis using None
    by (simp add: report_suspicious_activity_def evolves_def Let_def split_beta
        clear_streaks_def)
qed

lemma evolves_same:
  "pool m' = pool m \<Longrightarrow> trash m' = trash m \<Longrightarrow> next_id m' = next_id m \<Longrightarrow> evolves auto_change m m'"
  by (simp add: evolves_def list.rel_refl)

lemma pool_untouched:
  "pool (report_rate_limited_for_session E i s u m) = pool m"
  "pool (report_server_error E i m) = pool m" "pool (report_auth_cooldown E i m) = pool m"
  "pool (report_auth_transient_cooldown E i m) = pool m"
  "pool (snd (report_model_invalid E i name m)) = pool m"
  "pool (snd (cooldown_custom_api E i k r m)) = pool m" "pool (snd (switch_to_next m)) = pool m"
  by (simp_all add: report_rate_limited_for_session_def report_rate_limited_with_retry_after_def
        report_server_error_def report_auth_cooldown_def report_auth_transient_cooldown_def
        report_model_invalid_def cooldown_custom_api_def switch_to_next_def Let_def split_beta
      split: option.split)

lemma auto_pool_untouched:
  "evolves auto_change m (report_rate_limited_for_session E i s u m)"
  "evolves auto_change m (report_server_error E i m)"
  "evolves auto_change m (report_auth_cooldown E i m)"
  "evolves auto_change m (report_auth_transient_cooldown E i m)"
  "evolves auto_change m (snd (report_model_invalid E i name m))"
  "evolves auto_change m (snd (cooldown_custom_api E i k r m))"
  "evolves auto_change m (snd (switch_to_next m))"
  "evolves auto_change m (m\<lparr>current_id := i\<rparr>)"
  by (rule evolves_same;
      simp add: pool_untouched report_rate_limited_for_session_def report_rate_limited_with_retry_after_def
        report_server_error_def report_auth_cooldown_def report_auth_transient_cooldown_def
        report_model_invalid_def cooldown_custom_api_def switch_to_next_def Let_def split_beta
      split: option.split)+

lemma auto_refresh_classified: "evolves auto_change m (snd (report_refresh_failure_classified E i b m))"
  using auto_report_refresh_failure [of m E i]
  by (auto simp: report_refresh_failure_classified_def Let_def evolves_refl intro: evolves_same split: option.split)

lemma auto_relayed:
  "evolves auto_change m (record_passthrough_result E i r m)"
  "evolves auto_change m (mark_passthrough_failure E i m)"
  "evolves auto_change m (token_ready i m)"
  unfolding record_passthrough_result_def mark_passthrough_failure_def token_ready_def
  by (rule evolves_updated; auto simp: Let_def intro!: auto_changeI
      split: relay_outcome.split)+

lemma auto_writebacks:
  "evolves auto_change m (snd (refresh_writeback i s n m))"
  "evolves auto_change m (resolved_arn_writeback i s a m)"
proof -
  have ch: "auto_change e e'" if "disabled e' = disabled e" "disabled_reason e' = disabled_reason e" "eid e' = eid e"
      "family_cache e' = None" for e e'
    using that by (auto simp: auto_change_def keeps_ok_def entry_ok_def)
  show "evolves auto_change m (resolved_arn_writeback i s a m)"
    unfolding resolved_arn_writeback_def
    by (rule evolves_updated) (auto intro: ch)
  show "evolves auto_change m (snd (refresh_writeback i s n m))"
  proof (cases "find_entry i (pool m)")
    case None
    then show ?thesis by (simp add: refresh_writeback_def evolves_refl)
  next
    case (Some e)
    let ?f = "\<lambda>e. e\<lparr>credentials := apply_refresh_result_fields
        (snd (skip_stale_profile_arn_writeback (credentials e) n s)) (credentials e),
        family_cache := None, refresh_failure_count := 0\<rparr>"
    have "evolves auto_change m (m\<lparr>pool := update_entry i ?f (pool m)\<rparr>)"
      by (rule evolves_updated) (auto intro: ch)
    then show ?thesis using Some update_entry_const [OF Some, of ?f]
      by (simp add: refresh_writeback_def Let_def evolves_refl)
  qed
qed

lemma auto_recoveries:
  "evolves auto_change m (snd (recover_expired_quota_disables E w m))"
  "evolves auto_change m (self_heal E cfg m)"
proof -
  show "evolves auto_change m (snd (recover_expired_quota_disables E w m))"
    unfolding recover_expired_quota_disables_def Let_def snd_conv
    by (rule evolves_map [where f = "\<lambda>e. if quota_recoverable (floats E) w (balance_snapshots m) e
          then revive (e\<lparr>quota_exhausted_at := None\<rparr>) else e"])
       (auto simp: quota_recoverable_def comes_back_def intro: auto_change_revive)
  have "evolves auto_change m (m\<lparr>last_self_heal_at := a, self_heal_streak := b, self_heal_revived := c,
      pool := map (\<lambda>e. if is_self_healable_reason (disabled_reason e) then revive e else e) (pool m)\<rparr>)" for a b c
    by (rule evolves_map [where f = "\<lambda>e. if is_self_healable_reason (disabled_reason e) then revive e else e"])
       (auto simp: comes_back_def intro: auto_change_revive)
  then show "evolves auto_change m (self_heal E cfg m)"
    by (simp add: self_heal_def Let_def evolves_refl) (simp add: evolves_def)
qed

lemma auto_probe: "evolves keeps_ok m (mark_region_probe_failed E i r m)"
proof -
  have "evolves keeps_ok m (m\<lparr>pool := update_entry i (disable_with x (at_utc E)) (pool m)\<rparr>)" for x
    by (rule evolves_updated) (auto simp: keeps_ok_def entry_ok_def)
  then show ?thesis
    by (simp add: mark_region_probe_failed_def evolves_refl split: option.split probe_outcome.split)
qed


subsection \<open>The invariant of the pool\<close>

definition ids :: "token_manager \<Rightarrow> nat list" where
  "ids m = map eid (pool m) @ map (\<lambda>t. the (cred_id (trashed t))) (trash m)"

definition pool_inv :: "token_manager \<Rightarrow> bool" where
  "pool_inv m \<longleftrightarrow> list_all entry_ok (pool m) \<and> distinct (ids m) \<and> (\<forall>i\<in>set (ids m). i < next_id m) \<and>
     (\<forall>t\<in>set (trash m). cred_id (trashed t) \<noteq> None)"

lemma evolves_mono: "evolves R m m' \<Longrightarrow> (\<And>a b. R a b \<Longrightarrow> S a b) \<Longrightarrow> evolves S m m'"
  by (auto simp: evolves_def elim: list_all2_mono)

lemma auto_keeps_ok: "evolves auto_change m m' \<Longrightarrow> evolves keeps_ok m m'"
  by (erule evolves_mono) (simp add: auto_change_def)

lemma pool_inv_evolves:
  assumes "pool_inv m" and "evolves keeps_ok m m'"
  shows "pool_inv m'"
proof -
  have all2: "list_all2 keeps_ok (pool m) (pool m')" using assms(2) by (simp add: evolves_def)
  then have "map eid (pool m') = map eid (pool m)"
    by (induction rule: list_all2_induct) (simp_all add: keeps_ok_def)
  moreover from all2 have "list_all entry_ok (pool m) \<Longrightarrow> list_all entry_ok (pool m')"
    by (induction rule: list_all2_induct) (simp_all add: keeps_ok_def)
  ultimately show ?thesis using assms by (simp add: pool_inv_def evolves_def ids_def)
qed

lemma mset_remove_entry:
  "find_entry i es = Some e \<Longrightarrow> mset es = add_mset e (mset (remove_entry i es))"
  by (induction es) (auto simp: remove_entry_def split: if_splits)

lemma mset_take_trash:
  "find (is_trashed i) ts = Some t \<Longrightarrow> mset ts = add_mset t (mset (take_trash i ts))"
  by (induction ts) (auto simp: take_trash_def split: if_splits)

lemma find_is_trashed: "find (is_trashed i) ts = Some t \<Longrightarrow> t \<in> set ts \<and> cred_id (trashed t) = Some i"
  by (auto simp: find_Some_iff is_trashed_def)

lemma set_remove_entry: "find_entry i es = Some e \<Longrightarrow> set (remove_entry i es) \<subseteq> set es"
  by (metis mset_remove_entry set_mset_add_mset_insert set_mset_mset subset_insertI)

lemma set_take_trash: "find (is_trashed i) ts = Some t \<Longrightarrow> set (take_trash i ts) \<subseteq> set ts"
  by (metis mset_take_trash set_mset_add_mset_insert set_mset_mset subset_insertI)

text \<open>The numbers may move between pool and trash.\<close>

lemma pool_inv_moved:
  assumes "pool_inv m" and "mset (ids m') = mset (ids m)" and "next_id m' = next_id m"
    and "list_all entry_ok (pool m')" and "\<forall>t\<in>set (trash m'). cred_id (trashed t) \<noteq> None"
  shows "pool_inv m'"
  using assms mset_eq_setD [OF assms(2)] mset_eq_imp_distinct_iff [OF assms(2)]
  by (simp add: pool_inv_def)

lemma ids_mset: "mset (ids m) = image_mset eid (mset (pool m)) + image_mset (\<lambda>t. the (cred_id (trashed t))) (mset (trash m))"
  by (simp add: ids_def)

lemma entry_of_trash_ok: "off = (r \<noteq> None) \<Longrightarrow> entry_ok (entry_of_trash i t cred off r at_time)"
  by (simp add: entry_of_trash_def entry_ok_def)

lemma eid_entry_of_trash [simp]: "eid (entry_of_trash i t cred off r at_time) = i"
  by (simp add: entry_of_trash_def)

lemma find_append:
  "find P (xs @ ys) = (case find P xs of None \<Rightarrow> find P ys | Some x \<Rightarrow> Some x)"
  by (induction xs) simp_all

lemma discard_simps:
  "pool (discard E i e m) = remove_entry i (pool m)" "next_id (discard E i e m) = next_id m"
  "\<exists>t. trash (discard E i e m) = trash m @ [t] \<and> cred_id (trashed t) = Some (eid e) \<and>
     cred_disabled (trashed t) = disabled e \<and> cred_disabled_reason (trashed t) = disabled_reason e"
  by (simp_all add: discard_def Let_def)

lemma pool_inv_discard:
  assumes "pool_inv m" and "find_entry i (pool m) = Some e"
  shows "pool_inv (discard E i e m)"
proof -
  have i: "eid e = i" using find_entry_SomeD [OF assms(2)] by simp
  obtain t where t: "trash (discard E i e m) = trash m @ [t]" "cred_id (trashed t) = Some i"
    using discard_simps(3) [of E i e m] i by auto
  show ?thesis
  proof (rule pool_inv_moved [OF assms(1)])
    show "mset (ids (discard E i e m)) = mset (ids m)"
      using mset_remove_entry [OF assms(2)] i t by (simp add: ids_mset discard_simps)
    show "list_all entry_ok (pool (discard E i e m))"
      using assms set_remove_entry [OF assms(2)] by (auto simp: discard_simps pool_inv_def list_all_iff)
  qed (use assms t in \<open>auto simp: discard_simps pool_inv_def\<close>)
qed

text \<open>What comes back from the trash must be well-formed there.\<close>

lemma pool_inv_from_trash:
  assumes "pool_inv m" and "find (is_trashed i) (trash m) = Some t" and "eid e = i" and "entry_ok e"
  shows "pool_inv (m\<lparr>trash := take_trash i (trash m), pool := pool m @ [e]\<rparr>)"
proof (rule pool_inv_moved [OF assms(1)])
  show "mset (ids (m\<lparr>trash := take_trash i (trash m), pool := pool m @ [e]\<rparr>)) = mset (ids m)"
    using mset_take_trash [OF assms(2)] find_is_trashed [OF assms(2)] assms(3) by (simp add: ids_mset)
qed (use assms set_take_trash [OF assms(2)] in \<open>auto simp: pool_inv_def\<close>)

lemma trash_not_pool:
  assumes "pool_inv m" and "e \<in> set (pool m)" and "t \<in> set (trash m)"
  shows "cred_id (trashed t) \<noteq> Some (eid e)"
proof
  assume "cred_id (trashed t) = Some (eid e)"
  then have "eid e \<in> (\<lambda>t. the (cred_id (trashed t))) ` set (trash m)" using assms(3) by force
  moreover have "eid e \<in> set (map eid (pool m))" using assms(2) by simp
  ultimately show False using assms(1) by (auto simp: pool_inv_def ids_def)
qed

lemma pool_inv_delete:
  assumes "pool_inv m"
  shows "pool_inv (snd (delete_credential_forced E persisted i force m))"
proof (cases "find_entry i (pool m)")
  case None
  then show ?thesis using assms by (simp add: delete_credential_forced_def)
next
  case (Some e)
  let ?d = "discard E i e m"
  have e: "eid e = i" "e \<in> set (pool m)" using find_entry_SomeD [OF Some] by auto
  have inv: "pool_inv ?d" by (rule pool_inv_discard [OF assms Some])
  have ok: "entry_ok e" using assms e by (auto simp: pool_inv_def list_all_iff)
  obtain t where t: "trash ?d = trash m @ [t]" "cred_id (trashed t) = Some i"
      "cred_disabled (trashed t) = disabled e" "cred_disabled_reason (trashed t) = disabled_reason e"
    using discard_simps(3) [of E i e m] e by auto
  have "\<not> is_trashed i t'" if "t' \<in> set (trash m)" for t'
    using trash_not_pool [OF assms e(2) that] e(1) by (simp add: is_trashed_def)
  then have "find (is_trashed i) (trash m) = None" by (simp add: find_None_iff)
  then have "find (is_trashed i) (trash ?d) = Some t"
    using t by (simp add: find_append is_trashed_def)
  moreover let ?e = "entry_of_trash i t ((trashed t)\<lparr>cred_id := Some i\<rparr>) (disabled e)
      (if disabled e then disabled_reason e else None) (cred_disabled_at (trashed t))"
  have "entry_ok ?e" using ok by (intro entry_of_trash_ok) (auto simp: entry_ok_def)
  then have "pool_inv (?d\<lparr>trash := take_trash i (trash ?d), pool := pool ?d @ [?e]\<rparr>)"
    using calculation by (intro pool_inv_from_trash [OF inv]) simp_all
  ultimately have "pool_inv (put_back i ?d)"
    using t by (cases "disabled e") (simp_all add: put_back_def Let_def)
  then show ?thesis using inv assms Some by (simp add: delete_credential_forced_def)
qed


lemma evolves_or_same: "(\<And>m'. r = Inr m' \<Longrightarrow> evolves keeps_ok m m') \<Longrightarrow> evolves keeps_ok m (or_same m r)"
  by (cases r) (simp_all add: or_same_def evolves_refl)

lemma evolves_side:
  "evolves R m m' \<Longrightarrow> pool m'' = pool m' \<Longrightarrow> trash m'' = trash m' \<Longrightarrow> next_id m'' = next_id m' \<Longrightarrow> evolves R m m''"
  by (simp add: evolves_def)

lemma ok_set_disabled: "evolves keeps_ok m (or_same m (set_disabled E i b m))"
proof -
  have 1: "evolves keeps_ok m (m\<lparr>pool := update_entry i (disable_with Manual (at_utc E)) (pool m)\<rparr>)"
    by (rule evolves_updated) (auto simp: keeps_ok_def entry_ok_def)
  have 2: "evolves keeps_ok m (m\<lparr>pool := update_entry i (\<lambda>e. (clear_transient_counters (e\<lparr>disabled := False\<rparr>))
      \<lparr>disabled_reason := None, quota_exhausted_at := None, disabled_at := None\<rparr>) (pool m)\<rparr>)"
    by (rule evolves_updated) (auto simp: keeps_ok_def entry_ok_def)
  show ?thesis
    using evolves_side [OF 1] evolves_side [OF 2]
    by (auto intro!: evolves_or_same simp: set_disabled_def split: option.splits if_splits)
qed

lemma family_key_cong:
  "auth_method c = auth_method d \<Longrightarrow> issuer_url c = issuer_url d \<Longrightarrow> profile_arn c = profile_arn d \<Longrightarrow>
    kiro_api_key c = kiro_api_key d \<Longrightarrow> clone_group c = clone_group d \<Longrightarrow> family_key c i = family_key d i"
  unfolding family_key_def is_external_idp_credential_def is_api_key_credential_def clone_group_of_def
  by (simp only:)

lemma ok_set_priority: "evolves keeps_ok m (or_same m (set_priority i p m))"
proof -
  have k: "keeps_ok e (e\<lparr>credentials := (credentials e)\<lparr>priority := q\<rparr>\<rparr>)" for e q
    using family_key_cong [of "(credentials e)\<lparr>priority := q\<rparr>" "credentials e" "eid e"]
    by (auto simp: keeps_ok_def entry_ok_def)
  have "evolves keeps_ok m (m\<lparr>pool := update_entry i
      (\<lambda>e. e\<lparr>credentials := (credentials e)\<lparr>priority := min p MAX_PRIORITY\<rparr>\<rparr>) (pool m)\<rparr>)"
    by (rule evolves_updated) (auto intro: k)
  from evolves_side [OF this] show ?thesis
    by (auto intro!: evolves_or_same simp: set_priority_def split: option.splits)
qed

lemma ok_reset: "evolves keeps_ok m (or_same m (reset_and_enable i m))"
proof -
  have "evolves keeps_ok m (m\<lparr>pool := update_entry i (\<lambda>e.
      let e1 = (if disabled_reason e = Some RequestLimitReached then e\<lparr>request_count := 0\<rparr> else e) in
      (clear_transient_counters e1)\<lparr>disabled := False, disabled_reason := None,
        quota_exhausted_at := None, disabled_at := None\<rparr>) (pool m)\<rparr>)"
    by (rule evolves_updated) (auto simp: keeps_ok_def entry_ok_def Let_def)
  from evolves_side [OF this] show ?thesis
    by (auto intro!: evolves_or_same simp: reset_and_enable_def split: option.splits if_splits)
qed

lemma ok_clone: "evolves keeps_ok m (or_same m (set_clone_identity i g s m))"
proof -
  have "evolves keeps_ok m (m\<lparr>pool := update_entry i (\<lambda>e. e\<lparr>credentials := (credentials e)
      \<lparr>clone_group := non_blank g, clone_seq := s\<rparr>, family_cache := None\<rparr>) (pool m)\<rparr>)"
    by (rule evolves_updated) (auto simp: keeps_ok_def entry_ok_def)
  then show ?thesis
    by (auto intro!: evolves_or_same simp: set_clone_identity_def split: option.splits)
qed

lemma pool_inv_restore:
  assumes "pool_inv m"
  shows "pool_inv (or_same m (restore_credential E h i f m))"
proof (cases "find (is_trashed i) (trash m)")
  case None
  then show ?thesis using assms by (simp add: restore_credential_def or_same_def)
next
  case (Some t)
  have "or_opt (cred_disabled_reason (trashed t)) (Some Manual) \<noteq> None"
    by (simp add: or_opt_def split: option.split)
  then show ?thesis using assms Some
    by (auto simp: restore_credential_def or_same_def Let_def entry_of_trash_ok
        intro!: pool_inv_from_trash split: option.split)
qed

lemma pool_inv_purge: "pool_inv m \<Longrightarrow> pool_inv (or_same m (purge_credential i m))"
proof (cases "find (is_trashed i) (trash m)")
  case (Some t)
  assume inv: "pool_inv m"
  let ?m' = "m\<lparr>trash := take_trash i (trash m)\<rparr>"
  have "mset (ids m) = mset (the (cred_id (trashed t)) # ids ?m')"
    using mset_take_trash [OF Some] by (simp add: ids_mset)
  then have "distinct (the (cred_id (trashed t)) # ids ?m') \<and> set (ids ?m') \<subseteq> set (ids m)"
    using inv mset_eq_imp_distinct_iff mset_eq_setD unfolding pool_inv_def by (metis list.set_intros(2) subsetI)
  then show ?thesis using inv Some set_take_trash [OF Some]
    by (auto simp: pool_inv_def purge_credential_def or_same_def)
qed (simp add: purge_credential_def or_same_def)

lemma pool_inv_add: "pool_inv m \<Longrightarrow> pool_inv (snd (add_validated h d c m))"
  by (auto simp: add_validated_def Let_def pool_inv_def ids_def entry_new_def entry_ok_def
      intro: less_SucI)

lemma pool_inv_step: "pool_inv m \<Longrightarrow> pool_inv (pool_step E x m)"
  using pool_inv_evolves [of m "pool_step E x m"]
  by (cases x)
     (simp_all add: auto_keeps_ok auto_report_success auto_report_failure auto_pool_untouched
       auto_report_suspicious auto_verdicts auto_refresh_classified auto_relayed auto_probe auto_writebacks
       auto_recoveries ok_set_disabled ok_set_priority ok_reset ok_clone pool_inv_delete
       pool_inv_restore pool_inv_purge pool_inv_add)

lemma pool_inv_run: "pool_inv m \<Longrightarrow> pool_inv (pool_run xs m)"
  by (induction xs m rule: pool_run.induct) (simp_all add: pool_inv_step)


subsection \<open>From the start\<close>

lemma duplicates_Nil: "duplicates xs = [] \<Longrightarrow> distinct xs"
proof (rule ccontr)
  assume "duplicates xs = []" and "\<not> distinct xs"
  then obtain i j where ij: "i < j" "j < length xs" "xs ! i = xs ! j"
    by (metis distinct_conv_nth linorder_neqE_nat)
  then have "(xs ! j, j) \<in> set (zip xs [0..<length xs])"
    by (metis add_0 in_set_zip length_upt minus_nat.diff_0 nth_upt fst_conv snd_conv)
  moreover have "xs ! j \<in> set (take j xs)" using ij by (auto simp: in_set_conv_nth intro!: exI [of _ i])
  ultimately have "(xs ! j, j) \<in> set (filter (\<lambda>(i, k). i \<in> set (take k xs)) (zip xs [0..<length xs]))"
    by auto
  with \<open>duplicates xs = []\<close> show False by (auto simp: duplicates_def)
qed

lemma cred_id_canonicalize [simp]: "cred_id (canonicalize_auth_method c) = cred_id c"
  by (simp add: canonicalize_auth_method_def Let_def split: option.split)

lemma entry_new_simps [simp]: "eid (entry_new i c) = i" "entry_ok (entry_new i c)"
  by (auto simp: entry_new_def entry_ok_def split: option.split)

lemma number_credentials_ok: "e \<in> set (number_credentials n cs) \<Longrightarrow> entry_ok e"
  by (induction n cs rule: number_credentials.induct) (auto simp: Let_def split: option.splits)

lemma number_credentials_bound:
  "e \<in> set (number_credentials n cs) \<Longrightarrow> (\<forall>c\<in>set cs. \<forall>i. cred_id c = Some i \<longrightarrow> i < n) \<Longrightarrow>
    eid e < n + length (filter (\<lambda>c. cred_id c = None) cs)"
proof (induction cs arbitrary: n)
  case (Cons c cs)
  show ?case
  proof (cases "cred_id c")
    case None
    then have "e = entry_new n ((canonicalize_auth_method c)\<lparr>cred_id := Some n\<rparr>) \<or> e \<in> set (number_credentials (n + 1) cs)"
      using Cons.prems(1) by (simp add: Let_def)
    then show ?thesis using Cons.IH [of "n + 1"] Cons.prems(2) None by (auto intro: less_SucI)
  next
    case (Some i)
    then have "e = entry_new i (canonicalize_auth_method c) \<or> e \<in> set (number_credentials n cs)"
      using Cons.prems(1) by (simp add: Let_def)
    then show ?thesis using Cons.IH [of n] Cons.prems(2) Some by (auto intro: trans_less_add1)
  qed
qed simp

lemma pool_after_penalties [simp]:
  "pool (foldl (\<lambda>m (i, key). clear_revive_side_penalties i key m) m ks) = pool m"
  "trash (foldl (\<lambda>m (i, key). clear_revive_side_penalties i key m) m ks) = trash m"
  "next_id (foldl (\<lambda>m (i, key). clear_revive_side_penalties i key m) m ks) = next_id m"
  using penalties_side_tables [of ks m] by (simp_all add: penalties_of_def)

lemma revive_legacy_ok: "entry_ok e \<Longrightarrow> entry_ok (revive_legacy e)" "eid (revive_legacy e) = eid e"
  using family_key_cong [of "(credentials e)\<lparr>cred_disabled := False, cred_disabled_reason := None,
      cred_disabled_at := None\<rparr>" "credentials e" "eid e"]
  by (auto simp: revive_legacy_def entry_ok_def)

lemma disable_with_ok: "entry_ok e \<Longrightarrow> entry_ok (disable_with r t e)"
  by (simp add: entry_ok_def)

lemma foldr_max_ge: "x \<in> set (b # xs) \<Longrightarrow> x \<le> foldr max xs (b :: nat)"
  by (induction xs) auto

lemma pool_inv_new:
  assumes "manager_new t cd on cfg rl auto creds = Ok m"
  shows "pool_inv m \<and> trash m = []"
proof -
  define n where "n = foldr max (List.map_filter cred_id creds) 0 + 1"
  define es0 where "es0 = number_credentials n creds"
  define es where "es = map (\<lambda>e. if invalid_config e then disable_with InvalidConfig t e else e) (map revive_legacy es0)"
  have d: "duplicates (map eid es) = []" and m: "pool m = es" "trash m = []"
      "next_id m = n + length (filter (\<lambda>c. cred_id c = None) creds)"
    using assms unfolding manager_new_def Let_def es_def es0_def n_def
    by (auto split: if_splits)
  have eids: "map eid es = map eid es0" by (simp add: es_def revive_legacy_ok)
  have "i < n" if "c \<in> set creds" "cred_id c = Some i" for c i
  proof -
    have "i \<in> set (List.map_filter cred_id creds)"
      using that by (force simp: List.map_filter_def)
    then show ?thesis using foldr_max_ge [of i 0] by (simp add: n_def less_Suc_eq_le)
  qed
  then have "eid e < next_id m" if "e \<in> set es0" for e
    using number_credentials_bound [of e n creds] that by (simp add: m es0_def)
  then have "\<forall>i\<in>set (map eid es). i < next_id m" unfolding eids by auto
  moreover have "list_all entry_ok es"
    using number_credentials_ok [of _ n creds] revive_legacy_ok(1) disable_with_ok
    by (auto simp: es_def es0_def list_all_iff)
  ultimately show ?thesis using duplicates_Nil [OF d] by (simp add: pool_inv_def ids_def m)
qed

lemma pool_inv_load_trash:
  assumes "pool_inv m" and "trash m = []" and "\<forall>t\<in>set ts. cred_id (trashed t) \<noteq> None"
    and "distinct (map (\<lambda>t. the (cred_id (trashed t))) ts)"
    and "\<forall>t\<in>set ts. \<forall>e\<in>set (pool m). cred_id (trashed t) \<noteq> Some (eid e)"
  shows "pool_inv (load_trash ts m)"
proof -
  let ?is = "List.map_filter (\<lambda>t. cred_id (trashed t)) ts"
  have "?is = map (\<lambda>t. the (cred_id (trashed t))) ts"
    using assms(3) by (induction ts) (auto simp: List.map_filter_def)
  then have b: "the (cred_id (trashed t)) < next_id (load_trash ts m)" if "t \<in> set ts" for t
  proof -
    have "the (cred_id (trashed t)) \<in> set ?is" using that \<open>?is = _\<close> by simp
    then obtain i rest where "?is = i # rest" "the (cred_id (trashed t)) \<in> set (i # rest)" by (cases ?is) auto
    moreover from this have "the (cred_id (trashed t)) \<le> foldr max rest i"
      by (intro foldr_max_ge) simp
    ultimately show ?thesis by (simp add: load_trash_def less_max_iff_disj less_Suc_eq_le)
  qed
  have le: "next_id m \<le> next_id (load_trash ts m)" by (simp add: load_trash_def split: list.split)
  have "i < next_id (load_trash ts m)" if "i \<in> eid ` set (pool m)" for i
  proof -
    have "i \<in> set (ids m)" using that by (simp add: ids_def)
    then have "i < next_id m" using assms(1) by (simp add: pool_inv_def)
    then show ?thesis using le by (rule less_le_trans)
  qed
  moreover have "eid ` set (pool m) \<inter> (\<lambda>t. the (cred_id (trashed t))) ` set ts = {}"
    using assms(3, 5) by fastforce
  moreover have "pool (load_trash ts m) = pool m" "trash (load_trash ts m) = ts"
    by (simp_all add: load_trash_def)
  moreover have "list_all entry_ok (pool m)" "distinct (map eid (pool m))"
    using assms(1) by (simp_all add: pool_inv_def ids_def)
  ultimately show ?thesis
    unfolding pool_inv_def ids_def using assms(3, 4) b by (simp add: ball_Un)
qed


text \<open>
  C5. From a start in which the trash carries no number of the pool, and whatever calls follow, an
  entry is disabled exactly if a reason is recorded for it, the family key it caches is the one its
  credentials give, and no number occurs twice, neither in the pool nor between pool and trash.\<close>
theorem pool_wellformed:
  assumes "manager_new t cd on cfg rl auto creds = Ok m"
    and "\<forall>x\<in>set ts. cred_id (trashed x) \<noteq> None"
    and "distinct (map (\<lambda>x. the (cred_id (trashed x))) ts)"
    and "\<forall>x\<in>set ts. \<forall>e\<in>set (pool m). cred_id (trashed x) \<noteq> Some (eid e)"
  shows "let m' = pool_run xs (load_trash ts m) in
    (\<forall>e\<in>set (pool m'). (disabled e \<longleftrightarrow> disabled_reason e \<noteq> None) \<and>
       family_key_ref e = family_key (credentials e) (eid e)) \<and>
    distinct (map eid (pool m') @ map (\<lambda>x. the (cred_id (trashed x))) (trash m'))"
proof -
  have "pool_inv (load_trash ts m)"
    using pool_inv_new [OF assms(1)] assms(2-4) by (intro pool_inv_load_trash) simp_all
  then have "pool_inv (pool_run xs (load_trash ts m))" by (rule pool_inv_run)
  then show ?thesis
    by (auto simp: Let_def pool_inv_def ids_def list_all_iff entry_ok_def family_key_ref_def split: option.split)
qed

subsection \<open>Who brings a credential back\<close>

text \<open>The calls by which an administrator acts on credential \<open>i\<close>.\<close>

fun acts_on :: "nat \<Rightarrow> pool_op \<Rightarrow> bool" where
  "acts_on i (SetDisabled j _) = (j = i)"
| "acts_on i (ResetEnable j) = (j = i)"
| "acts_on i (Delete _ j _) = (j = i)"
| "acts_on i (ProbeFailed j _) = (j = i)"
| "acts_on i _ = False"

definition out_for :: "nat \<Rightarrow> disabled_reason \<Rightarrow> credential_entry list \<Rightarrow> bool" where
  "out_for i r es \<longleftrightarrow> (\<exists>e\<in>set es. eid e = i \<and> disabled e \<and> disabled_reason e = Some r)"

lemma out_for_auto:
  assumes "evolves auto_change m m'" and "out_for i r (pool m)" and "\<not> comes_back (Some r)"
  shows "out_for i r (pool m')"
proof -
  have "list_all2 auto_change (pool m) (pool m')" using assms(1) by (simp add: evolves_def)
  then show ?thesis using assms(2, 3)
    by (induction rule: list_all2_induct) (auto simp: out_for_def auto_change_def keeps_ok_def)
qed

lemma out_for_update: "j \<noteq> i \<Longrightarrow> out_for i r es \<Longrightarrow> out_for i r (update_entry j f es)"
  by (induction es) (auto simp: out_for_def)

lemma out_for_update_same:
  "(\<And>e. eid (f e) = eid e \<and> disabled (f e) = disabled e \<and> disabled_reason (f e) = disabled_reason e) \<Longrightarrow>
    out_for i r es \<Longrightarrow> out_for i r (update_entry j f es)"
  by (induction es) (auto simp: out_for_def)

lemma out_for_remove: "j \<noteq> i \<Longrightarrow> out_for i r es \<Longrightarrow> out_for i r (remove_entry j es)"
  by (induction es) (auto simp: out_for_def remove_entry_def)

lemma out_for_append: "out_for i r es \<Longrightarrow> out_for i r (es @ es')"
  by (auto simp: out_for_def)

lemma out_for_or_same:
  "out_for i r (pool m) \<Longrightarrow> (\<And>m'. res = Inr m' \<Longrightarrow> out_for i r (pool m')) \<Longrightarrow>
    out_for i r (pool (or_same m res))"
  by (cases res) (simp_all add: or_same_def)

lemma out_for_step:
  assumes "out_for i r (pool m)" and "\<not> comes_back (Some r)" and "\<not> acts_on i x"
  shows "out_for i r (pool (pool_step E x m))"
proof -
  note auto = out_for_auto [OF _ assms(1, 2)]
  show ?thesis
  proof (cases x)
    case (ProbeFailed j p)
    then show ?thesis using assms
      by (auto simp: mark_region_probe_failed_def intro: out_for_update split: option.split probe_outcome.split)
  next
    case (SetDisabled j b)
    then show ?thesis using assms
      by (auto simp: set_disabled_def intro!: out_for_or_same out_for_update split: option.splits if_splits)
  next
    case (SetPriority j p)
    then show ?thesis using assms
      by (auto simp: set_priority_def intro!: out_for_or_same out_for_update_same split: option.splits)
  next
    case (ResetEnable j)
    then show ?thesis using assms
      by (auto simp: reset_and_enable_def intro!: out_for_or_same out_for_update split: option.splits if_splits)
  next
    case (SetClone j g s)
    then show ?thesis using assms
      by (auto simp: set_clone_identity_def intro!: out_for_or_same out_for_update_same split: option.splits)
  next
    case (Delete b j f)
    then have "out_for i r (remove_entry j (pool m))" using assms by (intro out_for_remove) auto
    then show ?thesis using assms(1) Delete
      by (auto simp: delete_credential_forced_def put_back_def discard_simps Let_def
          intro: out_for_append split: option.split)
  next
    case (Restore h j f)
    then show ?thesis using assms
      by (auto simp: restore_credential_def Let_def intro!: out_for_or_same out_for_append split: option.splits if_splits)
  next
    case (Purge j)
    then show ?thesis using assms
      by (auto simp: purge_credential_def intro!: out_for_or_same split: option.splits)
  next
    case (Add h d c)
    then show ?thesis using assms by (auto simp: add_validated_def Let_def intro: out_for_append)
  qed (simp_all add: assms(1) auto auto_report_success auto_report_failure auto_pool_untouched
      auto_report_suspicious auto_verdicts auto_refresh_classified auto_relayed auto_writebacks auto_recoveries)
qed

text \<open>
  C6. A credential that an administrator disabled, or that was found banned, without a valid token,
  misconfigured or unusable in every region, stays disabled for that reason through every sequence
  of reports, recoveries and actions on other credentials: only an administrator acting on it brings
  it back. The automatic recoveries are confined to failures, suspicion and used-up quotas.\<close>
theorem only_admin_revives:
  assumes "e \<in> set (pool m)" and "disabled e" and "disabled_reason e = Some r"
    and "r \<notin> {TooManyFailures, TooManyRefreshFailures, SuspiciousActivityAuto, QuotaExceeded}"
    and "list_all (\<lambda>(E, x). \<not> acts_on (eid e) x) xs"
  shows "\<exists>e'\<in>set (pool (pool_run xs m)). eid e' = eid e \<and> disabled e' \<and> disabled_reason e' = Some r"
proof -
  have "out_for (eid e) r (pool m)" using assms(1-3) by (auto simp: out_for_def)
  moreover have "\<not> comes_back (Some r)" using assms(4) by (simp add: comes_back_def is_self_healable_reason_def)
  ultimately have "out_for (eid e) r (pool (pool_run xs m))"
    using assms(5) by (induction xs m rule: pool_run.induct) (auto intro: out_for_step)
  then show ?thesis by (auto simp: out_for_def)
qed


text \<open>A small pool for the examples: three seconds into the process, everything switched on.\<close>

definition sample_env :: call_env where
  "sample_env = \<lparr>at_instant = secs 3, at_utc = ''2026-08-01T00:00:03Z'', esc_16 = (\<lambda>b n. b), esc_13 = (\<lambda>b n. b),
     draw_of = 0, floats = exact_arith\<rparr>"

definition sample_manager :: "credential_entry list \<Rightarrow> token_manager" where
  "sample_manager es =
     \<lparr>pool = es, trash = [], next_id = 100, current_id = 1, affinity_table = affinity_new,
      cooldown_table = cooldown_new, cooldown_enabled = True, limiter = rate_limiter_new sample_rate_config,
      rate_limit_enabled = True, rpm_table = rpm_new, health_table = health_new,
      auto_disable_suspicious = True, self_heal_streak = 0, last_self_heal_at = None,
      self_heal_revived = {}, model_blocklist = Map.empty, balance_snapshots = Map.empty\<rparr>"

definition sample_clock :: wall_clock where
  "sample_clock = \<lparr>year_month = (2026, 8), day0 = 3, hour = 0, epoch = 0, year_month_of = (\<lambda>_. None)\<rparr>"

definition sample_heal :: heal_config where
  "sample_heal = \<lparr>self_heal_base_backoff_secs = 30, self_heal_max_backoff_secs = 900, self_heal_max_shift = 5\<rparr>"

definition banned_entry :: credential_entry where
  "banned_entry = disable_with disabled_reason.AccountSuspended ''t'' (entry_new 1 credentials_default)"

text \<open>A banned credential stays out while the pool heals itself and recovers quotas.\<close>
theorem only_admin_revives_witness:
  "\<exists>e'\<in>set (pool (pool_run [(sample_env, SelfHeal sample_heal), (sample_env, RecoverQuota sample_clock),
       (sample_env, Succeed 1), (sample_env, SetDisabled 2 False)] (sample_manager [banned_entry]))).
     eid e' = eid banned_entry \<and> disabled e' \<and> disabled_reason e' = Some disabled_reason.AccountSuspended"
  by (rule only_admin_revives) (simp_all add: sample_manager_def banned_entry_def)

subsection \<open>Three strikes\<close>

text \<open>
  Calls that neither disable nor enable credential \<open>i\<close> but for failures of its requests, nor edit
  the list of credentials.
\<close>

fun spares :: "nat \<Rightarrow> pool_op \<Rightarrow> bool" where
  "spares i (Succeed j) = True"
| "spares i (Fail j) = True"
| "spares i (Limited j s u) = True"
| "spares i (ServerFault j) = True"
| "spares i (AuthCool j) = True"
| "spares i (AuthCoolBriefly j) = True"
| "spares i (NoModel j s) = True"
| "spares i (RelayCool j s r) = True"
| "spares i (TokenReady j) = True"
| "spares i (Selected j) = True"
| "spares i SwitchNext = True"
| "spares i (OutOfQuota j) = (j \<noteq> i)"
| "spares i (Ban j) = (j \<noteq> i)"
| "spares i (TokenInvalid j) = (j \<noteq> i)"
| "spares i (RefreshFail j b) = (j \<noteq> i)"
| "spares i x = False"

lemma find_entry_update:
  "(\<And>e. eid (f e) = eid e) \<Longrightarrow>
    find_entry i (update_entry j f es) = (if i = j then map_option f (find_entry i es) else find_entry i es)"
  by (induction es) auto

lemma find_entry_map: "(\<And>e. eid (f e) = eid e) \<Longrightarrow> find_entry i (map f es) = map_option f (find_entry i es)"
  by (induction es) auto

lemma absolve_simps [simp]:
  "eid (absolve fam e) = eid e" "credentials (absolve fam e) = credentials e"
  "disabled (absolve fam e) = disabled e" "failure_count (absolve fam e) = failure_count e"
  by (simp_all add: absolve_def split_beta)

lemma note_success_simps [simp]:
  "eid (note_success E e) = eid e" "credentials (note_success E e) = credentials e"
  "disabled (note_success E e) = disabled e" "failure_count (note_success E e) = 0"
  by (simp_all add: note_success_def)

lemma note_failure_simps [simp]:
  "eid (note_failure E e) = eid e" "credentials (note_failure E e) = credentials e"
  "failure_count (note_failure E e) = inc32 (failure_count e)"
  by (simp_all add: note_failure_def Let_def disable_with_def)

lemma note_refresh_failure_eid [simp]: "eid (note_refresh_failure E e) = eid e"
  by (simp add: note_refresh_failure_def Let_def)

lemma unique_entry:
  assumes "pool_inv m" and "find_entry i (pool m) = Some e" and "\<not> custom_api e"
  shows "preserve_custom_api_state i m = None"
proof -
  have "distinct (map eid (pool m))" using assms(1) by (simp add: pool_inv_def ids_def)
  then have "e' = e" if "e' \<in> set (pool m)" "eid e' = i" for e'
    using that find_entry_SomeD [OF assms(2)] by (auto simp: distinct_map dest: inj_onD)
  then show ?thesis using assms(3) by (auto simp: preserve_custom_api_state_def list_ex_iff)
qed

text \<open>What such a call does to the entry of \<open>i\<close>.\<close>

lemma spared_step:
  assumes "pool_inv m" and "find_entry i (pool m) = Some e" and "\<not> custom_api e" and "spares i x"
  shows "\<exists>e'. find_entry i (pool (pool_step E x m)) = Some e' \<and> \<not> custom_api e' \<and>
    failure_count e' = (if x = Succeed i then 0 else if x = Fail i \<and> \<not> disabled e
       then inc32 (failure_count e) else failure_count e) \<and>
    (disabled e' \<longleftrightarrow> disabled e \<or> x = Fail i \<and> inc32 (failure_count e) \<ge> MAX_FAILURES_PER_CREDENTIAL)"
proof -
  note custom = unique_entry [OF assms(1-3)]
  have same: ?thesis if "find_entry i (pool (pool_step E x m)) = Some e" "x \<noteq> Succeed i" "x \<noteq> Fail i"
    using that assms(3) by simp
  show ?thesis
  proof (cases x)
    case (Succeed j)
    then show ?thesis using assms
      by (simp add: report_success_def Let_def clear_streaks_def find_entry_map find_entry_update custom_api_def)
  next
    case (Fail j)
    show ?thesis
    proof (cases "j = i \<and> \<not> disabled e")
      case True
      then have "reports_on i m" using assms(2) custom by (simp add: reports_on_def)
      then have "find_entry i (pool (pool_step E x m)) = Some (note_failure E e)"
        using True Fail assms(2) by (simp add: failure.pool_report find_entry_update)
      then show ?thesis using True Fail assms(3)
        by (simp add: custom_api_def) (simp add: note_failure_def Let_def)
    next
      case False
      then have "find_entry i (pool (pool_step E x m)) = Some e"
        using Fail assms(2) by (auto simp: failure.pool_report find_entry_update reports_on_def)
      then show ?thesis using False Fail assms(3) by auto
    qed
  next
    case (RefreshFail j b)
    then have "find_entry i (pool (pool_step E x m)) = Some e" using assms
      by (simp add: report_refresh_failure_classified_def Let_def refresh_failure.pool_report find_entry_update
          split: option.split)
    then show ?thesis using same RefreshFail by simp
  next
    case (TokenReady j)
    then show ?thesis using assms by (cases "i = j") (auto simp: token_ready_def find_entry_update custom_api_def)
  next
    case (OutOfQuota j)
    then show ?thesis using assms
      by (intro same) (simp_all add: quota.pool_report find_entry_update)
  next
    case (Ban j)
    then show ?thesis using assms
      by (intro same) (simp_all add: ban.pool_report find_entry_update)
  next
    case (TokenInvalid j)
    then show ?thesis using assms
      by (intro same) (simp_all add: token_invalid.pool_report find_entry_update)
  qed (use assms in \<open>simp_all add: pool_untouched\<close>)
qed

definition verdicts_on :: "nat \<Rightarrow> (call_env \<times> pool_op) list \<Rightarrow> pool_op list" where
  "verdicts_on i xs = filter (\<lambda>x. x = Fail i \<or> x = Succeed i) (map snd xs)"

abbreviation three :: "nat \<Rightarrow> pool_op list" where "three i \<equiv> [Fail i, Fail i, Fail i]"

lemma sublist_after_success:
  assumes "n < 3"
  shows "sublist (three i) (replicate n (Fail i) @ Succeed i # l) \<longleftrightarrow> sublist (three i) l"
proof -
  consider "n = 0" | "n = 1" | "n = 2" using assms by linarith
  then show ?thesis by cases (simp_all add: sublist_Cons_right numeral_2_eq_2)
qed

lemma three_strikes_run:
  assumes "pool_inv m" and "find_entry i (pool m) = Some e" and "\<not> custom_api e"
    and "list_all (\<lambda>(E, x). spares i x) xs" and "\<not> disabled e \<Longrightarrow> failure_count e < 3"
  shows "\<exists>e'. find_entry i (pool (pool_run xs m)) = Some e' \<and>
    (disabled e' \<longleftrightarrow> disabled e \<or>
       sublist (three i) (replicate (failure_count e) (Fail i) @ verdicts_on i xs))"
  using assms
proof (induction xs arbitrary: m e)
  case Nil
  have "\<not> sublist (three i) (replicate n (Fail i))" if "n < 3" for n
    using that sublist_length_le [of "three i" "replicate n (Fail i)"] by auto
  then show ?case using Nil by (auto simp: verdicts_on_def)
next
  case (Cons a xs)
  obtain E x where a: "a = (E, x)" by (cases a)
  obtain e1 where e1: "find_entry i (pool (pool_step E x m)) = Some e1" "\<not> custom_api e1"
      "failure_count e1 = (if x = Succeed i then 0 else if x = Fail i \<and> \<not> disabled e
         then inc32 (failure_count e) else failure_count e)"
      "disabled e1 \<longleftrightarrow> disabled e \<or> x = Fail i \<and> inc32 (failure_count e) \<ge> MAX_FAILURES_PER_CREDENTIAL"
    using spared_step [OF Cons.prems(1-3), of x E] Cons.prems(4) a by auto
  have inc: "inc32 (failure_count e) = failure_count e + 1" if "\<not> disabled e"
    using Cons.prems(5) [OF that] by (simp add: inc32_def)
  have IH: "\<exists>e'. find_entry i (pool (pool_run xs (pool_step E x m))) = Some e' \<and>
      (disabled e' \<longleftrightarrow> disabled e1 \<or> sublist (three i) (replicate (failure_count e1) (Fail i) @ verdicts_on i xs))"
    using Cons.prems(4, 5) e1 inc a
    by (intro Cons.IH pool_inv_step Cons.prems(1)) (auto simp: MAX_FAILURES_PER_CREDENTIAL_def split: if_splits)
  have "disabled e1 \<or> sublist (three i) (replicate (failure_count e1) (Fail i) @ verdicts_on i xs) \<longleftrightarrow>
      disabled e \<or> sublist (three i) (replicate (failure_count e) (Fail i) @ verdicts_on i (a # xs))"
  proof (cases "disabled e")
    case False
    have n: "failure_count e < 3" using Cons.prems(5) False by simp
    consider "x = Succeed i" | "x = Fail i" "failure_count e < 2" | "x = Fail i" "failure_count e = 2"
      | "x \<noteq> Succeed i" "x \<noteq> Fail i" using n by linarith
    then show ?thesis
    proof cases
      case 1
      then show ?thesis using e1 a False sublist_after_success [OF n, of i] by (simp add: verdicts_on_def)
    next
      case 2
      then have "replicate (failure_count e1) (Fail i) @ verdicts_on i xs =
          replicate (failure_count e) (Fail i) @ verdicts_on i (a # xs)"
        using e1 a False inc by (simp add: verdicts_on_def replicate_app_Cons_same)
      then show ?thesis using 2 e1 inc [OF False] False by (simp add: MAX_FAILURES_PER_CREDENTIAL_def)
    next
      case 3
      then have "sublist (three i) (replicate (failure_count e) (Fail i) @ verdicts_on i (a # xs))"
        using a by (simp add: verdicts_on_def numeral_2_eq_2 sublist_Cons_right)
      then show ?thesis using 3 e1 inc [OF False] by (simp add: MAX_FAILURES_PER_CREDENTIAL_def)
    next
      case 4
      then show ?thesis using e1 a False by (simp add: verdicts_on_def)
    qed
  qed (use e1 in simp)
  then show ?case using IH a by simp
qed

text \<open>
  C7. Three strikes: an enabled credential that is no relay and has a clean record is disabled by a
  sequence of reports exactly if among the successes and failures of its requests there are three
  failures in a row. In between there may be (\<open>spares\<close>) rate limits, server faults, cooldowns after
  refused tokens, refused models, selections and changes of the current credential, on any credential,
  and exhausted quotas, bans, invalid tokens and failed refreshes on the others: none of these counts or
  interrupts the row. There may be no report of the last four kinds on the credential itself, no
  suspension of any family, no automatic recovery, no write-back of a refresh and no act of an
  administrator.\<close>
theorem three_strikes:
  assumes "pool_inv m" and "find_entry i (pool m) = Some e" and "\<not> custom_api e"
    and "\<not> disabled e" and "failure_count e = 0" and "list_all (\<lambda>(E, x). spares i x) xs"
  shows "\<exists>e'. find_entry i (pool (pool_run xs m)) = Some e' \<and>
    (disabled e' \<longleftrightarrow> sublist [Fail i, Fail i, Fail i] (verdicts_on i xs))"
  using three_strikes_run [OF assms(1-3, 6)] assms(4, 5) by simp

text \<open>Two failures, a success of the credential and two more: it stays, though another one fell.\<close>
theorem three_strikes_witness:
  "\<exists>e'. find_entry 1 (pool (pool_run [(sample_env, Fail 1), (sample_env, Fail 1), (sample_env, Succeed 1),
        (sample_env, Fail 1), (sample_env, Ban 2), (sample_env, Fail 1)]
        (sample_manager [entry_new 1 credentials_default, entry_new 2 credentials_default]))) = Some e' \<and>
     (disabled e' \<longleftrightarrow> sublist [Fail 1, Fail 1, Fail 1] (verdicts_on 1 [(sample_env, Fail 1),
        (sample_env, Fail 1), (sample_env, Succeed 1), (sample_env, Fail 1), (sample_env, Ban 2),
        (sample_env, Fail 1)]))"
  by (rule three_strikes [where e = "entry_new 1 credentials_default"])
     (simp_all add: sample_manager_def pool_inv_def ids_def custom_api_def entry_new_def credentials_default_def
        is_custom_api_credential_def entry_ok_def)

subsection \<open>What a report answers\<close>

text \<open>
  C28. Each of the verdict reports answers whether an enabled credential is left in the pool, and when
  it disabled the credential it is about and one is left, then the current credential is an enabled
  one of the best priority.\<close>
theorem report_answers:
  assumes "report \<in> {report_failure E i, report_quota_exhausted E i, report_account_suspended E i,
      report_refresh_token_invalid E i, report_refresh_failure E i}"
    and "report m = (b, m')"
  shows "b = list_ex (\<lambda>e. \<not> disabled e) (pool m') \<and>
    (\<forall>e e'. find_entry i (pool m) = Some e \<and> \<not> disabled e \<and> find_entry i (pool m') = Some e' \<and> disabled e' \<and> b \<longrightarrow>
       (\<exists>c\<in>set (pool m'). eid c = current_id m' \<and> \<not> disabled c \<and>
          (\<forall>c'\<in>set (pool m'). \<not> disabled c' \<longrightarrow> priority (credentials c) \<le> priority (credentials c'))))"
proof -
  have "b = any_enabled (pool m')"
    using assms failure.answer [of E i m] quota.answer [of E i m] ban.answer [of E i m]
      token_invalid.answer [of E i m] refresh_failure.answer [of E i m] by auto
  moreover have "best_enabled m'" if "find_entry i (pool m) = Some e" "\<not> disabled e"
      "find_entry i (pool m') = Some e'" "disabled e'" b for e e'
    using assms that failure.moved_on [OF _ that(1-4)] quota.moved_on [OF _ that(1-4)]
      ban.moved_on [OF _ that(1-4)] token_invalid.moved_on [OF _ that(1-4)]
      refresh_failure.moved_on [OF _ that(1-4)]
    by (elim insertE emptyE) simp_all
  ultimately show ?thesis by (auto simp: any_enabled_def best_enabled_def)
qed

text \<open>The third failure of credential 1 disables it and makes 3 the current one, ahead of 2.\<close>
theorem report_answers_witness:
  "let r = report_failure sample_env 1 (sample_manager [(entry_new 1 credentials_default)\<lparr>failure_count := 2\<rparr>,
             entry_new 2 (credentials_default\<lparr>priority := 7\<rparr>), entry_new 3 (credentials_default\<lparr>priority := 5\<rparr>)]) in
   fst r \<and> (\<exists>c\<in>set (pool (snd r)). eid c = current_id (snd r) \<and> \<not> disabled c \<and> priority (credentials c) \<le> 5)"
proof -
  let ?e = "(entry_new 1 credentials_default)\<lparr>failure_count := 2\<rparr>"
  let ?m = "sample_manager [?e, entry_new 2 (credentials_default\<lparr>priority := 7\<rparr>),
    entry_new 3 (credentials_default\<lparr>priority := 5\<rparr>)]"
  let ?r = "report_failure sample_env 1 ?m"
  have plain: "\<not> disabled (entry_new i (credentials_default\<lparr>priority := p\<rparr>))" "\<not> disabled (entry_new i credentials_default)" for i p
    by (simp_all add: entry_new_def credentials_default_def)
  have "reports_on 1 ?m"
    by (simp add: reports_on_def preserve_custom_api_state_def sample_manager_def custom_api_def entry_new_def
        credentials_default_def is_custom_api_credential_def)
  then have p: "pool (snd ?r) = [note_failure sample_env ?e, entry_new 2 (credentials_default\<lparr>priority := 7\<rparr>),
      entry_new 3 (credentials_default\<lparr>priority := 5\<rparr>)]"
    using failure.pool_report [of sample_env 1 ?m] by (simp add: sample_manager_def)
  have d: "disabled (note_failure sample_env ?e)"
    by (simp add: note_failure_def Let_def MAX_FAILURES_PER_CREDENTIAL_def inc32_def u32_max_def)
  have e: "find_entry 1 (pool ?m) = Some ?e" "\<not> disabled ?e" using plain by (simp_all add: sample_manager_def)
  have n: "find_entry 1 (pool (snd ?r)) = Some (note_failure sample_env ?e)" unfolding p by simp
  have "fst ?r = list_ex (\<lambda>e. \<not> disabled e) (pool (snd ?r)) \<and>
    (\<forall>e e'. find_entry 1 (pool ?m) = Some e \<and> \<not> disabled e \<and> find_entry 1 (pool (snd ?r)) = Some e' \<and> disabled e' \<and> fst ?r \<longrightarrow>
       (\<exists>c\<in>set (pool (snd ?r)). eid c = current_id (snd ?r) \<and> \<not> disabled c \<and>
          (\<forall>c'\<in>set (pool (snd ?r)). \<not> disabled c' \<longrightarrow> priority (credentials c) \<le> priority (credentials c'))))"
    by (rule report_answers [where report = "report_failure sample_env 1" and E = sample_env]) simp_all
  moreover have "fst ?r" using calculation unfolding p by (simp add: plain)
  ultimately obtain c where c: "c \<in> set (pool (snd ?r))" "eid c = current_id (snd ?r)" "\<not> disabled c"
      "\<And>c'. c' \<in> set (pool (snd ?r)) \<Longrightarrow> \<not> disabled c' \<Longrightarrow> priority (credentials c) \<le> priority (credentials c')"
    using e n d by blast
  have "priority (credentials c) \<le> 5"
    using c(4) [of "entry_new 3 (credentials_default\<lparr>priority := 5\<rparr>)"] plain unfolding p
    by (simp add: entry_new_def)
  then show ?thesis using c(1-3) \<open>fst ?r\<close> unfolding Let_def by blast
qed

subsection \<open>Numbers given twice\<close>

definition two_credentials :: "kiro_credentials list" where
  "two_credentials = [credentials_default\<lparr>cred_id := Some 1\<rparr>, credentials_default\<lparr>refresh_token := Some ''r''\<rparr>]"

definition dropped :: trash_entry where
  "dropped = \<lparr>trashed = credentials_default\<lparr>cred_id := Some 2, cred_disabled := True,
     cred_disabled_reason := Some Manual\<rparr>, deleted_at = ''t'', trashed_success_count = 0,
     trashed_request_count = 0, trashed_total_credits_used = 0, trashed_last_used_at = None\<rparr>"

lemma started_plain:
  assumes "auth_method c = None" and "base_url c = None"
  shows "revive_legacy (entry_new i c) = entry_new i c" and "\<not> invalid_config (entry_new i c)"
    and "\<not> legacy_auto_disabled (entry_new i c)" and "canonicalize_auth_method c = c"
  using assms
  by (simp_all add: revive_legacy_def legacy_auto_disabled_def invalid_config_def custom_api_def
      is_custom_api_credential_def canonicalize_auth_method_def entry_new_def)

lemma credentials_entry_new [simp]: "credentials (entry_new i c) = c"
  by (simp add: entry_new_def)

lemma plain_default [simp]:
  "auth_method credentials_default = None" "base_url credentials_default = None"
  "cred_id credentials_default = None" "kiro_api_key credentials_default = None"
  by (simp_all add: credentials_default_def)


lemma numbered_plain:
  assumes "list_all (\<lambda>e. revive_legacy e = e \<and> \<not> invalid_config e \<and> \<not> legacy_auto_disabled e) (number_credentials n cs)"
    and "n = foldr max (List.map_filter cred_id cs) 0 + 1"
  shows "duplicates (map eid (number_credentials n cs)) = d \<Longrightarrow> d \<noteq> [] \<Longrightarrow> manager_new t cd on cfg rl auto cs = Inl d"
    and "duplicates (map eid (number_credentials n cs)) = [] \<Longrightarrow>
      \<exists>m. manager_new t cd on cfg rl auto cs = Inr m \<and> pool m = number_credentials n cs"
proof -
  note e = assms(1) [unfolded list_all_iff]
  have maps: "map revive_legacy (number_credentials n cs) = number_credentials n cs"
    "map (\<lambda>e. if invalid_config e then disable_with InvalidConfig t e else e) (number_credentials n cs) =
      number_credentials n cs"
    "filter legacy_auto_disabled (number_credentials n cs) = []"
    using e by (auto simp: filter_empty_conv intro!: map_idI)
  show "duplicates (map eid (number_credentials n cs)) = d \<Longrightarrow> d \<noteq> [] \<Longrightarrow> manager_new t cd on cfg rl auto cs = Inl d"
    by (simp only: manager_new_def Let_def assms(2) [symmetric] maps if_True not_False_eq_True)
  show "\<exists>m. manager_new t cd on cfg rl auto cs = Inr m \<and> pool m = number_credentials n cs"
    if d: "duplicates (map eid (number_credentials n cs)) = []"
    unfolding manager_new_def Let_def assms(2) [symmetric] maps d by simp
qed

lemma duplicates_12: "duplicates [1, 2] = []" "duplicates [1, 2, 2] = [2]"
  "duplicates [Suc 0, 2] = []" "duplicates [Suc 0, 2, 2] = [2]"
  by (simp_all add: duplicates_def upt_rec)

text \<open>
  C37. The trash is read after the pool is numbered, so a credential written to the file without a
  number can be given the number of one in the trash: with number 1 in the file, a second credential
  without a number and number 2 in the trash, restoring 2 leaves two entries of number 2, and the
  next start from the saved list is refused because of it. (The numbers of the trash raise the next
  number to be assigned, but only after the start-up has assigned its own.)\<close>
theorem restore_duplicates:
  "case manager_new t cd on cfg rl auto two_credentials of
     Inl _ \<Rightarrow> False
   | Inr m \<Rightarrow>
       (case restore_credential E sha256 2 True (load_trash [dropped] m) of
          Inl _ \<Rightarrow> False
        | Inr m' \<Rightarrow> map eid (pool m') = [1, 2, 2] \<and>
            manager_new t cd on cfg rl auto (map credentials (pool m')) = Inl [2])"
proof -
  let ?c1 = "credentials_default\<lparr>cred_id := Some 1\<rparr>"
  let ?c2 = "credentials_default\<lparr>refresh_token := Some ''r'', cred_id := Some 2\<rparr>"
  define c3 where "c3 = (trashed dropped)\<lparr>cred_id := Some 2, cred_disabled := True,
    cred_disabled_reason := Some Manual, cred_disabled_at := Some (at_utc E)\<rparr>"
  have c3: "auth_method c3 = None" "base_url c3 = None" "cred_id c3 = Some 2"
    by (simp_all add: c3_def dropped_def)
  have n: "number_credentials 2 two_credentials = [entry_new 1 ?c1, entry_new 2 ?c2]"
    by (simp add: two_credentials_def started_plain)
  have l2: "list_all (\<lambda>e. revive_legacy e = e \<and> \<not> invalid_config e \<and> \<not> legacy_auto_disabled e)
      (number_credentials 2 two_credentials)"
    unfolding n by (simp add: started_plain)
  have n2: "2 = foldr max (List.map_filter cred_id two_credentials) 0 + 1"
    by (simp add: two_credentials_def List.map_filter_def)
  have d2: "duplicates (map eid (number_credentials 2 two_credentials)) = []"
    unfolding n by (simp add: duplicates_12)
  obtain m where m: "manager_new t cd on cfg rl auto two_credentials = Inr m"
      "pool m = [entry_new 1 ?c1, entry_new 2 ?c2]"
    using numbered_plain(2) [OF l2 n2 d2, of t cd on cfg rl auto] unfolding n by (elim exE conjE)
  have "\<exists>e. restore_credential E sha256 2 True (load_trash [dropped] m) =
      Inr (m\<lparr>next_id := next_id (load_trash [dropped] m), trash := [], pool := pool m @ [e]\<rparr>) \<and>
      eid e = 2 \<and> credentials e = c3"
    by (auto simp: restore_credential_def load_trash_def dropped_def is_trashed_def take_trash_def
        entry_of_trash_def c3_def or_opt_def Let_def credentials_default_def)
  then obtain e m' where m': "restore_credential E sha256 2 True (load_trash [dropped] m) = Inr m'"
      "pool m' = [entry_new 1 ?c1, entry_new 2 ?c2, e]" "eid e = 2" "credentials e = c3"
    using m(2) by auto
  have n': "number_credentials 3 [?c1, ?c2, c3] = [entry_new 1 ?c1, entry_new 2 ?c2, entry_new 2 c3]"
    by (simp add: started_plain c3)
  have l3: "list_all (\<lambda>e. revive_legacy e = e \<and> \<not> invalid_config e \<and> \<not> legacy_auto_disabled e)
      (number_credentials 3 [?c1, ?c2, c3])"
    unfolding n' by (simp add: started_plain c3)
  have n3: "3 = foldr max (List.map_filter cred_id [?c1, ?c2, c3]) 0 + 1"
    by (simp add: c3 List.map_filter_def)
  have d3: "duplicates (map eid (number_credentials 3 [?c1, ?c2, c3])) = [2]"
    unfolding n' by (simp add: duplicates_12)
  have "manager_new t cd on cfg rl auto [?c1, ?c2, c3] = Inl [2]"
    by (rule numbered_plain(1) [OF l3 n3 d3]) simp
  then show ?thesis using m(1) m' by simp
qed


subsection \<open>Relays in a family\<close>

lemma foldr_max_in: "x \<in> set xs \<Longrightarrow> x \<le> foldr max xs (b :: nat)"
  by (induction xs) auto

lemma suspect_family_disables:
  assumes "find_entry i es = Some e" and "\<not> disabled e" and "consecutive_suspicious e \<ge> 5"
    and "r \<in> set es" and "same_family (family_key (credentials e) (eid e)) r"
  shows "disable_with SuspiciousActivityAuto (at_utc E) (r\<lparr>consecutive_suspicious :=
      sat_add32 (foldr max (map consecutive_suspicious
        (filter (same_family (family_key (credentials e) (eid e))) es)) 0) 1\<rparr>)
    \<in> set (snd (suspect_family E i True es))"
proof -
  let ?fam = "family_key (credentials e) (eid e)"
  have "consecutive_suspicious e \<in> set (map consecutive_suspicious (filter (same_family ?fam) es))"
    using find_entry_SomeD [OF assms(1)] assms(2) by (simp add: same_family_def)
  then have "5 \<le> foldr max (map consecutive_suspicious (filter (same_family ?fam) es)) 0"
    using assms(3) foldr_max_in le_trans by blast
  then have "MAX_CONSECUTIVE_SUSPICIOUS_BEFORE_DISABLE \<le>
      sat_add32 (foldr max (map consecutive_suspicious (filter (same_family ?fam) es)) 0) 1"
    by (simp add: MAX_CONSECUTIVE_SUSPICIOUS_BEFORE_DISABLE_def sat_add32_def u32_max_def)
  then show ?thesis using assms by (simp add: suspect_family_def Let_def image_iff) force
qed

text \<open>
  C38. The reports about a credential that relays to a custom API leave it alone, but a suspension of
  another credential of the same family does not: if \<open>i\<close>, no relay itself, brings the family to the
  count at which it is disabled, an enabled relay of the family is disabled with it.\<close>
theorem relay_disabled_with_family:
  assumes "pool_inv m" and "find_entry i (pool m) = Some e" and "\<not> disabled e" and "\<not> custom_api e"
    and "consecutive_suspicious e \<ge> 5" and "auto_disable_suspicious m"
    and "r \<in> set (pool m)" and "custom_api r" and "\<not> disabled r"
    and "family_key (credentials r) (eid r) = family_key (credentials e) i"
  shows "\<exists>r'\<in>set (pool (report_suspicious_activity E i m)). eid r' = eid r \<and> custom_api r' \<and>
    disabled r' \<and> disabled_reason r' = Some SuspiciousActivityAuto"
proof -
  let ?touch = "\<lambda>e. e\<lparr>last_used_at := Some (at_utc E)\<rparr>"
  let ?es = "update_entry i ?touch (pool m)"
  have i: "eid e = i" using find_entry_SomeD [OF assms(2)] by simp
  have none: "preserve_custom_api_state i m = None" by (rule unique_entry [OF assms(1, 2, 4)])
  have ne: "eid r \<noteq> i" using none assms(7, 8) by (auto simp: preserve_custom_api_state_def list_ex_iff split: if_splits)
  have "r \<in> set (update_entry i f es)" if "r \<in> set es" for f es using that ne by (induction es) auto
  then have r: "r \<in> set ?es" using assms(7) by simp
  have found: "find_entry i ?es = Some (?touch e)" using assms(2) by (simp add: find_entry_updated)
  obtain n where "disable_with SuspiciousActivityAuto (at_utc E) (r\<lparr>consecutive_suspicious := n\<rparr>)
      \<in> set (snd (suspect_family E i True ?es))"
    using suspect_family_disables [OF found _ _ r] assms(3, 5, 9, 10) i by (auto simp: same_family_def)
  moreover have "pool (report_suspicious_activity E i m) = snd (suspect_family E i True ?es)"
    using none assms(6)
    by (simp add: report_suspicious_activity_def Let_def split_beta clear_streaks_def)
  ultimately show ?thesis using assms(8)
    by (intro bexI [of _ "disable_with SuspiciousActivityAuto (at_utc E) (r\<lparr>consecutive_suspicious := n\<rparr>)"])
       (simp_all add: custom_api_def)
qed

definition clone_member :: kiro_credentials where
  "clone_member = credentials_default\<lparr>kiro_api_key := Some ''k'', clone_group := Some ''g''\<rparr>"

definition clone_relay :: kiro_credentials where
  "clone_relay = clone_member\<lparr>base_url := Some ''https://example.com''\<rparr>"

text \<open>Credential 2 relays elsewhere, 1 does not; a sixth suspension of 1 disables 2 as well.\<close>
theorem relay_disabled_with_family_witness:
  "\<exists>r'\<in>set (pool (report_suspicious_activity sample_env 1 (sample_manager
      [(entry_new 1 clone_member)\<lparr>consecutive_suspicious := 5\<rparr>, entry_new 2 clone_relay]))).
    eid r' = eid (entry_new 2 clone_relay) \<and> custom_api r' \<and> disabled r' \<and>
    disabled_reason r' = Some SuspiciousActivityAuto"
proof (rule relay_disabled_with_family [where e = "(entry_new 1 clone_member)\<lparr>consecutive_suspicious := 5\<rparr>"])
  note ds = clone_member_def clone_relay_def credentials_default_def entry_new_def
  show "pool_inv (sample_manager [(entry_new 1 clone_member)\<lparr>consecutive_suspicious := 5\<rparr>, entry_new 2 clone_relay])"
    by (simp add: sample_manager_def pool_inv_def ids_def entry_ok_def ds)
  show "\<not> custom_api ((entry_new 1 clone_member)\<lparr>consecutive_suspicious := 5\<rparr>)" "custom_api (entry_new 2 clone_relay)"
    by (simp_all add: custom_api_def is_custom_api_credential_def ds)
  show "family_key (credentials (entry_new 2 clone_relay)) (eid (entry_new 2 clone_relay)) =
      family_key (credentials ((entry_new 1 clone_member)\<lparr>consecutive_suspicious := 5\<rparr>)) 1"
    by (simp add: family_key_def is_external_idp_credential_def clone_group_of_def is_api_key_credential_def ds
        trim_def trim_start.simps [of "[CHR 0x67]"] trim_end.simps [of "[CHR 0x67]"] ws_suffix_len_def code_def)
qed (simp_all add: sample_manager_def entry_new_def clone_member_def clone_relay_def credentials_default_def)


theorem pool_wellformed_witness:
  "\<exists>m. manager_new ''t'' cooldown_new True sample_rate_config True True [credentials_default] = Ok m \<and>
    (let m' = pool_run [(sample_env, Fail 1), (sample_env, Restore (\<lambda>s. s) 2 True)] (load_trash [dropped] m) in
    list_all (\<lambda>e. (disabled e \<longleftrightarrow> disabled_reason e \<noteq> None) \<and>
       family_key_ref e = family_key (credentials e) (eid e)) (pool m') \<and>
    distinct (map eid (pool m') @ map (\<lambda>x. the (cred_id (trashed x))) (trash m')))"
proof -
  have n: "number_credentials 1 [credentials_default] = [entry_new 1 (credentials_default\<lparr>cred_id := Some 1\<rparr>)]"
    by (simp add: started_plain)
  have l1: "list_all (\<lambda>e. revive_legacy e = e \<and> \<not> invalid_config e \<and> \<not> legacy_auto_disabled e)
      (number_credentials 1 [credentials_default])"
    unfolding n by (simp add: started_plain)
  have n1: "1 = foldr max (List.map_filter cred_id [credentials_default]) 0 + 1"
    by (simp add: List.map_filter_def)
  have d1: "duplicates (map eid (number_credentials 1 [credentials_default])) = []"
    unfolding n by (simp add: duplicates_def)
  obtain m where m: "manager_new ''t'' cooldown_new True sample_rate_config True True [credentials_default] = Ok m"
      "pool m = [entry_new 1 (credentials_default\<lparr>cred_id := Some 1\<rparr>)]"
    using numbered_plain(2) [OF l1 n1 d1, of "''t''" cooldown_new True sample_rate_config True True]
    unfolding n by (elim exE conjE)
  show ?thesis
    unfolding list_all_iff
    by (intro exI conjI, rule m(1), rule pool_wellformed [OF m(1)]) (simp_all add: dropped_def m(2))
qed

end
