(* ===== verification/Selection.thy ===== *)
theory Selection
  imports Pool "HOL-Library.Product_Lexorder"
begin

text \<open>
  The selection of a credential for a request: \<open>select_next_credential\<close> and what it calls in
  \<open>src/src/kiro/token_manager.rs\<close>, the selection of last resort \<open>select_ignoring_cooldown\<close> and the
  diagnosis \<open>transient_wait_outcome\<close> of a selection that found nothing.

  The counter of requests in flight and the time of the last selection are shared cells of an entry;
  they are functions of its number. Many of the tables drop what is out of date when they are read,
  so each step returns the state it leaves. \<open>select_env\<close> carries the clock, the floating-point
  operations, the jitter drawn for each credential, the coin of the half-open gate and Unicode's
  upper case. The lower case of the model's name is taken on its ASCII letters: no other character
  has one of \<open>o\<close>, \<open>p\<close>, \<open>u\<close>, \<open>s\<close> in its lower case.
\<close>

definition CREDENTIAL_MAX_CONCURRENCY :: nat where "CREDENTIAL_MAX_CONCURRENCY = 16"
definition STARVATION_PROBE_SECS :: nat where "STARVATION_PROBE_SECS = 180"
definition SATURATION_FALLBACK_RPM :: nat where "SATURATION_FALLBACK_RPM = 30"

record sched_config =
  affinity_enabled :: bool
  load_balancing_mode :: string
  priority_in_balanced :: bool
  rpm_hard_gate :: bool
  pool_rpm_limit :: nat
  rpm_headroom_factor :: nat
  rpm_reserve_slots :: nat
  balance_weight_enabled :: bool
  balance_weight_floor :: nat

record selector =
  manager :: token_manager
  inflight_of :: "nat \<Rightarrow> nat"
  selected_at :: "nat \<Rightarrow> instant"
  fallback_cursor :: nat
  consecutive_pool_unavailable :: nat
  sched :: sched_config

record select_env =
  now_of :: instant
  arith_of :: float_arith
  draw_for :: "nat \<Rightarrow> nat"
  coin_of :: real
  upper_of :: "string \<Rightarrow> string"

subsection \<open>Limits and weights\<close>

definition at_max_concurrency :: "selector \<Rightarrow> credential_entry \<Rightarrow> bool" where
  "at_max_concurrency s e \<longleftrightarrow> inflight_of s (eid e) \<ge> CREDENTIAL_MAX_CONCURRENCY"

definition starvation_key :: "select_env \<Rightarrow> selector \<Rightarrow> credential_entry \<Rightarrow> nat" where
  "starvation_key E s e =
     (if as_secs (now_of E - selected_at s (eid e)) < STARVATION_PROBE_SECS then 1 else 0)"

definition priority_layered :: "sched_config \<Rightarrow> bool" where
  "priority_layered c \<longleftrightarrow> load_balancing_mode c \<noteq> ''balanced'' \<or> priority_in_balanced c"

definition apply_rpm_headroom :: "sched_config \<Rightarrow> nat \<Rightarrow> nat" where
  "apply_rpm_headroom c base =
     (let factor = rpm_headroom_factor c;
          discounted = (if factor = 0 \<or> factor \<ge> 100 then base else base * factor div 100) in
      max (discounted - rpm_reserve_slots c) 1)"

definition effective_saturation_limit :: "sched_config \<Rightarrow> nat option \<Rightarrow> nat" where
  "effective_saturation_limit c per_cred =
     (let common = (if pool_rpm_limit c > 0 then pool_rpm_limit c else SATURATION_FALLBACK_RPM) in
      apply_rpm_headroom c
        (case per_cred of Some v \<Rightarrow> if v > 0 then v else common | None \<Rightarrow> common))"

definition limit_of :: "selector \<Rightarrow> credential_entry \<Rightarrow> nat" where
  "limit_of s e = effective_saturation_limit (sched s) (rpm_limit (credentials e))"

definition balance_factor :: "float_arith \<Rightarrow> selector \<Rightarrow> credential_entry \<Rightarrow> real" where
  "balance_factor F s e =
     (if \<not> balance_weight_enabled (sched s) then 1
      else
        (case balance_snapshots (manager s) (eid e) of
           None \<Rightarrow> 1
         | Some b \<Rightarrow>
             if \<not> effective_limit b > 0 then 1
             else
               let spent_since = max (fsub F (total_credits_used e) (credits_used_at_cache b)) 0;
                   est_remaining = max (fsub F (remaining_at_cache b) spent_since) 0;
                   frac = clamp 0 1 (fdiv F est_remaining (effective_limit b));
                   flr = fdiv F (rnd F (real (min (balance_weight_floor (sched s)) 100))) 100 in
               fadd F flr (fmul F (fsub F 1 flr) frac)))"

text \<open>\<open>x as i64\<close>: towards zero, saturating.\<close>

definition as_i64 :: "real \<Rightarrow> int" where
  "as_i64 x = max (min (if x \<ge> 0 then \<lfloor>x\<rfloor> else \<lceil>x\<rceil>) (2 ^ 63 - 1)) (- (2 ^ 63))"

subsection \<open>What may be selected\<close>

definition is_entry_selectable_inner :: "select_env \<Rightarrow> bool \<Rightarrow> string \<Rightarrow> bool \<Rightarrow> credential_entry \<Rightarrow> selector \<Rightarrow>
    bool \<times> selector" where
  "is_entry_selectable_inner E is_opus model ignore_cooldown e s =
     (if disabled e then (False, s)
      else if custom_api e then (False, s)
      else if is_opus \<and> \<not> supports_opus (upper_of E) (credentials e) then (False, s)
      else if model \<noteq> [] \<and> \<not> allows_model (credentials e) model then (False, s)
      else
        let (blocked, m1) = is_model_blocked (now_of E) (eid e) model (manager s);
            s1 = s\<lparr>manager := m1\<rparr> in
        if blocked then (False, s1)
        else if \<not> ignore_cooldown \<and> cooldown_enabled m1 \<and> \<not> is_available (now_of E) (eid e) (cooldown_table m1)
        then (False, s1)
        else
          let (ok, s2) =
                (if rate_limit_enabled m1
                 then (let (r, rl) = check_rate_limit (draw_for E (eid e)) (now_of E) (eid e) (limiter m1)
                       in (\<not> isl r, s1\<lparr>manager := m1\<lparr>limiter := rl\<rparr>\<rparr>))
                 else (True, s1)) in
          (ok \<and> \<not> at_max_concurrency s2 e, s2))"

definition is_entry_selectable :: "select_env \<Rightarrow> bool \<Rightarrow> string \<Rightarrow> credential_entry \<Rightarrow> selector \<Rightarrow>
    bool \<times> selector" where
  "is_entry_selectable E is_opus model = is_entry_selectable_inner E is_opus model False"

text \<open>\<open>iter().filter(..).collect()\<close> with a test that changes the state.\<close>

fun filter_entries :: "(credential_entry \<Rightarrow> selector \<Rightarrow> bool \<times> selector) \<Rightarrow> credential_entry list \<Rightarrow> selector \<Rightarrow>
    credential_entry list \<times> selector" where
  "filter_entries f [] s = ([], s)"
| "filter_entries f (e # es) s =
     (let (ok, s1) = f e s; (kept, s2) = filter_entries f es s1 in
      (if ok then e # kept else kept, s2))"

definition is_opus_model :: "string option \<Rightarrow> bool" where
  "is_opus_model model =
     (case model of Some m \<Rightarrow> find_sub ''opus'' (to_ascii_lowercase m) \<noteq> None | None \<Rightarrow> False)"

definition model_key :: "string option \<Rightarrow> string" where
  "model_key model = (case model of Some m \<Rightarrow> m | None \<Rightarrow> [])"

text \<open>The entries not tried before, if there are any, else all.\<close>

definition not_tried :: "nat set \<Rightarrow> credential_entry list \<Rightarrow> credential_entry list" where
  "not_tried excluded es = (if excluded = {} then [] else filter (\<lambda>e. eid e \<notin> excluded) es)"

definition narrowed :: "nat set \<Rightarrow> credential_entry list \<Rightarrow> bool" where
  "narrowed excluded es \<longleftrightarrow>
     not_tried excluded es \<noteq> [] \<and> length (not_tried excluded es) < length es"

definition preferred :: "nat set \<Rightarrow> credential_entry list \<Rightarrow> credential_entry list" where
  "preferred excluded es = (if not_tried excluded es = [] then es else not_tried excluded es)"

subsection \<open>The credential a session is bound to\<close>

definition is_rpm_saturated_with_limit :: "select_env \<Rightarrow> credential_entry \<Rightarrow> selector \<Rightarrow> bool \<times> selector" where
  "is_rpm_saturated_with_limit E e s =
     (let (n, r) = rpm_count (now_of E) (eid e) (rpm_table (manager s)) in
      (n \<ge> limit_of s e, s\<lparr>manager := (manager s)\<lparr>rpm_table := r\<rparr>\<rparr>))"

definition is_sticky_reuse_healthy :: "select_env \<Rightarrow> credential_entry \<Rightarrow> selector \<Rightarrow> bool \<times> selector" where
  "is_sticky_reuse_healthy E e s =
     (let (saturated, s1) = is_rpm_saturated_with_limit E e s in
      if saturated then (False, s1)
      else if at_max_concurrency s1 e then (False, s1)
      else
        let (snap, h) = health_snapshot (arith_of E) (now_of E) (family_key (credentials e) (eid e))
                          (health_table (manager s1));
            s2 = s1\<lparr>manager := (manager s1)\<lparr>health_table := h\<rparr>\<rparr> in
        (case snap of
           None \<Rightarrow> True
         | Some q \<Rightarrow>
             if snap_circuit_open q then False
             else if snap_half_open q then coin_of E < snap_admit_prob q
             else True,
         s2))"

definition family_circuit_open :: "select_env \<Rightarrow> nat \<Rightarrow> selector \<Rightarrow> bool \<times> selector" where
  "family_circuit_open E i s =
     (case find_entry i (pool (manager s)) of
        None \<Rightarrow> (False, s)
      | Some e \<Rightarrow>
          let (snap, h) = health_snapshot (arith_of E) (now_of E) (family_key_ref e) (health_table (manager s)) in
          (case snap of None \<Rightarrow> False | Some q \<Rightarrow> snap_circuit_open q,
           s\<lparr>manager := (manager s)\<lparr>health_table := h\<rparr>\<rparr>))"

definition commit_selection :: "select_env \<Rightarrow> credential_entry \<Rightarrow> string \<Rightarrow> selector \<Rightarrow> selector" where
  "commit_selection E e model s =
     (let i = eid e;
          r1 = rpm_record (now_of E) i (rpm_table (manager s));
          r2 = (if model \<noteq> [] then rpm_record_model (now_of E) i model r1 else r1) in
      s\<lparr>inflight_of := (inflight_of s)(i := inflight_acquire (inflight_of s i)),
        manager := (manager s)\<lparr>rpm_table := r2\<rparr>,
        consecutive_pool_unavailable := 0,
        selected_at := (selected_at s)(i := now_of E)\<rparr>)"

definition sticky_choice :: "select_env \<Rightarrow> string option \<Rightarrow> nat set \<Rightarrow> credential_entry list \<Rightarrow> selector \<Rightarrow>
    credential_entry option \<times> selector" where
  "sticky_choice E user_id excluded available s =
     (case user_id of
        Some uid \<Rightarrow>
          if affinity_enabled (sched s) then
            let (bound, tbl) = affinity_get (now_of E) uid (affinity_table (manager s));
                s1 = s\<lparr>manager := (manager s)\<lparr>affinity_table := tbl\<rparr>\<rparr> in
            (case bound of
               None \<Rightarrow> (None, s1)
             | Some b \<Rightarrow>
                 if b \<in> excluded then (None, s1)
                 else
                   (case find_entry b available of
                      None \<Rightarrow> (None, s1)
                    | Some e \<Rightarrow>
                        let (healthy, s2) = is_sticky_reuse_healthy E e s1 in
                        if healthy
                        then (Some e, s2\<lparr>manager := (manager s2)\<lparr>affinity_table :=
                                affinity_touch (now_of E) uid (affinity_table (manager s2))\<rparr>\<rparr>)
                        else (None, s2)))
          else (None, s)
      | None \<Rightarrow> (None, s))"

text \<open>The new binding; the verdict on the old one reads the health of its family.\<close>

definition bind_selected :: "select_env \<Rightarrow> string option \<Rightarrow> nat \<Rightarrow> selector \<Rightarrow> selector" where
  "bind_selected E user_id i s =
     (case user_id of
        Some uid \<Rightarrow>
          if affinity_enabled (sched s) then
            let keep = (\<lambda>bound streak. streak > 0 \<and> \<not> fst (family_circuit_open E bound s));
                tbl = affinity_table (manager s);
                s1 = (case affinity tbl uid of
                        Some a \<Rightarrow>
                          if entry_live (now_of E) (ttl tbl) a \<and> entry_credential a \<noteq> i \<and> consecutive_429 a > 0
                          then snd (family_circuit_open E (entry_credential a) s) else s
                      | None \<Rightarrow> s) in
            s1\<lparr>manager := (manager s1)\<lparr>affinity_table := bind_after_selection (now_of E) uid i keep tbl\<rparr>\<rparr>
          else s
      | None \<Rightarrow> s)"

subsection \<open>The order of preference\<close>

record signals =
  sig_rpm :: "nat \<rightharpoonup> nat"
  sig_ramp :: "nat \<rightharpoonup> nat \<times> nat"
  sig_model_calls :: "nat \<rightharpoonup> nat"
  sig_p_avail :: "nat \<rightharpoonup> real"
  sig_load_ref :: real

definition rpm_of :: "signals \<Rightarrow> credential_entry \<Rightarrow> nat" where
  "rpm_of g e = (case sig_rpm g (eid e) of Some n \<Rightarrow> n | None \<Rightarrow> 0)"

definition gather_signals :: "select_env \<Rightarrow> string \<Rightarrow> credential_entry list \<Rightarrow> credential_entry list \<Rightarrow> selector \<Rightarrow>
    signals \<times> selector" where
  "gather_signals E model available selectable s =
     (let total_inflight = sum_list (map (\<lambda>e. inflight_of s (eid e)) available);
          load_ref = adaptive_load_ref (arith_of E) total_inflight (length available);
          cand_ids = map eid selectable;
          (counts, r1) = rpm_counts_for (now_of E) cand_ids (rpm_table (manager s));
          (ramps, r2) = rpm_ramp_counts_for (now_of E) cand_ids (secs RAMP_RECENT_SECS) r1;
          (calls, r3) = (if model = [] then (Map.empty, r2)
                         else rpm_model_counts_for (now_of E) cand_ids model r2);
          count = (\<lambda>e. case counts (eid e) of Some n \<Rightarrow> n | None \<Rightarrow> 0);
          items = map (\<lambda>e. (eid e, family_key_ref e, count e, inflight_of s (eid e), limit_of s e)) selectable;
          (avails, h) = p_avail_batch (arith_of E) (now_of E) items load_ref (health_table (manager s)) Map.empty in
      (\<lparr>sig_rpm = counts, sig_ramp = ramps, sig_model_calls = calls, sig_p_avail = avails,
        sig_load_ref = load_ref\<rparr>,
       s\<lparr>manager := (manager s)\<lparr>rpm_table := r3, health_table := h\<rparr>\<rparr>))"

type_synonym sort_key =
  "nat \<times> nat \<times> nat \<times> nat \<times> nat \<times> nat \<times> nat \<times> nat \<times> nat \<times> nat \<times> int \<times> nat \<times> nat"

definition sort_key :: "select_env \<Rightarrow> selector \<Rightarrow> string \<Rightarrow> signals \<Rightarrow> credential_entry \<Rightarrow> sort_key" where
  "sort_key E s model g e =
     (let F = arith_of E;
          cap = limit_of s e;
          inflight_now = inflight_of s (eid e);
          p = (case sig_p_avail g (eid e) of
                 Some p \<Rightarrow> p
               | None \<Rightarrow> fst (p_avail_with_load_ref F (now_of E) (family_key_ref e) (rpm_of g e) inflight_now cap
                                (sig_load_ref g) (health_table (manager s))));
          saturated = rpm_of g e \<ge> cap;
          unusable = (if p \<le> 0 \<or> saturated then 1 else 0);
          p_weighted = fmul F p (balance_factor F s e);
          prio = (if priority_layered (sched s) then priority (credentials e) else 0);
          (recent, total) = (case sig_ramp g (eid e) of Some x \<Rightarrow> x | None \<Rightarrow> (0, 0));
          explicit = (case allowed_models (credentials e) of Some l \<Rightarrow> l \<noteq> [] | None \<Rightarrow> False);
          whitelist_hit = (if model = [] then 1
                           else if explicit \<and> allows_model (credentials e) model then 0 else 1);
          model_calls_now = (if model = [] then 0
                             else case sig_model_calls g (eid e) of Some n \<Rightarrow> n | None \<Rightarrow> 0) in
      (unusable, starvation_key E s e, prio, health_tier F p, ramp_tier_of recent total, whitelist_hit,
       inflight_now, model_calls_now, as_u32 (inflight_now * 1000 div cap), as_u32 (rpm_of g e * 1000 div cap),
       - as_i64 (fmul F p_weighted 1000), success_count e, eid e))"

definition not_saturated :: "selector \<Rightarrow> signals \<Rightarrow> credential_entry \<Rightarrow> bool" where
  "not_saturated s g e \<longleftrightarrow> rpm_of g e < limit_of s e"

definition balanced_choice :: "select_env \<Rightarrow> string \<Rightarrow> nat set \<Rightarrow> credential_entry list \<Rightarrow> signals \<Rightarrow> selector \<Rightarrow>
    credential_entry option" where
  "balanced_choice E model excluded selectable g s =
     (let available = preferred excluded selectable;
          hard_gate = rpm_hard_gate (sched s);
          from_pool = (if hard_gate \<and> narrowed excluded selectable \<and> \<not> list_ex (not_saturated s g) available \<and>
                          list_ex (not_saturated s g) selectable
                       then selectable else available);
          free = filter (not_saturated s g) from_pool in
      if free \<noteq> [] then min_by_key (sort_key E s model g) free
      else if hard_gate then None
      else min_by_key (sort_key E s model g) available)"

definition select_next_credential :: "select_env \<Rightarrow> string option \<Rightarrow> string option \<Rightarrow> nat set \<Rightarrow> selector \<Rightarrow>
    nat option \<times> selector" where
  "select_next_credential E model user_id excluded s0 =
     (let m0 = manager s0;
          s1 = s0\<lparr>manager := m0\<lparr>pool := map (\<lambda>e. snd (family_key_cached e)) (pool m0)\<rparr>\<rparr>;
          (selectable, s2) = filter_entries (is_entry_selectable E (is_opus_model model) (model_key model))
                               (pool (manager s1)) s1;
          available = preferred excluded selectable in
      if available = [] then (None, s2)
      else
        let (bound, s3) = sticky_choice E user_id excluded available s2 in
        (case bound of
           Some e \<Rightarrow> (Some (eid e), commit_selection E e (model_key model) s3)
         | None \<Rightarrow>
             let (g, s4) = gather_signals E (model_key model) available selectable s3 in
             (case balanced_choice E (model_key model) excluded selectable g s4 of
                None \<Rightarrow> (None, s4)
              | Some e \<Rightarrow>
                  (Some (eid e), commit_selection E e (model_key model) (bind_selected E user_id (eid e) s4)))))"


subsection \<open>The selection of last resort\<close>

datatype fallback_tier = Ready | Shallow | Deep

instantiation fallback_tier :: linorder
begin

fun tier_rank :: "fallback_tier \<Rightarrow> nat" where
  "tier_rank Ready = 0"
| "tier_rank Shallow = 1"
| "tier_rank Deep = 2"

definition less_eq_fallback_tier :: "fallback_tier \<Rightarrow> fallback_tier \<Rightarrow> bool" where
  "less_eq_fallback_tier a b \<longleftrightarrow> tier_rank a \<le> tier_rank b"

definition less_fallback_tier :: "fallback_tier \<Rightarrow> fallback_tier \<Rightarrow> bool" where
  "less_fallback_tier a b \<longleftrightarrow> tier_rank a < tier_rank b"

instance
proof
  fix a b :: fallback_tier
  show "a \<le> b \<Longrightarrow> b \<le> a \<Longrightarrow> a = b"
    by (cases a; cases b) (simp_all add: less_eq_fallback_tier_def)
qed (auto simp: less_eq_fallback_tier_def less_fallback_tier_def)

end

definition fallback_cooldown_tier :: "instant \<Rightarrow> nat \<Rightarrow> cooldown_manager \<Rightarrow> fallback_tier" where
  "fallback_cooldown_tier now i cd =
     (case check_cooldown now i cd of
        None \<Rightarrow> Ready
      | Some (r, remaining) \<Rightarrow>
          if remaining = 0 then Ready
          else if is_auto_recoverable r \<and> as_secs remaining \<le> MAX_RETRY_AFTER_COOLDOWN_SECS then Shallow
          else Deep)"

definition fallback_key :: "instant \<Rightarrow> selector \<Rightarrow> credential_entry \<Rightarrow> fallback_tier \<times> nat \<times> nat" where
  "fallback_key now s e =
     (fallback_cooldown_tier now (eid e) (cooldown_table (manager s)),
      (if eid e \<le> fallback_cursor s then 1 else 0), eid e)"

definition select_ignoring_cooldown :: "select_env \<Rightarrow> string option \<Rightarrow> nat set \<Rightarrow> selector \<Rightarrow>
    nat option \<times> selector" where
  "select_ignoring_cooldown E model excluded s0 =
     (let (candidates, s1) = filter_entries
            (is_entry_selectable_inner E (is_opus_model model) (model_key model) True) (pool (manager s0)) s0 in
      (case min_by_key (fallback_key (now_of E) s1) (preferred excluded candidates) of
         None \<Rightarrow> (None, s1)
       | Some best \<Rightarrow>
           (Some (eid best),
            commit_selection E best (model_key model) (s1\<lparr>fallback_cursor := eid best\<rparr>))))"

subsection \<open>Why nothing could be selected\<close>

datatype wait_reason = Cooling | RpmRecovery | ConcurrencyFull

datatype wait_outcome = NoCandidate | Available | Wait duration wait_reason

text \<open>The wait for a credential that is neither cooling nor limited; \<open>None\<close> if there is none.\<close>

definition capacity_wait :: "select_env \<Rightarrow> credential_entry \<Rightarrow> selector \<Rightarrow>
    (duration \<times> wait_reason) option \<times> selector" where
  "capacity_wait E e s =
     (let (saturated, s1) = (if rpm_hard_gate (sched s) then is_rpm_saturated_with_limit E e s else (False, s)) in
      if saturated then
        let (counts, r1) = rpm_counts_for (now_of E) [eid e] (rpm_table (manager s1));
            fresh = (case counts (eid e) of Some n \<Rightarrow> n | None \<Rightarrow> 0);
            release_index = fresh - limit_of s1 e + 1;
            (age, r2) = rpm_kth_oldest_age (now_of E) (eid e) release_index r1;
            recover = (case age of Some a \<Rightarrow> window r2 - a | None \<Rightarrow> secs 1) in
        (Some (max recover (millis 250), RpmRecovery), s1\<lparr>manager := (manager s1)\<lparr>rpm_table := r2\<rparr>\<rparr>)
      else if at_max_concurrency s1 e then (Some (millis 250, ConcurrencyFull), s1)
      else (None, s1))"

text \<open>What one entry adds: \<open>None\<close> if it is no candidate, else the wait for it, or that there is none.\<close>

definition entry_wait :: "select_env \<Rightarrow> bool \<Rightarrow> string \<Rightarrow> credential_entry \<Rightarrow> selector \<Rightarrow>
    (duration \<times> wait_reason) option option \<times> selector" where
  "entry_wait E is_opus model e s =
     (if disabled e then (None, s)
      else if custom_api e then (None, s)
      else if is_opus \<and> \<not> supports_opus (upper_of E) (credentials e) then (None, s)
      else if model \<noteq> [] \<and> \<not> allows_model (credentials e) model then (None, s)
      else
        let (blocked, m1) = is_model_blocked (now_of E) (eid e) model (manager s);
            s1 = s\<lparr>manager := m1\<rparr> in
        if blocked then (None, s1)
        else
          (case (if cooldown_enabled m1 then check_cooldown (now_of E) (eid e) (cooldown_table m1) else None) of
             Some (r, remaining) \<Rightarrow> (Some (Some (remaining, Cooling)), s1)
           | None \<Rightarrow>
               let (limited, s2) =
                     (if rate_limit_enabled m1
                      then (let (r, rl) = check_rate_limit (draw_for E (eid e)) (now_of E) (eid e) (limiter m1)
                            in (case r of Inl w \<Rightarrow> Some w | Inr _ \<Rightarrow> None, s1\<lparr>manager := m1\<lparr>limiter := rl\<rparr>\<rparr>))
                      else (None, s1)) in
               (case limited of
                  Some w \<Rightarrow> (Some (Some (w, Cooling)), s2)
                | None \<Rightarrow>
                    let (w, s3) = capacity_wait E e s2 in (Some w, s3))))"

fun entry_waits :: "select_env \<Rightarrow> bool \<Rightarrow> string \<Rightarrow> credential_entry list \<Rightarrow> selector \<Rightarrow>
    (duration \<times> wait_reason) option list \<times> selector" where
  "entry_waits E is_opus model [] s = ([], s)"
| "entry_waits E is_opus model (e # es) s =
     (let (w, s1) = entry_wait E is_opus model e s; (ws, s2) = entry_waits E is_opus model es s1 in
      (case w of None \<Rightarrow> ws | Some x \<Rightarrow> x # ws, s2))"

definition transient_wait_outcome :: "select_env \<Rightarrow> string option \<Rightarrow> selector \<Rightarrow> wait_outcome \<times> selector" where
  "transient_wait_outcome E model s0 =
     (let (ws, s1) = entry_waits E (is_opus_model model) (model_key model) (pool (manager s0)) s0 in
      (if ws = [] then NoCandidate
       else if None \<in> set ws then Available
       else (case min_by_key fst (List.map_filter (\<lambda>w. w) ws) of
               Some (d, r) \<Rightarrow> Wait d r | None \<Rightarrow> Available),
       s1))"

end
