(* ===== verification/SelectionLaws.thy ===== *)
theory SelectionLaws
  imports Selection
    PoolLaws
begin

text \<open>
  What the selection promises: which credential it may pick, that it finds one exactly if the diagnosis
  says one is available, and the order in which the selection of last resort goes through the pool.

  The tables are read through operations that drop what is out of date. \<open>gate_view\<close> is what the
  gates of one credential read of the state; every step of a selection before the last keeps it.
\<close>

subsection \<open>Reading twice\<close>

lemma rate_check_idem: "fst (rate_check cfg d now (snd (rate_check cfg d now s))) = fst (rate_check cfg d now s)"
proof -
  define s1 where "s1 = (if now \<ge> count_reset_at s
    then s\<lparr>daily_count := 0, count_reset_at := now + secs 86400\<rparr> else s)"
  have l: "\<not> count_reset_at s1 \<le> now" by (simp add: s1_def secs_def)
  have r: "rate_check cfg d now s = rate_check cfg d now s1"
    using l by (simp add: rate_check_def s1_def [symmetric] Let_def)
  show ?thesis unfolding r using l
    by (auto simp: rate_check_def Let_def split: option.split)
qed

lemma check_rate_limit_idem:
  "fst (check_rate_limit x now i (snd (check_rate_limit y now j rl))) = fst (check_rate_limit x now i rl)"
  if "i = j \<Longrightarrow> x = y"
  using that rate_check_idem [of "rl_config rl" "calculate_interval (rl_config rl) y" now "state_of now j rl"]
  by (cases "i = j") (auto simp: check_rate_limit_def state_of_def split_beta Let_def)

lemma check_rate_limit_config [simp]: "rl_config (snd (check_rate_limit x now i rl)) = rl_config rl"
  by (simp add: check_rate_limit_def split_beta Let_def)

lemma is_model_blocked_keeps:
  "pool (snd (is_model_blocked now i model m)) = pool m"
  "rpm_table (snd (is_model_blocked now i model m)) = rpm_table m"
  "limiter (snd (is_model_blocked now i model m)) = limiter m"
  "cooldown_table (snd (is_model_blocked now i model m)) = cooldown_table m"
  "cooldown_enabled (snd (is_model_blocked now i model m)) = cooldown_enabled m"
  "rate_limit_enabled (snd (is_model_blocked now i model m)) = rate_limit_enabled m"
  "affinity_table (snd (is_model_blocked now i model m)) = affinity_table m"
  "health_table (snd (is_model_blocked now i model m)) = health_table m"
  "balance_snapshots (snd (is_model_blocked now i model m)) = balance_snapshots m"
  by (simp_all add: is_model_blocked_def split: option.split)

lemma is_model_blocked_idem:
  "fst (is_model_blocked now i model (snd (is_model_blocked now j model' m))) = fst (is_model_blocked now i model m)"
  by (auto simp: is_model_blocked_def split: option.splits)

lemma blocked_iff:
  "fst (is_model_blocked now i model m) \<longleftrightarrow> model \<noteq> [] \<and>
     (case model_blocklist m (i, model) of Some t \<Rightarrow> now - t < MODEL_BLOCK_TTL | None \<Rightarrow> False)"
  by (simp add: is_model_blocked_def split: option.split)

subsection \<open>What the gates read\<close>

definition hits_now :: "select_env \<Rightarrow> selector \<Rightarrow> nat \<Rightarrow> nat" where
  "hits_now E s i = as_u32 (length (current (now_of E) (window (rpm_table (manager s))) (hits (rpm_table (manager s))) i))"

definition gate_view :: "select_env \<Rightarrow> selector \<Rightarrow>
    (sched_config \<times> (nat \<Rightarrow> nat) \<times> bool \<times> cooldown_manager \<times> bool \<times> rate_limit_config) \<times>
    (nat \<Rightarrow> duration + unit) \<times> (nat \<Rightarrow> string \<Rightarrow> bool) \<times> (nat \<Rightarrow> instant list) \<times> duration" where
  "gate_view E s =
     ((sched s, inflight_of s, cooldown_enabled (manager s), cooldown_table (manager s), rate_limit_enabled (manager s),
        rl_config (limiter (manager s))),
      (\<lambda>i. fst (check_rate_limit (draw_for E i) (now_of E) i (limiter (manager s)))),
      (\<lambda>i model. fst (is_model_blocked (now_of E) i model (manager s))),
      current (now_of E) (window (rpm_table (manager s))) (hits (rpm_table (manager s))),
      window (rpm_table (manager s)))"

lemma gate_viewI:
  assumes "sched s' = sched s" and "inflight_of s' = inflight_of s"
    and "cooldown_enabled (manager s') = cooldown_enabled (manager s)"
    and "cooldown_table (manager s') = cooldown_table (manager s)"
    and "rate_limit_enabled (manager s') = rate_limit_enabled (manager s)"
    and "rl_config (limiter (manager s')) = rl_config (limiter (manager s))"
    and "\<And>i. fst (check_rate_limit (draw_for E i) (now_of E) i (limiter (manager s'))) =
      fst (check_rate_limit (draw_for E i) (now_of E) i (limiter (manager s)))"
    and "\<And>i model. fst (is_model_blocked (now_of E) i model (manager s')) =
      fst (is_model_blocked (now_of E) i model (manager s))"
    and "window (rpm_table (manager s')) = window (rpm_table (manager s))"
    and "current (now_of E) (window (rpm_table (manager s))) (hits (rpm_table (manager s'))) =
      current (now_of E) (window (rpm_table (manager s))) (hits (rpm_table (manager s)))"
  shows "gate_view E s' = gate_view E s"
  using assms by (simp add: gate_view_def)

lemma gate_view_reads:
  assumes "gate_view E s' = gate_view E s"
  shows "sched s' = sched s" "inflight_of s' = inflight_of s"
    "cooldown_enabled (manager s') = cooldown_enabled (manager s)"
    "cooldown_table (manager s') = cooldown_table (manager s)"
    "rate_limit_enabled (manager s') = rate_limit_enabled (manager s)"
    "fst (check_rate_limit (draw_for E i) (now_of E) i (limiter (manager s'))) =
      fst (check_rate_limit (draw_for E i) (now_of E) i (limiter (manager s)))"
    "fst (is_model_blocked (now_of E) i model (manager s')) = fst (is_model_blocked (now_of E) i model (manager s))"
    "hits_now E s' i = hits_now E s i" "limit_of s' e = limit_of s e"
    "at_max_concurrency s' e = at_max_concurrency s e"
    "rl_config (limiter (manager s')) = rl_config (limiter (manager s))"
  using assms
  by (auto simp: gate_view_def hits_now_def limit_of_def at_max_concurrency_def fun_eq_iff)

text \<open>The gates of an entry, for one reading of the state.\<close>

definition passes :: "select_env \<Rightarrow> bool \<Rightarrow> string \<Rightarrow> bool \<Rightarrow> selector \<Rightarrow> credential_entry \<Rightarrow> bool" where
  "passes E is_opus model ignore_cooldown s e \<longleftrightarrow>
     \<not> disabled e \<and> \<not> custom_api e \<and>
     (is_opus \<longrightarrow> supports_opus (upper_of E) (credentials e)) \<and>
     (model \<noteq> [] \<longrightarrow> allows_model (credentials e) model) \<and>
     \<not> fst (is_model_blocked (now_of E) (eid e) model (manager s)) \<and>
     (ignore_cooldown \<or> \<not> cooldown_enabled (manager s) \<or>
        is_available (now_of E) (eid e) (cooldown_table (manager s))) \<and>
     (rate_limit_enabled (manager s) \<longrightarrow>
        fst (check_rate_limit (draw_for E (eid e)) (now_of E) (eid e) (limiter (manager s))) = Inr ()) \<and>
     inflight_of s (eid e) < CREDENTIAL_MAX_CONCURRENCY"

lemma passes_cong: "gate_view E s' = gate_view E s \<Longrightarrow> passes E b model ig s' e = passes E b model ig s e"
  using gate_view_reads [of E s' s] by (simp add: passes_def)

lemma passes_iff: "fst (is_entry_selectable_inner E b model ig e s) = passes E b model ig s e"
proof -
  have ok: "\<not> isl r \<longleftrightarrow> r = Inr ()" for r :: "duration + unit" by (cases r) simp_all
  let ?m = "snd (is_model_blocked (now_of E) (eid e) model (manager s))"
  show ?thesis
  proof (cases "disabled e \<or> custom_api e \<or> b \<and> \<not> supports_opus (upper_of E) (credentials e) \<or>
      model \<noteq> [] \<and> \<not> allows_model (credentials e) model")
    case True
    then show ?thesis by (elim disjE) (simp_all add: is_entry_selectable_inner_def passes_def)
  next
    case False
    then show ?thesis
      by (cases "rate_limit_enabled (manager s)")
        (simp_all add: is_entry_selectable_inner_def passes_def at_max_concurrency_def split_beta Let_def
          is_model_blocked_keeps ok not_le, blast+)
  qed
qed

lemma inner_view: "gate_view E (snd (is_entry_selectable_inner E b model ig e s)) = gate_view E s"
proof (rule gate_viewI)
  fix i
  show "fst (check_rate_limit (draw_for E i) (now_of E) i
        (limiter (manager (snd (is_entry_selectable_inner E b model ig e s))))) =
      fst (check_rate_limit (draw_for E i) (now_of E) i (limiter (manager s)))"
    by (simp add: is_entry_selectable_inner_def split_beta Let_def is_model_blocked_keeps check_rate_limit_idem)
next
  fix i model'
  show "fst (is_model_blocked (now_of E) i model' (manager (snd (is_entry_selectable_inner E b model ig e s)))) =
      fst (is_model_blocked (now_of E) i model' (manager s))"
    using is_model_blocked_idem [of "now_of E" i model' "eid e" model "manager s"]
    by (simp add: is_entry_selectable_inner_def split_beta Let_def)
       (simp add: is_model_blocked_def split: option.split)
qed (simp_all add: is_entry_selectable_inner_def split_beta Let_def is_model_blocked_keeps)


text \<open>The rest of the state that a test leaves alone.\<close>

definition same_rest :: "selector \<Rightarrow> selector \<Rightarrow> bool" where
  "same_rest s s' \<longleftrightarrow> pool (manager s') = pool (manager s) \<and> affinity_table (manager s') = affinity_table (manager s) \<and>
     fallback_cursor s' = fallback_cursor s"

lemma same_rest_refl [simp]: "same_rest s s" by (simp add: same_rest_def)

lemma same_rest_trans: "same_rest a b \<Longrightarrow> same_rest b c \<Longrightarrow> same_rest a c"
  by (simp add: same_rest_def)

lemma inner_rest: "same_rest s (snd (is_entry_selectable_inner E b model ig e s))"
  by (simp add: same_rest_def is_entry_selectable_inner_def split_beta Let_def is_model_blocked_keeps)

lemma filter_entries_passes:
  "fst (filter_entries (is_entry_selectable_inner E b model ig) es s) = filter (passes E b model ig s) es \<and>
   gate_view E (snd (filter_entries (is_entry_selectable_inner E b model ig) es s)) = gate_view E s \<and>
   same_rest s (snd (filter_entries (is_entry_selectable_inner E b model ig) es s))"
proof (induction es arbitrary: s)
  case (Cons e es)
  let ?s1 = "snd (is_entry_selectable_inner E b model ig e s)"
  have v: "gate_view E ?s1 = gate_view E s" by (rule inner_view)
  have "passes E b model ig ?s1 = passes E b model ig s" using passes_cong [OF v] by (simp add: fun_eq_iff)
  then show ?case
    using Cons.IH [of ?s1] v passes_iff [of E b model ig e s] same_rest_trans [OF inner_rest [of s E b model ig e]]
    by (simp add: split_beta)
qed simp

subsection \<open>Reading the other tables\<close>

lemma rpm_count_now: "fst (rpm_count (now_of E) i (rpm_table (manager s))) = hits_now E s i"
  using get_pruned_view [of queue_len "now_of E" "window (rpm_table (manager s))" i "hits (rpm_table (manager s))",
      OF queue_len_none]
  by (simp add: rpm_count_def hits_now_def split_beta)

lemma saturated_iff: "fst (is_rpm_saturated_with_limit E e s) \<longleftrightarrow> limit_of s e \<le> hits_now E s (eid e)"
  by (simp add: is_rpm_saturated_with_limit_def split_beta rpm_count_now)

lemma rpm_count_current:
  "window (snd (rpm_count t i r)) = window r"
  "current t (window r) (hits (snd (rpm_count t i r))) = current t (window r) (hits r)"
  by (simp_all add: rpm_count_def split_beta current_get_pruned)

lemma gate_view_rpm:
  "window r = window (rpm_table (manager s)) \<Longrightarrow>
    current (now_of E) (window r) (hits r) = current (now_of E) (window r) (hits (rpm_table (manager s))) \<Longrightarrow>
    gate_view E (s\<lparr>manager := (manager s)\<lparr>rpm_table := r\<rparr>\<rparr>) = gate_view E s"
  by (simp add: gate_view_def blocked_iff)

lemma gate_view_tables [simp]:
  "gate_view E (s\<lparr>manager := (manager s)\<lparr>health_table := h\<rparr>\<rparr>) = gate_view E s"
  "gate_view E (s\<lparr>manager := (manager s)\<lparr>affinity_table := a\<rparr>\<rparr>) = gate_view E s"
  "gate_view E (s\<lparr>manager := (manager s)\<lparr>pool := es\<rparr>\<rparr>) = gate_view E s"
  by (simp_all add: gate_view_def blocked_iff)

lemma saturated_view:
  "gate_view E (snd (is_rpm_saturated_with_limit E e s)) = gate_view E s"
  "same_rest s (snd (is_rpm_saturated_with_limit E e s))"
  by (simp_all add: is_rpm_saturated_with_limit_def split_beta gate_view_rpm rpm_count_current same_rest_def)

lemma sticky_healthy_view:
  "gate_view E (snd (is_sticky_reuse_healthy E e s)) = gate_view E s"
  "pool (manager (snd (is_sticky_reuse_healthy E e s))) = pool (manager s)"
  "fst (is_sticky_reuse_healthy E e s) \<Longrightarrow> hits_now E s (eid e) < limit_of s e"
  using saturated_view(1) [of E e s] saturated_view(2) [of s E e] saturated_iff [of E e s]
  by (auto simp: is_sticky_reuse_healthy_def split_beta Let_def same_rest_def split: if_splits)

lemma sticky_choice_view:
  "gate_view E (snd (sticky_choice E uid ex av s)) = gate_view E s"
  "pool (manager (snd (sticky_choice E uid ex av s))) = pool (manager s)"
  "fst (sticky_choice E uid ex av s) = Some e \<Longrightarrow>
     e \<in> set av \<and> eid e \<notin> ex \<and> hits_now E s (eid e) < limit_of s e"
proof -
  have v: "gate_view E (s\<lparr>manager := (manager s)\<lparr>affinity_table := a\<rparr>\<rparr>) = gate_view E s" for a by simp
  note h = sticky_healthy_view
  have hh: "hits_now E (s\<lparr>manager := (manager s)\<lparr>affinity_table := a\<rparr>\<rparr>) i = hits_now E s i" for a i
    by (simp add: hits_now_def)
  have ll: "limit_of (s\<lparr>manager := (manager s)\<lparr>affinity_table := a\<rparr>\<rparr>) e = limit_of s e" for a e
    by (simp add: limit_of_def)
  show "gate_view E (snd (sticky_choice E uid ex av s)) = gate_view E s"
    by (simp add: sticky_choice_def split_beta Let_def h(1) split: option.split)
  show "pool (manager (snd (sticky_choice E uid ex av s))) = pool (manager s)"
    by (simp add: sticky_choice_def split_beta Let_def h(2) split: option.split)
  show "e \<in> set av \<and> eid e \<notin> ex \<and> hits_now E s (eid e) < limit_of s e"
    if some: "fst (sticky_choice E uid ex av s) = Some e"
  proof -
    have h3: "hits_now E s (eid e) < limit_of s e"
      if "fst (is_sticky_reuse_healthy E e (s\<lparr>manager := (manager s)\<lparr>affinity_table := a\<rparr>\<rparr>))" for a
      using h(3) [OF that] by (simp add: hh ll)
    obtain a i where "find_entry i av = Some e" "i \<notin> ex"
        "fst (is_sticky_reuse_healthy E e (s\<lparr>manager := (manager s)\<lparr>affinity_table := a\<rparr>\<rparr>))"
      using some by (auto simp: sticky_choice_def split_beta Let_def split: option.splits if_splits)
    then show ?thesis using find_entry_SomeD h3 by blast
  qed
qed


subsection \<open>The signals and the choice\<close>

lemma gather_view:
  "gate_view E (snd (gather_signals E model av es s)) = gate_view E s"
  "pool (manager (snd (gather_signals E model av es s))) = pool (manager s)"
  "e \<in> set es \<Longrightarrow> rpm_of (fst (gather_signals E model av es s)) e = hits_now E s (eid e)"
proof -
  let ?t = "now_of E" and ?r = "rpm_table (manager s)"
  let ?r1 = "snd (rpm_counts_for ?t (map eid es) ?r)"
  let ?r2 = "snd (rpm_ramp_counts_for ?t (map eid es) (secs RAMP_RECENT_SECS) ?r1)"
  let ?r3 = "snd (rpm_model_counts_for ?t (map eid es) model ?r2)"
  have w: "window ?r1 = window ?r" "window ?r2 = window ?r" "window ?r3 = window ?r"
    by (simp_all add: rpm_counts_for_def rpm_ramp_counts_for_def rpm_model_counts_for_def split_beta)
  have c1: "current ?t (window ?r) (hits ?r1) = current ?t (window ?r) (hits ?r)"
    using conjunct2 [OF query_all_view [OF queue_len_none]] by (simp add: rpm_counts_for_def split_beta)
  have c2: "current ?t (window ?r) (hits ?r2) = current ?t (window ?r) (hits ?r)"
    using c1 w
    by (simp add: rpm_ramp_counts_for_def split_beta
        conjunct2 [OF query_all_view [OF ramp_counts_none [of "now_of E" "secs RAMP_RECENT_SECS"]]])
  have c3: "hits ?r3 = hits ?r2" by (simp add: rpm_model_counts_for_def split_beta)
  show "gate_view E (snd (gather_signals E model av es s)) = gate_view E s"
    by (simp add: gather_signals_def split_beta Let_def gate_view_def blocked_iff w c1 c2 c3)
  show "pool (manager (snd (gather_signals E model av es s))) = pool (manager s)"
    by (simp add: gather_signals_def split_beta Let_def)
  have "fst (rpm_counts_for ?t (map eid es) ?r) i = (if i \<in> set (map eid es) then Some (hits_now E s i) else None)" for i
    using query_all_view [OF queue_len_none, of ?t "window ?r" id "map eid es" "hits ?r" Map.empty]
    by (simp add: rpm_counts_for_def split_beta hits_now_def)
  then show "rpm_of (fst (gather_signals E model av es s)) e = hits_now E s (eid e)" if "e \<in> set es"
    using that by (simp add: rpm_of_def gather_signals_def split_beta Let_def)
qed

lemma preferred_facts:
  "set (preferred ex es) \<subseteq> set es"
  "preferred ex es = [] \<longleftrightarrow> es = []"
  "e \<in> set es \<Longrightarrow> eid e \<notin> ex \<Longrightarrow> e' \<in> set (preferred ex es) \<Longrightarrow> eid e' \<notin> ex"
  "\<not> narrowed ex es \<Longrightarrow> preferred ex es = es"
proof -
  have "filter (\<lambda>e. eid e \<notin> ex) es = es" if "\<not> length (filter (\<lambda>e. eid e \<notin> ex) es) < length es"
    using that by (metis filter_id_conv length_filter_less)
  then show "\<not> narrowed ex es \<Longrightarrow> preferred ex es = es"
    by (auto simp: narrowed_def preferred_def not_tried_def split: if_splits)
qed (auto simp: preferred_def not_tried_def filter_empty_conv split: if_splits)

text \<open>The choice of the balanced strategy, with \<open>free e\<close> for an entry below its limit.\<close>

definition choice_pool :: "nat set \<Rightarrow> credential_entry list \<Rightarrow> signals \<Rightarrow> selector \<Rightarrow> credential_entry list" where
  "choice_pool ex es g s =
     (if rpm_hard_gate (sched s) \<and> narrowed ex es \<and> \<not> list_ex (not_saturated s g) (preferred ex es) \<and>
         list_ex (not_saturated s g) es
      then es else preferred ex es)"

lemma balanced_choice_eq:
  "balanced_choice E model ex es g s =
     (let free = filter (not_saturated s g) (choice_pool ex es g s) in
      if free \<noteq> [] then min_by_key (sort_key E s model g) free
      else if rpm_hard_gate (sched s) then None
      else min_by_key (sort_key E s model g) (preferred ex es))"
  by (simp add: balanced_choice_def choice_pool_def Let_def)

lemma balanced_choice_Some:
  assumes "balanced_choice E model ex es g s = Some e"
  shows "e \<in> set es"
    and "rpm_hard_gate (sched s) \<Longrightarrow> not_saturated s g e"
    and "e' \<in> set (preferred ex es) \<Longrightarrow> not_saturated s g e' \<Longrightarrow>
      not_saturated s g e \<and> e \<in> set (preferred ex es) \<and> sort_key E s model g e \<le> sort_key E s model g e'"
    and "e \<in> set (preferred ex es) \<or> rpm_hard_gate (sched s) \<and>
      (\<forall>e'\<in>set (preferred ex es). \<not> not_saturated s g e')"
proof -
  let ?free = "filter (not_saturated s g) (choice_pool ex es g s)"
  consider (free) "?free \<noteq> []" "min_by_key (sort_key E s model g) ?free = Some e"
    | (soft) "?free = []" "\<not> rpm_hard_gate (sched s)"
        "min_by_key (sort_key E s model g) (preferred ex es) = Some e"
    using assms by (auto simp: balanced_choice_eq Let_def split: if_splits)
  then have *: "e \<in> set es \<and> (rpm_hard_gate (sched s) \<longrightarrow> not_saturated s g e) \<and>
      (\<forall>e'\<in>set (preferred ex es). not_saturated s g e' \<longrightarrow>
        not_saturated s g e \<and> e \<in> set (preferred ex es) \<and> sort_key E s model g e \<le> sort_key E s model g e') \<and>
      (e \<in> set (preferred ex es) \<or> rpm_hard_gate (sched s) \<and>
        (\<forall>e'\<in>set (preferred ex es). \<not> not_saturated s g e'))"
  proof cases
    case free
    have m: "e \<in> set ?free" "\<forall>e'\<in>set ?free. sort_key E s model g e \<le> sort_key E s model g e'"
      using min_by_key_Some [OF free(2)] by simp_all
    then show ?thesis using preferred_facts(1) [of ex es]
      by (auto simp: choice_pool_def list_ex_iff split: if_splits)
  next
    case soft
    have m: "e \<in> set (preferred ex es)" using min_by_key_Some [OF soft(3)] by simp
    moreover have "\<forall>e'\<in>set (preferred ex es). \<not> not_saturated s g e'"
      using soft(1, 2) by (simp add: choice_pool_def filter_empty_conv)
    ultimately show ?thesis using soft(2) preferred_facts(1) [of ex es] by blast
  qed
  then show "e \<in> set es" "rpm_hard_gate (sched s) \<Longrightarrow> not_saturated s g e"
    "e' \<in> set (preferred ex es) \<Longrightarrow> not_saturated s g e' \<Longrightarrow>
      not_saturated s g e \<and> e \<in> set (preferred ex es) \<and> sort_key E s model g e \<le> sort_key E s model g e'"
    "e \<in> set (preferred ex es) \<or> rpm_hard_gate (sched s) \<and> (\<forall>e'\<in>set (preferred ex es). \<not> not_saturated s g e')"
    by simp_all
qed

lemma balanced_choice_None:
  "balanced_choice E model ex es g s = None \<longleftrightarrow>
     es = [] \<or> rpm_hard_gate (sched s) \<and> (\<forall>e\<in>set es. \<not> not_saturated s g e)"
proof -
  have "filter (not_saturated s g) (choice_pool ex es g s) = [] \<longleftrightarrow> (\<forall>e\<in>set es. \<not> not_saturated s g e)"
    if "rpm_hard_gate (sched s)"
  proof (cases "narrowed ex es")
    case True
    then show ?thesis using that preferred_facts(1) [of ex es]
      by (auto simp: choice_pool_def list_ex_iff filter_empty_conv)
  next
    case False
    then show ?thesis using preferred_facts(4) [OF False] by (simp add: choice_pool_def filter_empty_conv)
  qed
  then show ?thesis
    using preferred_facts(2) [of ex es]
    by (auto simp: balanced_choice_eq Let_def choice_pool_def filter_empty_conv split: if_splits)
qed


subsection \<open>The whole selection\<close>

definition cached_pool :: "selector \<Rightarrow> credential_entry list" where
  "cached_pool s = map (\<lambda>e. snd (family_key_cached e)) (pool (manager s))"

definition candidates :: "select_env \<Rightarrow> string option \<Rightarrow> selector \<Rightarrow> credential_entry list" where
  "candidates E model s = filter (passes E (is_opus_model model) (model_key model) False s) (cached_pool s)"

lemma select_start:
  obtains s2 where "filter_entries (is_entry_selectable E (is_opus_model model) (model_key model)) (cached_pool s)
      (s\<lparr>manager := (manager s)\<lparr>pool := cached_pool s\<rparr>\<rparr>) = (candidates E model s, s2)"
    and "gate_view E s2 = gate_view E s" and "pool (manager s2) = cached_pool s"
proof -
  let ?s1 = "s\<lparr>manager := (manager s)\<lparr>pool := cached_pool s\<rparr>\<rparr>"
  let ?f = "filter_entries (is_entry_selectable E (is_opus_model model) (model_key model)) (cached_pool s) ?s1"
  have v: "gate_view E ?s1 = gate_view E s" by simp
  have "passes E b key False ?s1 = passes E b key False s" for b key using passes_cong [OF v] by (simp add: fun_eq_iff)
  then have "fst ?f = candidates E model s \<and> gate_view E (snd ?f) = gate_view E s \<and> pool (manager (snd ?f)) = cached_pool s"
    using filter_entries_passes [of E "is_opus_model model" "model_key model" False "cached_pool s" ?s1]
    by (simp add: is_entry_selectable_def candidates_def same_rest_def)
  then show ?thesis using that [of "snd ?f"] by (metis prod.collapse)
qed

lemma not_saturated_iff:
  assumes "gate_view E s4 = gate_view E s" and "e \<in> set es"
    and "gate_view E s3 = gate_view E s" and "s4 = snd (gather_signals E key av es s3)"
  shows "not_saturated s4 (fst (gather_signals E key av es s3)) e \<longleftrightarrow> hits_now E s (eid e) < limit_of s e"
  using gather_view(3) [OF assms(2), of E key av s3] gate_view_reads(8) [OF assms(3)] gate_view_reads(9) [OF assms(1)]
  by (simp add: not_saturated_def)

lemma select_cases:
  obtains (none) "candidates E model s = []" "fst (select_next_credential E model uid ex s) = None"
      "gate_view E (snd (select_next_credential E model uid ex s)) = gate_view E s"
      "pool (manager (snd (select_next_credential E model uid ex s))) = cached_pool s"
  | (bound) e s3 where "e \<in> set (preferred ex (candidates E model s))" "eid e \<notin> ex"
      "hits_now E s (eid e) < limit_of s e" "gate_view E s3 = gate_view E s" "pool (manager s3) = cached_pool s"
      "select_next_credential E model uid ex s = (Some (eid e), commit_selection E e (model_key model) s3)"
  | (full) "rpm_hard_gate (sched s)" "\<forall>e\<in>set (candidates E model s). limit_of s e \<le> hits_now E s (eid e)"
      "fst (select_next_credential E model uid ex s) = None"
      "gate_view E (snd (select_next_credential E model uid ex s)) = gate_view E s"
      "pool (manager (snd (select_next_credential E model uid ex s))) = cached_pool s"
  | (balanced) e g s4 where "candidates E model s \<noteq> []" "gate_view E s4 = gate_view E s" "pool (manager s4) = cached_pool s"
      "\<And>c. c \<in> set (candidates E model s) \<Longrightarrow> not_saturated s4 g c \<longleftrightarrow> hits_now E s (eid c) < limit_of s c"
      "balanced_choice E (model_key model) ex (candidates E model s) g s4 = Some e"
      "select_next_credential E model uid ex s =
         (Some (eid e), commit_selection E e (model_key model) (bind_selected E uid (eid e) s4))"
proof -
  let ?r = "select_next_credential E model uid ex s"
  let ?c = "candidates E model s" and ?k = "model_key model"
  obtain s2 where s2: "filter_entries (is_entry_selectable E (is_opus_model model) ?k) (cached_pool s)
      (s\<lparr>manager := (manager s)\<lparr>pool := cached_pool s\<rparr>\<rparr>) = (?c, s2)"
      "gate_view E s2 = gate_view E s" "pool (manager s2) = cached_pool s"
    by (rule select_start)
  let ?av = "preferred ex ?c"
  have r: "?r = (if ?av = [] then (None, s2)
      else let (bound, s3) = sticky_choice E uid ex ?av s2 in
        (case bound of
           Some e \<Rightarrow> (Some (eid e), commit_selection E e ?k s3)
         | None \<Rightarrow>
             let (g, s4) = gather_signals E ?k ?av ?c s3 in
             (case balanced_choice E ?k ex ?c g s4 of
                None \<Rightarrow> (None, s4)
              | Some e \<Rightarrow> (Some (eid e), commit_selection E e ?k (bind_selected E uid (eid e) s4)))))"
    using s2(1) by (simp add: select_next_credential_def Let_def cached_pool_def [symmetric])
  show thesis
  proof (cases "?c = []")
    case True
    then have "?r = (None, s2)" using r preferred_facts(2) [of ex ?c] by simp
    then show ?thesis using True s2 none by simp
  next
    case False
    then have av: "?av \<noteq> []" using preferred_facts(2) [of ex ?c] by simp
    obtain b s3 where b: "sticky_choice E uid ex ?av s2 = (b, s3)" by force
    have s3: "gate_view E s3 = gate_view E s" "pool (manager s3) = cached_pool s"
      using sticky_choice_view(1, 2) [of E uid ex ?av s2] b s2 by simp_all
    show ?thesis
    proof (cases b)
      case (Some e)
      have "hits_now E s (eid e) < limit_of s e" "e \<in> set ?av" "eid e \<notin> ex"
        using sticky_choice_view(3) [of E uid ex ?av s2 e] b Some gate_view_reads(8, 9) [OF s2(2)] by simp_all
      then show ?thesis using bound [of e s3] s3 r av b Some by simp
    next
      case None
      obtain g s4 where g: "gather_signals E ?k ?av ?c s3 = (g, s4)" by force
      have s4: "gate_view E s4 = gate_view E s" "pool (manager s4) = cached_pool s"
        using gather_view(1, 2) [of E ?k ?av ?c s3] g s3 by simp_all
      have sat: "not_saturated s4 g c \<longleftrightarrow> hits_now E s (eid c) < limit_of s c" if "c \<in> set ?c" for c
        using not_saturated_iff [OF s4(1) that s3(1), of ?k ?av] g by simp
      have r': "?r = (case balanced_choice E ?k ex ?c g s4 of
                None \<Rightarrow> (None, s4)
              | Some e \<Rightarrow> (Some (eid e), commit_selection E e ?k (bind_selected E uid (eid e) s4)))"
        using r av b None g by simp
      show ?thesis
      proof (cases "balanced_choice E ?k ex ?c g s4")
        case None
        then have "rpm_hard_gate (sched s4)" "\<forall>e\<in>set ?c. \<not> not_saturated s4 g e"
          using balanced_choice_None [of E ?k ex ?c g s4] False by simp_all
        then show ?thesis using full r' None s4 sat gate_view_reads(1) [OF s4(1)] by (simp add: not_less)
      next
        case (Some e)
        then show ?thesis using balanced [of s4 g e] False s4 sat r' by simp
      qed
    qed
  qed
qed


subsection \<open>The diagnosis\<close>

definition saturated_gate :: "select_env \<Rightarrow> selector \<Rightarrow> credential_entry \<Rightarrow> bool" where
  "saturated_gate E s e \<longleftrightarrow> rpm_hard_gate (sched s) \<and> limit_of s e \<le> hits_now E s (eid e)"

lemma capacity_wait_view: "gate_view E (snd (capacity_wait E e s)) = gate_view E s"
proof -
  have tail: "gate_view E (s'\<lparr>manager := (manager s')\<lparr>rpm_table :=
      snd (rpm_kth_oldest_age (now_of E) i k (snd (rpm_counts_for (now_of E) [j] (rpm_table (manager s')))))\<rparr>\<rparr>) = gate_view E s'"
    for s' i j k
  proof (rule gate_view_rpm)
    let ?r = "rpm_table (manager s')" and ?t = "now_of E"
    let ?r1 = "snd (rpm_counts_for ?t [j] ?r)"
    have w: "window (snd (rpm_kth_oldest_age ?t i k r)) = window r"
      "current ?t (window r) (hits (snd (rpm_kth_oldest_age ?t i k r))) = current ?t (window r) (hits r)" for r
      by (simp_all add: rpm_kth_oldest_age_def split_beta current_get_pruned Let_def)
    have "window ?r1 = window ?r" "current ?t (window ?r) (hits ?r1) = current ?t (window ?r) (hits ?r)"
      by (simp_all add: rpm_counts_for_def split_beta Let_def current_get_pruned)
    then show "window (snd (rpm_kth_oldest_age ?t i k ?r1)) = window ?r"
      "current ?t (window (snd (rpm_kth_oldest_age ?t i k ?r1))) (hits (snd (rpm_kth_oldest_age ?t i k ?r1))) =
        current ?t (window (snd (rpm_kth_oldest_age ?t i k ?r1))) (hits ?r)"
      using w [of ?r1] by simp_all
  qed
  show ?thesis
    using saturated_view(1) [of E e s] by (simp add: capacity_wait_def split_beta Let_def tail)
qed

lemma capacity_wait_free:
  "fst (capacity_wait E e s) = None \<longleftrightarrow> inflight_of s (eid e) < CREDENTIAL_MAX_CONCURRENCY \<and> \<not> saturated_gate E s e"
proof -
  have "inflight_of (snd (is_rpm_saturated_with_limit E e s)) = inflight_of s"
    by (simp add: is_rpm_saturated_with_limit_def split_beta)
  then show ?thesis
    by (auto simp: capacity_wait_def saturated_gate_def at_max_concurrency_def saturated_iff split_beta Let_def)
qed

lemma gated_view:
  fixes E :: select_env and s :: selector and i :: nat and model :: string
  defines "m1 \<equiv> snd (is_model_blocked (now_of E) i model (manager s))"
  shows "gate_view E (s\<lparr>manager := m1\<rparr>) = gate_view E s"
    and "gate_view E (s\<lparr>manager := m1\<lparr>limiter := snd (check_rate_limit (draw_for E i) (now_of E) i (limiter m1))\<rparr>\<rparr>) =
      gate_view E s"
proof -
  note keeps = is_model_blocked_keeps
  have b: "fst (is_model_blocked (now_of E) j k m1) = fst (is_model_blocked (now_of E) j k (manager s))" for j k
    unfolding m1_def by (rule is_model_blocked_idem)
  then have b': "fst (is_model_blocked (now_of E) j k (m1\<lparr>limiter := l\<rparr>)) = fst (is_model_blocked (now_of E) j k (manager s))" for j k l
    by (simp add: blocked_iff)
  show "gate_view E (s\<lparr>manager := m1\<rparr>) = gate_view E s"
    by (rule gate_viewI) (simp_all add: b, simp_all add: m1_def keeps)
  show "gate_view E (s\<lparr>manager := m1\<lparr>limiter := snd (check_rate_limit (draw_for E i) (now_of E) i (limiter m1))\<rparr>\<rparr>) =
      gate_view E s"
    by (rule gate_viewI) (simp_all add: b', simp_all add: m1_def keeps check_rate_limit_idem)
qed

lemma entry_wait_spec:
  "gate_view E (snd (entry_wait E b model e s)) = gate_view E s"
  "fst (entry_wait E b model e s) = Some None \<longleftrightarrow> passes E b model False s e \<and> \<not> saturated_gate E s e"
proof -
  let ?m1 = "snd (is_model_blocked (now_of E) (eid e) model (manager s))"
  let ?c = "check_rate_limit (draw_for E (eid e)) (now_of E) (eid e) (limiter ?m1)"
  let ?s2 = "if rate_limit_enabled ?m1 then s\<lparr>manager := ?m1\<lparr>limiter := snd ?c\<rparr>\<rparr> else s\<lparr>manager := ?m1\<rparr>"
  let ?open = "\<not> disabled e \<and> \<not> custom_api e \<and> (b \<longrightarrow> supports_opus (upper_of E) (credentials e)) \<and>
    (model \<noteq> [] \<longrightarrow> allows_model (credentials e) model) \<and>
    \<not> fst (is_model_blocked (now_of E) (eid e) model (manager s))"
  let ?cool = "cooldown_enabled ?m1 \<and> \<not> is_available (now_of E) (eid e) (cooldown_table ?m1)"
  let ?limited = "rate_limit_enabled ?m1 \<and> fst ?c \<noteq> Inr ()"
  note keeps = is_model_blocked_keeps
  note v = gated_view [where E = E and s = s and i = "eid e" and model = model]
  have v2: "gate_view E ?s2 = gate_view E s" using v by simp
  have sat: "saturated_gate E ?s2 e = saturated_gate E s e" "inflight_of ?s2 = inflight_of s"
    using gate_view_reads [OF v2] by (simp_all add: saturated_gate_def)
  have nc: "(if cooldown_enabled ?m1 then check_cooldown (now_of E) (eid e) (cooldown_table ?m1) else None) = None"
    if nocool: "\<not> ?cool"
  proof (cases "cooldown_enabled ?m1")
    case True
    then have "check_cooldown (now_of E) (eid e) (cooldown_table ?m1) = None"
      using nocool unfolding is_available_def by blast
    then show ?thesis by simp
  qed simp
  consider (shut) "\<not> ?open" | (cool) "?open" ?cool | (limited) "?open" "\<not> ?cool" ?limited
    | (free) "?open" "\<not> ?cool" "\<not> ?limited" by blast
  then have "gate_view E (snd (entry_wait E b model e s)) = gate_view E s \<and>
    (fst (entry_wait E b model e s) = Some None \<longleftrightarrow> passes E b model False s e \<and> \<not> saturated_gate E s e)"
  proof cases
    case shut
    then show ?thesis using v(1)
      by (auto simp: entry_wait_def passes_def split_beta Let_def)
  next
    case cool
    then have "\<not> passes E b model False s e" by (simp add: passes_def keeps)
    moreover have "\<exists>w. entry_wait E b model e s = (Some (Some w), s\<lparr>manager := ?m1\<rparr>)"
      using cool by (auto simp: entry_wait_def split_beta Let_def is_available_def)
    ultimately show ?thesis using v(1) by auto
  next
    case limited
    then have "\<not> passes E b model False s e" by (simp add: passes_def keeps)
    moreover have "\<exists>w. entry_wait E b model e s = (Some (Some w), ?s2)"
      using limited(1, 3)
      by (cases "fst ?c") (auto simp: entry_wait_def split_beta Let_def nc [OF limited(2)])
    ultimately show ?thesis using v2 by auto
  next
    case free
    have e: "entry_wait E b model e s = (Some (fst (capacity_wait E e ?s2)), snd (capacity_wait E e ?s2))"
      using free(1, 3) by (cases "rate_limit_enabled ?m1") (auto simp: entry_wait_def split_beta Let_def nc [OF free(2)])
    have "passes E b model False s e \<longleftrightarrow> inflight_of s (eid e) < CREDENTIAL_MAX_CONCURRENCY"
      using free by (simp add: passes_def keeps)
    then show ?thesis
      unfolding e using capacity_wait_view [of E e ?s2] v2 capacity_wait_free [of E e ?s2] sat by simp
  qed
  then show "gate_view E (snd (entry_wait E b model e s)) = gate_view E s"
    "fst (entry_wait E b model e s) = Some None \<longleftrightarrow> passes E b model False s e \<and> \<not> saturated_gate E s e"
    by simp_all
qed


lemma entry_waits_spec:
  "(None \<in> set (fst (entry_waits E b model es s)) \<longleftrightarrow>
     (\<exists>e\<in>set es. passes E b model False s e \<and> \<not> saturated_gate E s e)) \<and>
   gate_view E (snd (entry_waits E b model es s)) = gate_view E s"
proof (induction es arbitrary: s)
  case (Cons e es)
  let ?s1 = "snd (entry_wait E b model e s)"
  have v: "gate_view E ?s1 = gate_view E s" by (rule entry_wait_spec)
  have same: "passes E b model False ?s1 c = passes E b model False s c" "saturated_gate E ?s1 c = saturated_gate E s c" for c
    using passes_cong [OF v] gate_view_reads [OF v] by (simp_all add: saturated_gate_def)
  have "None \<in> set (fst (entry_waits E b model (e # es) s)) \<longleftrightarrow>
      fst (entry_wait E b model e s) = Some None \<or> None \<in> set (fst (entry_waits E b model es ?s1))"
    by (cases "fst (entry_wait E b model e s)") (auto simp: split_beta)
  then have "None \<in> set (fst (entry_waits E b model (e # es) s)) \<longleftrightarrow>
      (\<exists>e\<in>set (e # es). passes E b model False s e \<and> \<not> saturated_gate E s e)"
    using Cons.IH [of ?s1] unfolding entry_wait_spec(2) same by simp
  moreover have "gate_view E (snd (entry_waits E b model (e # es) s)) = gate_view E s"
    using Cons.IH [of ?s1] v by (simp add: split_beta)
  ultimately show ?case by blast
qed simp_all

lemma available_iff:
  "fst (transient_wait_outcome E model s) = Available \<longleftrightarrow>
     (\<exists>e\<in>set (pool (manager s)). passes E (is_opus_model model) (model_key model) False s e \<and> \<not> saturated_gate E s e)"
proof -
  let ?ws = "fst (entry_waits E (is_opus_model model) (model_key model) (pool (manager s)) s)"
  have "\<exists>d r. min_by_key fst (List.map_filter (\<lambda>w. w) ?ws) = Some (d, r)" if "None \<notin> set ?ws" "?ws \<noteq> []"
  proof -
    have "List.map_filter (\<lambda>w. w) ?ws \<noteq> []"
      using that by (cases ?ws; cases "hd ?ws") (auto simp: List.map_filter_def)
    then show ?thesis by (metis min_by_key_eq_None not_None_eq surj_pair)
  qed
  then have "fst (transient_wait_outcome E model s) = Available \<longleftrightarrow> None \<in> set ?ws"
    by (force simp: transient_wait_outcome_def split_beta)
  then show ?thesis by (simp add: entry_waits_spec)
qed

lemma cached_simps:
  "passes E b model ig s (snd (family_key_cached e)) = passes E b model ig s e"
  "saturated_gate E s (snd (family_key_cached e)) = saturated_gate E s e"
  by (simp_all add: passes_def saturated_gate_def custom_api_def limit_of_def)

lemma candidates_free:
  "(\<exists>e\<in>set (candidates E model s). \<not> saturated_gate E s e) \<longleftrightarrow> fst (transient_wait_outcome E model s) = Available"
  unfolding available_iff by (auto simp: candidates_def cached_pool_def cached_simps)

text \<open>
  Two readings of the state at one time: the intervals that the jitter gives each credential are the
  same in both, or are not used. Every reading draws anew, so this says something of the draws; without
  jitter, or without the rate limiter, it always holds.
\<close>

definition same_moment :: "token_manager \<Rightarrow> select_env \<Rightarrow> select_env \<Rightarrow> bool" where
  "same_moment m E D \<longleftrightarrow> now_of D = now_of E \<and> upper_of D = upper_of E \<and>
     (rate_limit_enabled m \<longrightarrow>
        (\<forall>i. calculate_interval (rl_config (limiter m)) (draw_for D i) =
             calculate_interval (rl_config (limiter m)) (draw_for E i)))"

lemma same_moment_without_jitter:
  fixes m :: token_manager
  defines "cfg \<equiv> rl_config (limiter m)"
  assumes "now_of D = now_of E" and "upper_of D = upper_of E"
    and "\<not> rate_limit_enabled m \<or> jitter_of cfg ((min_interval_ms cfg + max_interval_ms cfg) div 2) = 0"
  shows "same_moment m E D"
  using assms interval_without_jitter [of cfg] unfolding same_moment_def cfg_def by blast

lemma passes_same_moment:
  assumes "same_moment (manager s) E D"
  shows "passes D b model ig s e = passes E b model ig s e" "saturated_gate D s e = saturated_gate E s e"
  using assms by (auto simp: passes_def saturated_gate_def hits_now_def same_moment_def check_rate_limit_def
      split_beta Let_def)

lemma available_same_moment:
  assumes "same_moment (manager s) E D"
  shows "fst (transient_wait_outcome D model s) = Available \<longleftrightarrow> fst (transient_wait_outcome E model s) = Available"
  unfolding available_iff by (simp add: passes_same_moment [OF assms])

lemma same_moment_view: "gate_view E s' = gate_view E s \<Longrightarrow> same_moment (manager s') A B = same_moment (manager s) A B"
  using gate_view_reads [of E s' s] by (simp add: same_moment_def)

lemma select_none_view:
  assumes "fst (select_next_credential E model uid ex s) = None"
  shows "gate_view E (snd (select_next_credential E model uid ex s)) = gate_view E s"
    "pool (manager (snd (select_next_credential E model uid ex s))) = cached_pool s"
  by (rule select_cases [of E model s uid ex]; use assms in simp)+

lemma available_after_none:
  assumes "fst (select_next_credential E model uid ex s) = None"
  shows "fst (transient_wait_outcome E model (snd (select_next_credential E model uid ex s))) = Available \<longleftrightarrow>
    fst (transient_wait_outcome E model s) = Available"
proof -
  note v = select_none_view [OF assms]
  show ?thesis
    using passes_cong [OF v(1)] gate_view_reads [OF v(1)] v(2)
    unfolding available_iff by (simp add: saturated_gate_def cached_pool_def limit_of_def passes_def custom_api_def)
qed

lemma select_finds_available:
  "fst (select_next_credential E model uid excluded s) \<noteq> None \<longleftrightarrow> fst (transient_wait_outcome E model s) = Available"
proof -
  let ?r = "select_next_credential E model uid excluded s"
  let ?c = "candidates E model s"
  show ?thesis
  proof (rule select_cases [of E model s uid excluded])
    assume "?c = []" "fst ?r = None"
    then show ?thesis using candidates_free [of E model s] by simp
  next
    fix e s3
    assume "e \<in> set (preferred excluded ?c)" "hits_now E s (eid e) < limit_of s e"
      "?r = (Some (eid e), commit_selection E e (model_key model) s3)"
    then have "\<exists>e\<in>set ?c. \<not> saturated_gate E s e"
      using preferred_facts(1) [of excluded ?c] by (intro bexI [of _ e]) (auto simp: saturated_gate_def)
    then show ?thesis using candidates_free [of E model s] \<open>?r = _\<close> by simp
  next
    assume "rpm_hard_gate (sched s)" "\<forall>e\<in>set ?c. limit_of s e \<le> hits_now E s (eid e)" "fst ?r = None"
    then show ?thesis using candidates_free [of E model s] by (auto simp: saturated_gate_def)
  next
    fix e g s4
    assume a: "gate_view E s4 = gate_view E s" "balanced_choice E (model_key model) excluded ?c g s4 = Some e"
      "?r = (Some (eid e), commit_selection E e (model_key model) (bind_selected E uid (eid e) s4))"
      "\<And>c. c \<in> set ?c \<Longrightarrow> not_saturated s4 g c \<longleftrightarrow> hits_now E s (eid c) < limit_of s c"
    have "e \<in> set ?c" "rpm_hard_gate (sched s) \<Longrightarrow> not_saturated s4 g e"
      using balanced_choice_Some(1, 2) [OF a(2)] gate_view_reads(1) [OF a(1)] by simp_all
    then have "\<exists>e\<in>set ?c. \<not> saturated_gate E s e"
      using a(4) by (intro bexI [of _ e]) (auto simp: saturated_gate_def)
    then show ?thesis using a(3) candidates_free [of E model s] by simp
  qed
qed

lemma select_none_unavailable:
  assumes "fst (select_next_credential E model uid ex s) = None" and "same_moment (manager s) E D"
  shows "fst (transient_wait_outcome D model (snd (select_next_credential E model uid ex s))) \<noteq> Available"
proof -
  let ?s = "snd (select_next_credential E model uid ex s)"
  have "same_moment (manager ?s) E D"
    using assms(2) same_moment_view [OF select_none_view(1) [OF assms(1)], of E D] by simp
  then show ?thesis
    using available_same_moment [of ?s E D model] available_after_none [OF assms(1)]
      select_finds_available [of E model uid ex s] assms(1) by simp
qed

text \<open>
  C10. The selection finds a credential exactly if a diagnosis at the same time says that one is
  available, whatever session and credentials already tried it is given; and a selection that found
  none leaves a state for which such a diagnosis says so. The diagnosis draws its own jitter: the two
  agree if the rate limiter is off or set to no jitter (\<open>same_moment_without_jitter\<close>), or as long as
  the numbers drawn give the same intervals. Otherwise they may disagree (\<open>jitter_separates\<close>).\<close>
theorem selection_matches_diagnosis:
  assumes "same_moment (manager s) E D"
  shows "(fst (select_next_credential E model uid excluded s) \<noteq> None \<longleftrightarrow>
      fst (transient_wait_outcome D model s) = Available) \<and>
   (let (found, s') = select_next_credential E model uid excluded s in
      \<not> (found = None \<and> fst (transient_wait_outcome D model s') = Available))"
  using select_finds_available [of E model uid excluded s] available_same_moment [OF assms, of model]
    select_none_unavailable [OF _ assms, of model uid excluded]
  by (auto simp: split_beta)



subsection \<open>What is selected\<close>

lemma commit_counts [simp]:
  "inflight_of (commit_selection E e key s) = (inflight_of s)(eid e := inflight_acquire (inflight_of s (eid e)))"
  by (simp add: commit_selection_def Let_def)

lemma inflight_bind [simp]: "inflight_of (bind_selected E uid i s) = inflight_of s"
proof -
  have f: "inflight_of (snd (family_circuit_open E j s)) = inflight_of s" for j
    by (simp add: family_circuit_open_def split_beta split: option.split)
  show ?thesis by (simp add: bind_selected_def Let_def f split: option.split)
qed

lemma candidatesD:
  "c \<in> set (candidates E model s) \<Longrightarrow> \<exists>e\<in>set (pool (manager s)). eid e = eid c \<and> credentials e = credentials c \<and>
     passes E (is_opus_model model) (model_key model) False s e"
proof -
  assume "c \<in> set (candidates E model s)"
  then obtain e where "e \<in> set (pool (manager s))" "c = snd (family_key_cached e)"
      "passes E (is_opus_model model) (model_key model) False s e"
    by (auto simp: candidates_def cached_pool_def cached_simps)
  then show ?thesis by (intro bexI [of _ e]) simp_all
qed

text \<open>
  C11. A credential that the selection picks is one of the pool that passes every gate: enabled, no
  relay, offering the model, not cooling, allowed by its rate limit and with less than 16 requests in
  flight, of which it then has one more. It was tried before only if no untried candidate is left,
  or, with the hard gate, none below its request limit; and it is picked at its request limit only
  without the hard gate and when every candidate in question is.\<close>
theorem selected_usable:
  assumes "select_next_credential E model uid excluded s = (Some i, s')"
  shows "\<exists>e\<in>set (pool (manager s)). eid e = i \<and>
    passes E (is_opus_model model) (model_key model) False s e \<and>
    inflight_of s' i = inflight_of s i + 1 \<and> inflight_of s' i \<le> CREDENTIAL_MAX_CONCURRENCY \<and>
    (i \<in> excluded \<longrightarrow> (\<forall>c\<in>set (candidates E model s). eid c \<notin> excluded \<longrightarrow>
        rpm_hard_gate (sched s) \<and> limit_of s c \<le> hits_now E s (eid c))) \<and>
    (limit_of s e \<le> hits_now E s i \<longrightarrow> \<not> rpm_hard_gate (sched s) \<and>
        (\<forall>c\<in>set (preferred excluded (candidates E model s)). limit_of s c \<le> hits_now E s (eid c)))"
proof -
  let ?c = "candidates E model s" and ?r = "select_next_credential E model uid excluded s"
  have main: ?thesis
    if h: "c \<in> set ?c" "i = eid c" "inflight_of s' i = inflight_acquire (inflight_of s i)"
      "i \<in> excluded \<Longrightarrow> \<forall>c\<in>set ?c. eid c \<notin> excluded \<longrightarrow> rpm_hard_gate (sched s) \<and> limit_of s c \<le> hits_now E s (eid c)"
      "limit_of s c \<le> hits_now E s i \<Longrightarrow> \<not> rpm_hard_gate (sched s) \<and>
        (\<forall>c\<in>set (preferred excluded ?c). limit_of s c \<le> hits_now E s (eid c))" for c
  proof -
    obtain e where e: "e \<in> set (pool (manager s))" "eid e = i" "credentials e = credentials c"
        "passes E (is_opus_model model) (model_key model) False s e"
      using candidatesD [OF h(1)] h(2) by auto
    have "limit_of s e = limit_of s c" by (simp add: limit_of_def e(3))
    moreover have "inflight_of s i < 16" using e(2, 4) by (simp add: passes_def CREDENTIAL_MAX_CONCURRENCY_def)
    ultimately show ?thesis using e h(3-5)
      by (intro bexI [of _ e]) (simp_all add: inflight_acquire_def CREDENTIAL_MAX_CONCURRENCY_def)
  qed
  show ?thesis
  proof (rule select_cases [of E model s uid excluded])
    fix e s3
    assume a: "e \<in> set (preferred excluded ?c)" "eid e \<notin> excluded" "hits_now E s (eid e) < limit_of s e"
      "gate_view E s3 = gate_view E s" "?r = (Some (eid e), commit_selection E e (model_key model) s3)"
    then show ?thesis using assms preferred_facts(1) [of excluded ?c] gate_view_reads(2) [OF a(4)]
      by (intro main [of e]) auto
  next
    fix e g s4
    assume a: "gate_view E s4 = gate_view E s" "balanced_choice E (model_key model) excluded ?c g s4 = Some e"
      "?r = (Some (eid e), commit_selection E e (model_key model) (bind_selected E uid (eid e) s4))"
      and sat: "\<And>c. c \<in> set ?c \<Longrightarrow> not_saturated s4 g c \<longleftrightarrow> hits_now E s (eid c) < limit_of s c"
    note b = balanced_choice_Some [OF a(2)]
    have sub: "set (preferred excluded ?c) \<subseteq> set ?c" by (rule preferred_facts)
    have hard: "rpm_hard_gate (sched s4) = rpm_hard_gate (sched s)" using gate_view_reads(1) [OF a(1)] by simp
    show ?thesis
    proof (rule main [of e])
      show "e \<in> set ?c" by (rule b(1))
      show "i = eid e" "inflight_of s' i = inflight_acquire (inflight_of s i)"
        using assms a(3) gate_view_reads(2) [OF a(1)] by auto
      show "\<forall>c\<in>set ?c. eid c \<notin> excluded \<longrightarrow> rpm_hard_gate (sched s) \<and> limit_of s c \<le> hits_now E s (eid c)"
        if "i \<in> excluded"
      proof (intro ballI impI)
        fix c assume c: "c \<in> set ?c" "eid c \<notin> excluded"
        have p: "c' \<in> set (preferred excluded ?c) \<longleftrightarrow> c' \<in> set ?c \<and> eid c' \<notin> excluded" for c'
          using c by (auto simp: preferred_def not_tried_def filter_empty_conv)
        have "e \<notin> set (preferred excluded ?c)" using that p \<open>i = eid e\<close> by simp
        then show "rpm_hard_gate (sched s) \<and> limit_of s c \<le> hits_now E s (eid c)"
          using b(4) p c hard sat [OF c(1)] by (auto simp: not_less)
      qed
      show "\<not> rpm_hard_gate (sched s) \<and>
          (\<forall>c\<in>set (preferred excluded ?c). limit_of s c \<le> hits_now E s (eid c))"
        if l: "limit_of s e \<le> hits_now E s i"
      proof
        have n: "\<not> not_saturated s4 g e" using sat [OF b(1)] l \<open>i = eid e\<close> by simp
        then show "\<not> rpm_hard_gate (sched s)" using b(2) hard by auto
        show "\<forall>c\<in>set (preferred excluded ?c). limit_of s c \<le> hits_now E s (eid c)"
          using n b(3) sat sub by (metis not_less subsetD)
      qed
    qed
  qed (use assms in simp_all)
qed

text \<open>
  C12. The selection of last resort takes, among the candidates of the best tier, the one after the
  last it took in the order of their numbers, and starts again at the least when there is none: it
  goes round the tier and does not insist on one credential.\<close>
theorem fallback_rotates:
  assumes "select_ignoring_cooldown E model excluded s = (Some i, s')"
  shows "let C = preferred excluded (filter (passes E (is_opus_model model) (model_key model) True s) (pool (manager s)));
             tier = (\<lambda>j. fallback_cooldown_tier (now_of E) j (cooldown_table (manager s)));
             T = {j \<in> eid ` set C. \<forall>c\<in>set C. tier j \<le> tier (eid c)} in
    i \<in> T \<and> fallback_cursor s' = i \<and>
    (\<forall>j\<in>T. fallback_cursor s < i \<and> (fallback_cursor s < j \<longrightarrow> i \<le> j) \<or> j \<le> fallback_cursor s \<and> i \<le> j)"
proof -
  let ?f = "filter_entries (is_entry_selectable_inner E (is_opus_model model) (model_key model) True) (pool (manager s)) s"
  define C where "C = preferred excluded (filter (passes E (is_opus_model model) (model_key model) True s) (pool (manager s)))"
  define tier where "tier = (\<lambda>j. fallback_cooldown_tier (now_of E) j (cooldown_table (manager s)))"
  note f = filter_entries_passes [of E "is_opus_model model" "model_key model" True "pool (manager s)" s]
  have key: "fallback_key (now_of E) (snd ?f) c = (tier (eid c), if eid c \<le> fallback_cursor s then 1 else 0, eid c)" for c
    using f gate_view_reads(4) [of E "snd ?f" s] by (simp add: fallback_key_def tier_def same_rest_def)
  obtain b where b: "min_by_key (fallback_key (now_of E) (snd ?f)) C = Some b" "i = eid b" "fallback_cursor s' = eid b"
    using assms f
    by (auto simp: select_ignoring_cooldown_def split_beta C_def commit_selection_def Let_def split: option.splits)
  have m: "b \<in> set C" "\<forall>c\<in>set C. fallback_key (now_of E) (snd ?f) b \<le> fallback_key (now_of E) (snd ?f) c"
    using min_by_key_Some [OF b(1)] by simp_all
  have le: "tier i \<le> tier (eid c)" if "c \<in> set C" for c
    using m(2) that by (auto simp: key b(2) less_eq_prod_def)
  then have T: "i \<in> {j \<in> eid ` set C. \<forall>c\<in>set C. tier j \<le> tier (eid c)}" using m(1) b(2) by auto
  have "fallback_cursor s < i \<and> (fallback_cursor s < j \<longrightarrow> i \<le> j) \<or> j \<le> fallback_cursor s \<and> i \<le> j"
    if j: "j \<in> {j \<in> eid ` set C. \<forall>c\<in>set C. tier j \<le> tier (eid c)}" for j
  proof -
    obtain c where c: "c \<in> set C" "j = eid c" "tier j \<le> tier i" using j m(1) b(2) by auto
    have "tier j = tier i" using c le [OF c(1)] by simp
    then show ?thesis using m(2) c(1, 2) by (auto simp: key b(2) less_eq_prod_def split: if_splits)
  qed
  then show ?thesis using T b(2, 3) unfolding Let_def C_def [symmetric] tier_def [symmetric] by simp
qed


text \<open>Two enabled credentials, the first of which was tried before.\<close>

definition sample_selector :: selector where
  "sample_selector =
     \<lparr>manager = sample_manager [entry_new 1 credentials_default, entry_new 2 credentials_default],
      inflight_of = (\<lambda>_. 3), selected_at = (\<lambda>_. 0), fallback_cursor = 1, consecutive_pool_unavailable = 0,
      sched = \<lparr>affinity_enabled = True, load_balancing_mode = ''priority'', priority_in_balanced = False,
        rpm_hard_gate = False, pool_rpm_limit = 0, rpm_headroom_factor = 90, rpm_reserve_slots = 1,
        balance_weight_enabled = False, balance_weight_floor = 20\<rparr>\<rparr>"

definition sample_select_env :: select_env where
  "sample_select_env = \<lparr>now_of = secs 3, arith_of = exact_arith, draw_for = (\<lambda>_. 0), coin_of = 0, upper_of = (\<lambda>s. s)\<rparr>"

lemma sample_passes:
  "i \<in> {1, 2} \<Longrightarrow> passes sample_select_env False [] ig sample_selector (entry_new i credentials_default)"
  by (auto simp: passes_def sample_selector_def sample_manager_def sample_select_env_def entry_new_def custom_api_def
      credentials_default_def is_custom_api_credential_def blocked_iff is_available_def check_cooldown_def
      cooldown_new_def check_rate_limit_def rate_check_def rate_limiter_new_def state_of_def rate_state_default_def
      sample_rate_config_def CREDENTIAL_MAX_CONCURRENCY_def secs_def Let_def)

lemma sample_found: "fst (select_next_credential sample_select_env None (Some ''u'') {1} sample_selector) \<noteq> None"
proof -
  have "snd (family_key_cached (entry_new 1 credentials_default)) \<in> set (candidates sample_select_env None sample_selector)"
    using sample_passes [of 1 False]
    by (simp add: candidates_def cached_pool_def cached_simps is_opus_model_def model_key_def)
       (simp add: sample_selector_def sample_manager_def)
  then show ?thesis
    by (rule_tac select_cases [of sample_select_env None sample_selector "Some ''u''" "{1}"])
       (auto simp: sample_selector_def)
qed

text \<open>A diagnosis that draws another number for the same interval finds what the selection finds.\<close>
theorem selection_matches_diagnosis_witness:
  "fst (transient_wait_outcome (sample_select_env\<lparr>draw_for := (\<lambda>_. 1), coin_of := 1\<rparr>) None sample_selector) = Available"
proof -
  have "same_moment (manager sample_selector) sample_select_env (sample_select_env\<lparr>draw_for := (\<lambda>_. 1), coin_of := 1\<rparr>)"
    by (simp add: same_moment_def sample_selector_def sample_manager_def rate_limiter_new_def sample_select_env_def
        calculate_interval_def sample_rate_config_def Let_def)
  from selection_matches_diagnosis [OF this, of None "Some ''u''" "{1}"] sample_found show ?thesis by blast
qed

theorem selected_usable_witness:
  "\<exists>i s'. select_next_credential sample_select_env None (Some ''u'') {1} sample_selector = (Some i, s') \<and>
     (\<exists>e\<in>set (pool (manager sample_selector)). eid e = i \<and> passes sample_select_env False [] False sample_selector e \<and>
        inflight_of s' i = inflight_of sample_selector i + 1)"
proof -
  let ?r = "select_next_credential sample_select_env None (Some ''u'') {1} sample_selector"
  obtain i s' where r: "?r = (Some i, s')" using sample_found by (cases ?r) auto
  show ?thesis using selected_usable [OF r] r by (auto simp: is_opus_model_def model_key_def)
qed

text \<open>
  With the rate limiter on and jitter, selection and diagnosis of one moment disagree: a second and a
  half after the last request, the selection draws an interval of two seconds and finds no credential,
  the diagnosis draws one of one second and says there is one.
\<close>

definition limited_selector :: selector where
  "limited_selector = sample_selector\<lparr>manager := (manager sample_selector)\<lparr>rate_limit_enabled := True,
     limiter := \<lparr>rl_config = sample_rate_config,
       rl_states = (\<lambda>_. Some ((rate_state_default 0)\<lparr>last_request_at := Some (millis 1500)\<rparr>))\<rparr>\<rparr>\<rparr>"

lemma limited_check:
  "fst (check_rate_limit draw (secs 3) i (limiter (manager limited_selector))) = Inr () \<longleftrightarrow>
     calculate_interval sample_rate_config draw \<le> millis 1500"
  by (simp add: limited_selector_def check_rate_limit_def state_of_def rate_check_def rate_state_default_def
      sample_rate_config_def secs_def millis_def Let_def not_less)

lemma jitter_separates:
  "fst (select_next_credential (sample_select_env\<lparr>draw_for := (\<lambda>_. 1500)\<rparr>) None None {} limited_selector) = None"
  "fst (transient_wait_outcome (sample_select_env\<lparr>draw_for := (\<lambda>_. 0)\<rparr>) None limited_selector) = Available"
proof -
  have i: "calculate_interval sample_rate_config 1500 = millis 2000" "calculate_interval sample_rate_config 0 = millis 1000"
    by (simp_all add: calculate_interval_def sample_rate_config_def Let_def)
  have on: "rate_limit_enabled (manager limited_selector)" by (simp add: limited_selector_def)
  have "\<not> passes (sample_select_env\<lparr>draw_for := (\<lambda>_. 1500)\<rparr>) b m ig limited_selector e" for b m ig e
    using limited_check [of 1500 "eid e"] on by (simp add: passes_def sample_select_env_def i millis_def)
  then show "fst (select_next_credential (sample_select_env\<lparr>draw_for := (\<lambda>_. 1500)\<rparr>) None None {} limited_selector) = None"
    using select_finds_available [of "sample_select_env\<lparr>draw_for := (\<lambda>_. 1500)\<rparr>" None None "{}" limited_selector]
    unfolding available_iff by simp
  let ?D = "sample_select_env\<lparr>draw_for := (\<lambda>_. 0)\<rparr>" and ?e = "entry_new 1 credentials_default"
  have "passes ?D False [] False limited_selector ?e"
    using limited_check [of 0 "eid ?e"] on sample_passes [of 1 False]
    by (simp add: passes_def sample_select_env_def i millis_def)
       (simp add: limited_selector_def blocked_iff)
  moreover have "?e \<in> set (pool (manager limited_selector))" "\<not> saturated_gate ?D limited_selector ?e"
    by (simp_all add: limited_selector_def sample_selector_def sample_manager_def saturated_gate_def)
  ultimately show "fst (transient_wait_outcome ?D None limited_selector) = Available"
    unfolding available_iff by (auto simp: is_opus_model_def model_key_def)
qed

text \<open>After credential 1 the selection of last resort takes 2.\<close>
theorem fallback_rotates_witness:
  "\<exists>s'. select_ignoring_cooldown sample_select_env None {} sample_selector = (Some 2, s')"
proof -
  let ?r = "select_ignoring_cooldown sample_select_env None {} sample_selector"
  let ?es = "[entry_new 1 credentials_default, entry_new 2 credentials_default]"
  have p: "pool (manager sample_selector) = ?es" by (simp add: sample_selector_def sample_manager_def)
  have c: "filter (passes sample_select_env (is_opus_model None) (model_key None) True sample_selector) (pool (manager sample_selector)) = ?es"
    unfolding p using sample_passes [of _ True] by (simp add: is_opus_model_def model_key_def)
  have "fst ?r \<noteq> None"
    using filter_entries_passes [of sample_select_env "is_opus_model None" "model_key None" True "pool (manager sample_selector)" sample_selector]
    unfolding c by (simp add: select_ignoring_cooldown_def split_beta preferred_def not_tried_def split: option.split)
  then obtain i s' where r: "?r = (Some i, s')" by (cases ?r) auto
  have "i = 2"
    using fallback_rotates [OF r] unfolding c
    by (simp add: preferred_def not_tried_def Let_def fallback_cooldown_tier_def check_cooldown_def)
       (auto simp: sample_selector_def sample_manager_def cooldown_new_def)
  then show ?thesis using r by blast
qed

end
