(* ===== verification/TokenRefresh.thy ===== *)
theory TokenRefresh
  imports Pool
begin

text \<open>
  Access tokens: when one has to be refreshed, the three ways to ask for a new one, what their
  answers mean (\<open>src/src/kiro/token_manager.rs\<close>, \<open>src/src/kiro/diagnosis.rs\<close>), and the refresh
  under the lock of the credential, \<open>refresh_token_locked\<close> of
  \<open>src/src/kiro/token_refresh_http.rs\<close>, with what is written back.

  The network is a function from the attempt and the URL to an answer. At every \<open>await\<close> other requests
  may change the pool: \<open>refresh_env\<close> carries these changes as functions on it. Times of day are
  nanoseconds since 1970 as integers; reading and writing RFC 3339 is left to a parameter, as it is to
  the \<open>chrono\<close> crate. The texts of messages are left out except where the code looks into them.
\<close>

subsection \<open>When a token expires\<close>

record clock_env =
  parse_rfc3339 :: "string \<Rightarrow> int option"
  to_rfc3339 :: "int \<Rightarrow> string"

definition minutes_of :: "int \<Rightarrow> int" where "minutes_of n = n * 60000000000"

definition is_token_expiring_within :: "clock_env \<Rightarrow> int \<Rightarrow> int \<Rightarrow> kiro_credentials \<Rightarrow> bool option" where
  "is_token_expiring_within C now minutes c =
     map_option (\<lambda>expires. expires \<le> now + minutes_of minutes)
       (Option.bind (token_expires_at c) (parse_rfc3339 C))"

definition is_token_expired :: "clock_env \<Rightarrow> int \<Rightarrow> kiro_credentials \<Rightarrow> bool" where
  "is_token_expired C now c =
     (if is_api_key_credential c then False
      else case is_token_expiring_within C now 5 c of Some b \<Rightarrow> b | None \<Rightarrow> True)"

definition is_token_expiring_soon :: "clock_env \<Rightarrow> int \<Rightarrow> kiro_credentials \<Rightarrow> bool" where
  "is_token_expiring_soon C now c =
     (case is_token_expiring_within C now 10 c of Some b \<Rightarrow> b | None \<Rightarrow> False)"

definition credentials_due_for_refresh :: "clock_env \<Rightarrow> int \<Rightarrow> int \<Rightarrow> token_manager \<Rightarrow> nat list" where
  "credentials_due_for_refresh C now lead m =
     map eid (filter (\<lambda>e. \<not> disabled e \<and> \<not> is_api_key_credential (credentials e) \<and>
        refresh_token (credentials e) \<noteq> None \<and>
        is_token_expiring_within C now lead (credentials e) = Some True) (pool m))"

subsection \<open>What a refused refresh means\<close>

datatype validation_fault = TokenMissing | TokenEmpty | TokenTruncated nat | ClientNotBuilt string

datatype diagnosis_fault = UserInput | AccountState | Upstream | Gateway | Transient

datatype refresh_code =
  REFRESH_TOKEN_INVALID | CLIENT_OR_TOKEN_MISMATCH | AUTH_EXPIRED | RATE_LIMITED | UPSTREAM_5XX
| UNKNOWN_REFRESH_ERROR

record refresh_diagnosis =
  diag_code :: refresh_code
  diag_fault :: diagnosis_fault
  retriable :: bool

text \<open>
  \<open>TokenInvalidError\<close> to \<open>HttpError\<close> are the typed errors, the others the \<open>anyhow!\<close> texts and the
  errors of the HTTP library (\<open>Transport\<close>, with its text).
\<close>

datatype refresh_error =
  TokenInvalidError | DiagnosedError refresh_diagnosis | RefreshNotSupported
| ValidationError validation_fault | HttpError nat
| FieldMissing | EndpointNotHttps | EndpointUserinfo string | EndpointNoHost string
| EndpointForeign string | Transport string | NoCredential nat | LockTimeout nat
| NoApiKey | NoAccessToken

definition ends_with :: "string \<Rightarrow> string \<Rightarrow> bool" where
  "ends_with p s \<longleftrightarrow> starts_with (rev p) (rev s)"

definition validate_refresh_token :: "kiro_credentials \<Rightarrow> refresh_error + unit" where
  "validate_refresh_token c =
     (case refresh_token c of
        None \<Rightarrow> Err (ValidationError TokenMissing)
      | Some t \<Rightarrow>
          if t = [] then Err (ValidationError TokenEmpty)
          else if length t < 100 \<or> ends_with ''...'' t \<or> contains ''...'' t
          then Err (ValidationError (TokenTruncated (length t)))
          else Ok ())"

definition refresh_error_retryable :: "refresh_error \<Rightarrow> bool" where
  "refresh_error_retryable e =
     (case e of
        ValidationError _ \<Rightarrow> False
      | HttpError status \<Rightarrow> 500 \<le> status \<and> status < 600
      | _ \<Rightarrow> True)"

text \<open>The text of \<open>RefreshNotSupportedError\<close> starts with the bytes of \<open>not_supported_text\<close>.\<close>

definition not_supported_text :: string where
  "not_supported_text = ''API Key '' @
     map char_of [0xE5, 0x87, 0xAD, 0xE6, 0x8D, 0xAE, 0xE4, 0xB8, 0x8D, 0xE6, 0x94, 0xAF, 0xE6, 0x8C, 0x81,
                  0xE5, 0x88, 0xB7, 0xE6, 0x96, 0xB0 :: nat]"

definition has_oauth_marker :: "string \<Rightarrow> bool" where
  "has_oauth_marker s \<longleftrightarrow> contains ''invalid_grant'' s \<or> contains ''invalid_client'' s \<or>
     contains ''unauthorized_client'' s \<or> contains not_supported_text s"

text \<open>
  The strings in front of a value in a message end in a blank, so a marker lies inside the value or
  not at all; the summaries of a diagnosis and the fixed texts hold none. Both callers have sorted out
  \<open>TokenInvalidError\<close> before.
\<close>

definition is_refresh_error_credential_level :: "refresh_error \<Rightarrow> bool" where
  "is_refresh_error_credential_level e =
     (case e of
        HttpError status \<Rightarrow> 400 \<le> status \<and> status < 500 \<and> status \<noteq> 429
      | TokenInvalidError \<Rightarrow> True
      | RefreshNotSupported \<Rightarrow> True
      | ValidationError (ClientNotBuilt s) \<Rightarrow> has_oauth_marker s
      | EndpointUserinfo s \<Rightarrow> has_oauth_marker s
      | EndpointNoHost s \<Rightarrow> has_oauth_marker s
      | EndpointForeign s \<Rightarrow> has_oauth_marker s
      | Transport s \<Rightarrow> has_oauth_marker s
      | _ \<Rightarrow> False)"

text \<open>An error code in a text, not as the beginning of a longer one. \<open>fuel\<close> is the length of the text.\<close>

definition is_code_char :: "char \<Rightarrow> bool" where
  "is_code_char c \<longleftrightarrow> c = CHR ''_'' \<or> digit_value 10 c \<noteq> None \<or>
     (let n = code c in 65 \<le> n \<and> n \<le> 90 \<or> 97 \<le> n \<and> n \<le> 122)"

fun body_has_code_from :: "nat \<Rightarrow> string \<Rightarrow> string \<Rightarrow> bool" where
  "body_has_code_from 0 c s = False"
| "body_has_code_from (Suc fuel) c s =
     (case find_sub c s of
        None \<Rightarrow> False
      | Some rel \<Rightarrow>
          let after = drop (rel + length c) s in
          (case after of [] \<Rightarrow> True | ch # _ \<Rightarrow> \<not> is_code_char ch) \<or> body_has_code_from fuel c after)"

definition body_has_code :: "string \<Rightarrow> string \<Rightarrow> bool" where
  "body_has_code lower_body c = body_has_code_from (Suc (length lower_body)) c lower_body"

definition diagnose_refresh :: "nat \<Rightarrow> string \<Rightarrow> refresh_diagnosis" where
  "diagnose_refresh status body =
     (let lower = to_ascii_lowercase body in
      if status = 400 \<and> body_has_code lower ''invalid_grant''
      then \<lparr>diag_code = REFRESH_TOKEN_INVALID, diag_fault = AccountState, retriable = False\<rparr>
      else if status = 400 \<and> (body_has_code lower ''invalid_client'' \<or>
              body_has_code lower ''invalid_request'' \<and> contains ''invalid token'' lower)
      then \<lparr>diag_code = CLIENT_OR_TOKEN_MISMATCH, diag_fault = AccountState, retriable = False\<rparr>
      else if status = 401
      then \<lparr>diag_code = AUTH_EXPIRED, diag_fault = AccountState, retriable = False\<rparr>
      else if status = 429
      then \<lparr>diag_code = RATE_LIMITED, diag_fault = Transient, retriable = True\<rparr>
      else if 500 \<le> status \<and> status \<le> 599
      then \<lparr>diag_code = UPSTREAM_5XX, diag_fault = Upstream, retriable = True\<rparr>
      else \<lparr>diag_code = UNKNOWN_REFRESH_ERROR, diag_fault = Gateway, retriable = False\<rparr>)"

subsection \<open>Asking for a new token\<close>

record token_data =
  td_access_token :: string
  td_refresh_token :: "string option"
  td_profile_arn :: "string option"
  td_expires_in :: "int option"

text \<open>No client, no answer, or a status with the text of the body and the body read as JSON.\<close>

datatype http_answer = NoClient string | NoAnswer string | Answer nat string "string + token_data"

definition is_success :: "nat \<Rightarrow> bool" where
  "is_success status \<longleftrightarrow> 200 \<le> status \<and> status < 300"

text \<open>\<open>with_arn\<close>: the answers of Microsoft carry no profile.\<close>

definition with_token_data :: "clock_env \<Rightarrow> int \<Rightarrow> bool \<Rightarrow> token_data \<Rightarrow> kiro_credentials \<Rightarrow> kiro_credentials" where
  "with_token_data C now with_arn d c0 =
     (let c1 = c0\<lparr>access_token := Some (td_access_token d)\<rparr>;
          c2 = (case td_refresh_token d of Some t \<Rightarrow> c1\<lparr>refresh_token := Some t\<rparr> | None \<Rightarrow> c1);
          c3 = (case td_profile_arn d of Some a \<Rightarrow> if with_arn then c2\<lparr>profile_arn := Some a\<rparr> else c2
                | None \<Rightarrow> c2) in
      case td_expires_in d of
        Some s \<Rightarrow> c3\<lparr>token_expires_at := Some (to_rfc3339 C (now + s * 1000000000))\<rparr>
      | None \<Rightarrow> c3)"

text \<open>What the three functions share; \<open>refused\<close> is what they make of a status.\<close>

definition read_answer :: "clock_env \<Rightarrow> int \<Rightarrow> bool \<Rightarrow> (nat \<Rightarrow> string \<Rightarrow> refresh_error) \<Rightarrow> kiro_credentials \<Rightarrow>
    http_answer \<Rightarrow> refresh_error + kiro_credentials" where
  "read_answer C now with_arn refused c a =
     (case a of
        NoClient s \<Rightarrow> Err (ValidationError (ClientNotBuilt s))
      | NoAnswer s \<Rightarrow> Err (Transport s)
      | Answer status body parsed \<Rightarrow>
          if \<not> is_success status then Err (refused status body)
          else case parsed of Inl s \<Rightarrow> Err (Transport s) | Inr d \<Rightarrow> Ok (with_token_data C now with_arn d c))"

definition is_dead_token :: "nat \<Rightarrow> string \<Rightarrow> bool" where
  "is_dead_token status body \<longleftrightarrow> status = 400 \<and> contains ''invalid_grant'' body \<or> status = 401"

text \<open>The body that the social answer is searched in is cut to its first 200 characters.\<close>

definition refused_plain :: "nat \<Rightarrow> string \<Rightarrow> refresh_error" where
  "refused_plain status body = (if is_dead_token status body then TokenInvalidError else HttpError status)"

definition refused_diagnosed :: "nat \<Rightarrow> string \<Rightarrow> refresh_error" where
  "refused_diagnosed status body =
     (if is_dead_token status body then TokenInvalidError else DiagnosedError (diagnose_refresh status body))"

fun take_chars :: "nat \<Rightarrow> string \<Rightarrow> string" where
  "take_chars n [] = []"
| "take_chars n (ch # s) =
     (if is_continuation ch then ch # take_chars n s
      else case n of 0 \<Rightarrow> [] | Suc k \<Rightarrow> ch # take_chars k s)"

definition refresh_social_token :: "clock_env \<Rightarrow> int \<Rightarrow> region_config \<Rightarrow> (string \<Rightarrow> http_answer) \<Rightarrow>
    kiro_credentials \<Rightarrow> refresh_error + kiro_credentials" where
  "refresh_social_token C now cfg ask c =
     (case refresh_token c of
        None \<Rightarrow> Err FieldMissing
      | Some _ \<Rightarrow>
          read_answer C now True (\<lambda>status body. refused_plain status (take_chars 200 body)) c
            (ask (''https://prod.'' @ effective_auth_region cfg c @ ''.auth.desktop.kiro.dev/refreshToken'')))"

definition refresh_idc_token :: "clock_env \<Rightarrow> int \<Rightarrow> region_config \<Rightarrow> (string \<Rightarrow> http_answer) \<Rightarrow>
    kiro_credentials \<Rightarrow> refresh_error + kiro_credentials" where
  "refresh_idc_token C now cfg ask c =
     (if refresh_token c = None \<or> client_id c = None \<or> client_secret c = None then Err FieldMissing
      else read_answer C now True refused_diagnosed c
             (ask (''https://oidc.'' @ effective_auth_region cfg c @ ''.amazonaws.com/token'')))"

definition MICROSOFT_HOSTS :: "string list" where
  "MICROSOFT_HOSTS = [''login.microsoftonline.com'', ''login.microsoftonline.us'',
     ''login.partner.microsoftonline.cn'', ''login.chinacloudapi.cn'']"

definition validate_microsoft_token_endpoint :: "string \<Rightarrow> refresh_error + unit" where
  "validate_microsoft_token_endpoint url =
     (if \<not> starts_with ''https://'' url then Err EndpointNotHttps
      else
        let authority = first_piece {CHR ''/'', CHR ''?'', CHR ''#''} (drop 8 url) in
        if CHR ''@'' \<in> set authority then Err (EndpointUserinfo url)
        else
          let host = to_ascii_lowercase (first_piece {CHR '':''} authority) in
          if host = [] then Err (EndpointNoHost url)
          else if list_ex (\<lambda>s. host = s \<or> ends_with (CHR ''.'' # s) host) MICROSOFT_HOSTS then Ok ()
          else Err (EndpointForeign host))"

definition trim_end_slashes :: "string \<Rightarrow> string" where
  "trim_end_slashes s = rev (dropWhile (\<lambda>c. c = CHR ''/'') (rev s))"

definition external_token_endpoint :: "kiro_credentials \<Rightarrow> refresh_error + string" where
  "external_token_endpoint c =
     (case token_endpoint c of
        Some url \<Rightarrow> Ok url
      | None \<Rightarrow>
          (case issuer_url c of
             None \<Rightarrow> Err FieldMissing
           | Some url \<Rightarrow>
               let issuer = trim_end_slashes url in
               Ok (if ends_with ''/v2.0'' issuer then issuer @ ''/token'' else issuer @ ''/oauth2/v2.0/token'')))"

definition refresh_external_idp_token :: "clock_env \<Rightarrow> int \<Rightarrow> (string \<Rightarrow> http_answer) \<Rightarrow>
    kiro_credentials \<Rightarrow> refresh_error + kiro_credentials" where
  "refresh_external_idp_token C now ask c =
     (if refresh_token c = None \<or> client_id c = None then Err FieldMissing
      else
        bind_ok (external_token_endpoint c) (\<lambda>url.
        bind_ok (validate_microsoft_token_endpoint url) (\<lambda>_.
        read_answer C now False refused_plain c (ask url))))"

datatype refresh_method = ExternalIdp | Idc | Social

definition refresh_method_of :: "kiro_credentials \<Rightarrow> refresh_method" where
  "refresh_method_of c =
     (let m = (case auth_method c of
                 Some m \<Rightarrow> m
               | None \<Rightarrow> if client_id c \<noteq> None \<and> client_secret c \<noteq> None then ''idc'' else ''social'') in
      if is_external_idp_credential c then ExternalIdp
      else if eq_ignore_ascii_case m ''idc'' \<or> eq_ignore_ascii_case m ''builder-id'' \<or>
              eq_ignore_ascii_case m ''iam''
      then Idc else Social)"

definition ask_new_token :: "clock_env \<Rightarrow> int \<Rightarrow> region_config \<Rightarrow> (string \<Rightarrow> http_answer) \<Rightarrow>
    kiro_credentials \<Rightarrow> refresh_error + kiro_credentials" where
  "ask_new_token C now cfg ask c =
     (if is_api_key_credential c then Err RefreshNotSupported
      else
        bind_ok (validate_refresh_token c) (\<lambda>_.
          (case refresh_method_of c of
             ExternalIdp \<Rightarrow> refresh_external_idp_token C now ask c
           | Idc \<Rightarrow> refresh_idc_token C now cfg ask c
           | Social \<Rightarrow> refresh_social_token C now cfg ask c)))"

subsection \<open>The refresh under the lock\<close>

definition REFRESH_ATTEMPTS :: nat where "REFRESH_ATTEMPTS = 3"

definition is_final :: "refresh_error \<Rightarrow> bool" where
  "is_final e = (case e of TokenInvalidError \<Rightarrow> True | DiagnosedError _ \<Rightarrow> True | RefreshNotSupported \<Rightarrow> True | _ \<Rightarrow> False)"

text \<open>
  The loop from attempt \<open>k\<close> with \<open>n\<close> attempts left; it answers how often it asked, and the pauses are
  1 and 2 seconds. Without an attempt there is no error to return (the \<open>unreachable\<close> of the source).
\<close>

fun refresh_attempts :: "(nat \<Rightarrow> refresh_error + kiro_credentials) \<Rightarrow> nat \<Rightarrow> nat \<Rightarrow>
    (refresh_error + kiro_credentials) \<times> nat" where
  "refresh_attempts ask 0 k = (Err (Transport ''unreachable''), k)"
| "refresh_attempts ask (Suc n) k =
     (case ask k of
        Inr c \<Rightarrow> (Ok c, k + 1)
      | Inl e \<Rightarrow>
          if is_final e then (Err e, k + 1)
          else if refresh_error_retryable e \<and> n > 0 then refresh_attempts ask n (k + 1)
          else (Err e, k + 1))"

fun refresh_pause :: "nat \<Rightarrow> duration" where
  "refresh_pause 0 = 0"
| "refresh_pause (Suc 0) = 0"
| "refresh_pause (Suc (Suc k)) = refresh_pause (Suc k) + secs (2 ^ k)"

text \<open>The atomics and mutexes of an entry that the probing of regions uses.\<close>

record probe_cells =
  usage_403 :: "nat \<Rightarrow> bool"
  last_full_reprobe_at :: "nat \<Rightarrow> instant option"

definition REPROBE_ALL_BAD_COOLDOWN :: duration where "REPROBE_ALL_BAD_COOLDOWN = secs 21600"
definition REFRESH_LOCK_TIMEOUT_SECS :: nat where "REFRESH_LOCK_TIMEOUT_SECS = 60"

definition mark_usage_403_feature_not_supported :: "nat \<Rightarrow> token_manager \<Rightarrow> probe_cells \<Rightarrow> probe_cells" where
  "mark_usage_403_feature_not_supported i m pc =
     (case find_entry i (pool m) of
        None \<Rightarrow> pc | Some _ \<Rightarrow> pc\<lparr>usage_403 := (usage_403 pc)(i := True)\<rparr>)"

text \<open>\<open>best\<close> is the first usable profile that the probe found, with the title of its subscription.\<close>

definition retitle :: "string option \<Rightarrow> kiro_credentials \<Rightarrow> kiro_credentials" where
  "retitle title c = (case title of Some t \<Rightarrow> c\<lparr>subscription_title := Some t\<rparr> | None \<Rightarrow> c)"

definition reprobed_entry :: "kiro_credentials \<Rightarrow> string \<Rightarrow> string option \<Rightarrow> credential_entry \<Rightarrow> credential_entry" where
  "reprobed_entry snapshot arn title e =
     (let old = profile_arn (credentials e) in
      if old \<noteq> profile_arn snapshot then e
      else if old = Some arn then e
      else e\<lparr>credentials := retitle title
               (snd (sync_region_from_arn ((credentials e)\<lparr>profile_arn := Some arn\<rparr>))),
             family_cache := None\<rparr>)"

definition reprobe_and_correct_region_with :: "nat \<Rightarrow> kiro_credentials \<Rightarrow> (string \<times> string option) option \<Rightarrow> instant \<Rightarrow>
    probe_cells \<times> token_manager \<Rightarrow> bool \<times> probe_cells \<times> token_manager" where
  "reprobe_and_correct_region_with i snapshot best now = (\<lambda>(pc, m).
     (case best of
        Some (arn, title) \<Rightarrow>
          (True,
           (case find_entry i (pool m) of
              None \<Rightarrow> pc
            | Some _ \<Rightarrow> pc\<lparr>usage_403 := (usage_403 pc)(i := False),
                           last_full_reprobe_at := (last_full_reprobe_at pc)(i := None)\<rparr>),
           m\<lparr>pool := update_entry i (reprobed_entry snapshot arn title) (pool m)\<rparr>)
      | None \<Rightarrow>
          (False,
           (case find_entry i (pool m) of
              None \<Rightarrow> pc
            | Some _ \<Rightarrow> pc\<lparr>last_full_reprobe_at := (last_full_reprobe_at pc)(i := Some now)\<rparr>),
           m)))"

definition sync_region_from_arn_for :: "nat \<Rightarrow> token_manager \<Rightarrow> bool \<times> token_manager" where
  "sync_region_from_arn_for i m =
     (case find_entry i (pool m) of
        None \<Rightarrow> (False, m)
      | Some e \<Rightarrow>
          (fst (sync_region_from_arn (credentials e)),
           m\<lparr>pool := update_entry i (\<lambda>e. e\<lparr>credentials := snd (sync_region_from_arn (credentials e))\<rparr>) (pool m)\<rparr>))"

definition PROFILE_PROBE_REGIONS :: "string list" where
  "PROFILE_PROBE_REGIONS =
     [''us-east-1'', ''eu-central-1'', ''us-west-2'', ''eu-west-1'', ''ap-southeast-1'', ''ap-northeast-1'']"

text \<open>The first region that knows a profile; \<open>ask_region\<close> asks one.\<close>

definition probe_order :: "string \<Rightarrow> string list" where
  "probe_order preferred = preferred # filter (\<lambda>r. r \<noteq> preferred) PROFILE_PROBE_REGIONS"

fun first_profile :: "(string \<Rightarrow> string + string option) \<Rightarrow> string list \<Rightarrow> string option \<Rightarrow> string + string option" where
  "first_profile ask_region [] last_err = (case last_err of Some e \<Rightarrow> Err e | None \<Rightarrow> Ok None)"
| "first_profile ask_region (r # rs) last_err =
     (case ask_region r of
        Inr (Some arn) \<Rightarrow> Ok (Some arn)
      | Inr None \<Rightarrow> first_profile ask_region rs last_err
      | Inl e \<Rightarrow> first_profile ask_region rs (Some e))"

definition resolve_profile_arn_multi_region :: "(string \<Rightarrow> string + string option) \<Rightarrow> string \<Rightarrow> string + string option" where
  "resolve_profile_arn_multi_region ask_region preferred = first_profile ask_region (probe_order preferred) None"

record refresh_env =
  clock :: clock_env
  regions :: region_config
  checked_at :: int
  locked_at :: int
  asked_at :: "nat \<Rightarrow> int"
  lock_granted :: bool
  ask_of :: "nat \<Rightarrow> string \<Rightarrow> http_answer"
  probe_now :: instant
  probed :: "(string \<times> string option) option"
  ask_region_of :: "string \<Rightarrow> string + string option"
  while_locking :: "token_manager \<Rightarrow> token_manager"
  while_asking :: "token_manager \<Rightarrow> token_manager"
  while_probing :: "token_manager \<Rightarrow> token_manager"
  while_resolving :: "token_manager \<Rightarrow> token_manager"

datatype refresh_outcome = Refreshed | Skipped

definition profile_missing :: "kiro_credentials \<Rightarrow> bool" where
  "profile_missing c = (case profile_arn c of Some a \<Rightarrow> trim a = [] | None \<Rightarrow> True)"

definition needs_reprobe :: "refresh_env \<Rightarrow> probe_cells \<Rightarrow> credential_entry \<Rightarrow> bool" where
  "needs_reprobe R pc e =
     (let in_cooldown = (case last_full_reprobe_at pc (eid e) of
                           Some t \<Rightarrow> probe_now R - t < REPROBE_ALL_BAD_COOLDOWN | None \<Rightarrow> False) in
      \<not> profile_missing (credentials e) \<and> is_external_idp_credential (credentials e) \<and>
      usage_403 pc (eid e) \<and> \<not> in_cooldown)"

text \<open>After the write-back: the profile, probed again or looked up.\<close>

definition settle_profile :: "refresh_env \<Rightarrow> nat \<Rightarrow> probe_cells \<times> token_manager \<Rightarrow> probe_cells \<times> token_manager" where
  "settle_profile R i = (\<lambda>(pc, m).
     (case find_entry i (pool m) of
        None \<Rightarrow> (pc, m)
      | Some e \<Rightarrow>
          let c = credentials e;
              eligible = profile_missing c \<and> \<not> is_api_key_credential c;
              token = (case access_token c of Some t \<Rightarrow> t | None \<Rightarrow> []) in
          if needs_reprobe R pc e \<and> token \<noteq> []
          then snd (reprobe_and_correct_region_with i c (probed R) (probe_now R) (pc, while_probing R m))
          else if eligible \<and> token \<noteq> [] then
            let m1 = while_resolving R m in
            (case resolve_profile_arn_multi_region (ask_region_of R) (effective_upstream_region (regions R) c) of
               Inr (Some arn) \<Rightarrow> (pc, resolved_arn_writeback i c arn m1)
             | _ \<Rightarrow> (pc, m1))
          else (pc, m)))"

definition refresh_token_locked :: "refresh_env \<Rightarrow> nat \<Rightarrow> int option \<Rightarrow> probe_cells \<times> token_manager \<Rightarrow>
    (refresh_error + refresh_outcome) \<times> probe_cells \<times> token_manager" where
  "refresh_token_locked R i conditional_lead = (\<lambda>(pc, m0).
     (case find_entry i (pool m0) of
        None \<Rightarrow> (Err (NoCredential i), pc, m0)
      | Some _ \<Rightarrow>
          let m1 = while_locking R m0 in
          if \<not> lock_granted R then (Err (LockTimeout i), pc, m1)
          else
            (case find_entry i (pool m1) of
               None \<Rightarrow> (Err (NoCredential i), pc, m1)
             | Some e \<Rightarrow>
                 let c = credentials e;
                     fresh = (case conditional_lead of
                                None \<Rightarrow> False
                              | Some lead \<Rightarrow> is_token_expiring_within (clock R) (locked_at R) lead c = Some False) in
                 if fresh then (Ok Skipped, pc, m1)
                 else
                   let m2 = while_asking R m1 in
                   (case fst (refresh_attempts
                          (\<lambda>k. ask_new_token (clock R) (asked_at R k) (regions R) (ask_of R k) c) REFRESH_ATTEMPTS 0) of
                      Inl err \<Rightarrow> (Err err, pc, m2)
                    | Inr new_creds \<Rightarrow>
                        let (written, m3) = refresh_writeback i c new_creds m2 in
                        if \<not> written then (Ok Skipped, pc, m3)
                        else (Ok Refreshed, settle_profile R i (pc, m3))))))"

subsection \<open>A token for a request\<close>

definition ensure_valid_token :: "refresh_env \<Rightarrow> nat \<Rightarrow> probe_cells \<times> token_manager \<Rightarrow>
    (refresh_error + kiro_credentials \<times> string) \<times> probe_cells \<times> token_manager" where
  "ensure_valid_token R i = (\<lambda>(pc, m).
     (case find_entry i (pool m) of
        None \<Rightarrow> (Err (NoCredential i), pc, m)
      | Some e \<Rightarrow>
          let c = credentials e in
          if is_custom_api_credential c
          then (Ok (c, case api_key c of Some k \<Rightarrow> k | None \<Rightarrow> []), pc, m)
          else if is_api_key_credential c
          then (case kiro_api_key c of Some k \<Rightarrow> (Ok (c, k), pc, m) | None \<Rightarrow> (Err NoApiKey, pc, m))
          else if \<not> is_token_expired (clock R) (checked_at R) c \<and> \<not> is_token_expiring_soon (clock R) (checked_at R) c
          then (case access_token c of Some t \<Rightarrow> (Ok (c, t), pc, m) | None \<Rightarrow> (Err NoAccessToken, pc, m))
          else
            (case refresh_token_locked R i (Some 10) (pc, m) of
               (Inl err, s) \<Rightarrow> (Err err, s)
             | (Inr _, pc1, m1) \<Rightarrow>
                 (case find_entry i (pool m1) of
                    None \<Rightarrow> (Err (NoCredential i), pc1, m1)
                  | Some e1 \<Rightarrow>
                      (case access_token (credentials e1) of
                         Some t \<Rightarrow> (Ok (credentials e1, t), pc1, m1)
                       | None \<Rightarrow> (Err NoAccessToken, pc1, m1))))))"

text \<open>The report of a failed refresh, by the request path and by the task that refreshes ahead of time.\<close>

definition report_token_error :: "call_env \<Rightarrow> nat \<Rightarrow> refresh_error \<Rightarrow> token_manager \<Rightarrow> bool \<times> token_manager" where
  "report_token_error E i e m =
     (if e = TokenInvalidError then report_refresh_token_invalid E i m
      else report_refresh_failure_classified E i (is_refresh_error_credential_level e) m)"

definition prefetch_refresh_token_for :: "call_env \<Rightarrow> refresh_env \<Rightarrow> nat \<Rightarrow> int \<Rightarrow> probe_cells \<times> token_manager \<Rightarrow>
    probe_cells \<times> token_manager" where
  "prefetch_refresh_token_for E R i lead s =
     (case refresh_token_locked R i (Some lead) s of
        (Inr _, s1) \<Rightarrow> s1
      | (Inl e, pc, m) \<Rightarrow> (pc, snd (report_token_error E i e m)))"

text \<open>One round of the background task; the environments are those of the credentials in turn.\<close>

fun refresh_due :: "(nat \<Rightarrow> call_env \<times> refresh_env) \<Rightarrow> nat \<Rightarrow> nat list \<Rightarrow> int \<Rightarrow> probe_cells \<times> token_manager \<Rightarrow>
    probe_cells \<times> token_manager" where
  "refresh_due Es k [] lead s = s"
| "refresh_due Es k (i # is) lead s =
     (let (E, R) = Es k in refresh_due Es (k + 1) is lead (prefetch_refresh_token_for E R i lead s))"

definition run_once :: "(nat \<Rightarrow> call_env \<times> refresh_env) \<Rightarrow> clock_env \<Rightarrow> int \<Rightarrow> int \<Rightarrow> probe_cells \<times> token_manager \<Rightarrow>
    probe_cells \<times> token_manager" where
  "run_once Es C now lead = (\<lambda>(pc, m). refresh_due Es 0 (credentials_due_for_refresh C now lead m) lead (pc, m))"

subsection \<open>Another region\<close>

datatype probe_result = Usable "string option" | FeatureNotSupported | Unauthorized | ProbeError string

datatype switch_error = ArnEmpty | NoRegions | NotUsable probe_result | SwitchToken refresh_error | SwitchNoCredential

definition switch_profile_region_for :: "refresh_env \<Rightarrow> nat \<Rightarrow> string \<Rightarrow> probe_result \<Rightarrow> probe_cells \<times> token_manager \<Rightarrow>
    (switch_error + string option) \<times> probe_cells \<times> token_manager" where
  "switch_profile_region_for R i target result s0 =
     (let arn = trim target in
      if arn = [] then (Err ArnEmpty, s0)
      else
        (case ensure_valid_token R i s0 of
           (Inl e, s1) \<Rightarrow> (Err (SwitchToken e), s1)
         | (Inr (c, token), pc, m) \<Rightarrow>
             if \<not> is_external_idp_credential c \<and> \<not> is_idc_credential c then (Err NoRegions, pc, m)
             else
               let m1 = while_probing R m in
               (case result of
                  Usable title \<Rightarrow>
                    if find_entry i (pool m1) = None then (Err SwitchNoCredential, pc, m1)
                    else (Ok title, pc\<lparr>usage_403 := (usage_403 pc)(i := False)\<rparr>,
                          m1\<lparr>pool := update_entry i (\<lambda>e. e\<lparr>credentials := retitle title
                            (snd (sync_region_from_arn ((credentials e)\<lparr>profile_arn := Some arn\<rparr>))),
                            family_cache := None\<rparr>) (pool m1)\<rparr>)
                | r \<Rightarrow> (Err (NotUsable r), pc, m1))))"

definition probe_regions_for :: "refresh_env \<Rightarrow> nat \<Rightarrow> (kiro_credentials \<Rightarrow> string \<Rightarrow> 'p list) \<Rightarrow> probe_cells \<times> token_manager \<Rightarrow>
    (switch_error + 'p list) \<times> probe_cells \<times> token_manager" where
  "probe_regions_for R i probe_all s0 =
     (case ensure_valid_token R i s0 of
        (Inl e, s1) \<Rightarrow> (Err (SwitchToken e), s1)
      | (Inr (c, token), s1) \<Rightarrow>
          if \<not> is_external_idp_credential c \<and> \<not> is_idc_credential c then (Err NoRegions, s1)
          else (Ok (probe_all c token), s1))"

end
