(* ===== verification/Acquire.thy ===== *)
theory Acquire
  imports Selection TokenRefresh
begin

text \<open>
  \<open>acquire_context_excluding\<close> of \<open>src/src/kiro/token_manager.rs\<close>, the loop that gets a credential and a
  token for a request: selection, recovery of the quota, self-healing, diagnosis and waiting, the
  token, the rate limiter. One turn of the loop is a function; \<open>acquire_env\<close> carries what it meets:
  clocks, configuration, the draws of each pass over the pool (a selection repeated after a recovery and
  the diagnosis draw anew), the network, and what other requests change before the turn (while this one
  sleeps or tries again), between selection and diagnosis, and while the token is fetched. The guard of
  the request in flight is the one the selection took; dropping it takes one off the counter.
\<close>

subsection \<open>The alert for an exhausted pool\<close>

record pool_exhaustion_gate =
  gate_count :: nat
  window_start :: instant

definition POOL_EXHAUST_ALERT_WINDOW_SECS :: nat where "POOL_EXHAUST_ALERT_WINDOW_SECS = 30"
definition POOL_EXHAUST_ALERT_THRESHOLD :: nat where "POOL_EXHAUST_ALERT_THRESHOLD = 3"

definition gate_record :: "instant \<Rightarrow> pool_exhaustion_gate \<Rightarrow> bool \<times> pool_exhaustion_gate" where
  "gate_record now g =
     (let g1 = (if now - window_start g > secs POOL_EXHAUST_ALERT_WINDOW_SECS
                then \<lparr>gate_count = 0, window_start = now\<rparr> else g);
          g2 = g1\<lparr>gate_count := gate_count g1 + 1\<rparr> in
      (gate_count g2 \<ge> POOL_EXHAUST_ALERT_THRESHOLD, g2))"

definition gate_reset :: "pool_exhaustion_gate \<Rightarrow> pool_exhaustion_gate" where
  "gate_reset g = g\<lparr>gate_count := 0\<rparr>"

text \<open>Whether an alert is raised, and the gate after it.\<close>

definition note_pool_exhausted :: "instant \<Rightarrow> pool_exhaustion_gate \<Rightarrow> bool \<times> pool_exhaustion_gate" where
  "note_pool_exhausted now g =
     (let (alert_now, g1) = gate_record now g in (alert_now, if alert_now then gate_reset g1 else g1))"

subsection \<open>State, environment and results\<close>

definition MAX_TRANSIENT_WAIT_SECS :: nat where "MAX_TRANSIENT_WAIT_SECS = 20"
definition MAX_RACE_RESELECT :: nat where "MAX_RACE_RESELECT = 64"
definition FAST_FAIL_THRESHOLD :: duration where "FAST_FAIL_THRESHOLD = secs 2"
definition POOL_PERMANENT_THRESHOLD :: nat where "POOL_PERMANENT_THRESHOLD = 20"

record acquirer =
  picker :: selector
  cells :: probe_cells
  exhaust_gate :: pool_exhaustion_gate

record acquire_env =
  pick_env :: select_env
  recovered_env :: select_env
  healed_env :: select_env
  heal_calls :: call_env
  wall_time :: wall_clock
  heal_cfg :: heal_config
  diagnose_env :: select_env
  fast_fail :: bool
  fallback_env :: select_env
  fetching :: refresh_env
  fallback_fetching :: refresh_env
  report_env :: call_env
  waited_at :: instant
  limit_draw :: nat
  limited_at :: instant
  others_before :: "acquirer \<Rightarrow> acquirer"
  others_between :: "acquirer \<Rightarrow> acquirer"

record call_context =
  ctx_id :: nat
  ctx_credentials :: kiro_credentials
  ctx_token :: string

text \<open>
  The errors by their text; the numbers are the seconds announced for a retry, and for relays the
  rounds without a credential in a row (\<open>None\<close> where the text has none).
\<close>

datatype acquire_error =
  AttemptsExhausted
| RaceNotConverging
| AllCooling nat
| CoolingTimeout nat
| RpmTimeout nat
| ConcurrencyTimeout nat
| RelaysDown "nat option"
| RelaysDownForGood nat
| AllDisabled
| AllOutOfQuota
| AllDisabledForGood
| ModelUnsupported
| ModelBlocked nat

text \<open>The texts with \<open>pool_permanently_exhausted=1\<close>: a retry cannot help.\<close>

definition is_permanent :: "acquire_error \<Rightarrow> bool" where
  "is_permanent e = (case e of RelaysDownForGood _ \<Rightarrow> True | AllOutOfQuota \<Rightarrow> True | AllDisabledForGood \<Rightarrow> True | _ \<Rightarrow> False)"

record loop_state =
  attempt_count :: nat
  recovery_attempted :: bool
  race_reselect_count :: nat

text \<open>A turn returns, or sleeps (perhaps not at all) and goes round again.\<close>

datatype turn = Return "acquire_error + call_context" | Again duration

subsection \<open>Selection with its recoveries\<close>

definition total_count :: "token_manager \<Rightarrow> nat" where "total_count m = length (pool m)"

definition kiro_selectable_count :: "token_manager \<Rightarrow> nat" where
  "kiro_selectable_count m = length (filter (\<lambda>e. \<not> disabled e \<and> \<not> custom_api e) (pool m))"

definition max_attempts_of :: "token_manager \<Rightarrow> nat" where
  "max_attempts_of m = max (max (total_count m * MAX_FAILURES_PER_CREDENTIAL) (kiro_selectable_count m)) 1"

definition any_healable :: "credential_entry list \<Rightarrow> bool" where
  "any_healable es \<longleftrightarrow> list_ex (\<lambda>e. disabled e \<and> is_self_healable_reason (disabled_reason e)) es"

definition enabled_relay :: "credential_entry list \<Rightarrow> bool" where
  "enabled_relay es \<longleftrightarrow> list_ex (\<lambda>e. \<not> disabled e \<and> custom_api e) es"

text \<open>
  Nothing selected: once per request the quotas that came back are looked for, then the pool heals
  itself if it may; after each success the selection is repeated.
\<close>

definition pick_after_recovery :: "acquire_env \<Rightarrow> (select_env \<Rightarrow> selector \<Rightarrow> nat option \<times> selector) \<Rightarrow> bool \<Rightarrow> selector \<Rightarrow>
    nat option \<times> selector" where
  "pick_after_recovery E select attempted s =
     (if attempted then (None, s)
      else
        let (n, m) = recover_expired_quota_disables (heal_calls E) (wall_time E) (manager s);
            s1 = s\<lparr>manager := m\<rparr> in
        if n > 0 then select (recovered_env E) s1 else (None, s1))"

definition pick_after_healing :: "acquire_env \<Rightarrow> (select_env \<Rightarrow> selector \<Rightarrow> nat option \<times> selector) \<Rightarrow> selector \<Rightarrow>
    nat option \<times> selector" where
  "pick_after_healing E select s =
     (let m = manager s in
      if any_healable (pool m) \<and> heal_allowed (heal_cfg E) (at_instant (heal_calls E)) m
      then select (healed_env E) (s\<lparr>manager := self_heal (heal_calls E) (heal_cfg E) m\<rparr>)
      else (None, s))"

definition pick_best :: "acquire_env \<Rightarrow> (select_env \<Rightarrow> selector \<Rightarrow> nat option \<times> selector) \<Rightarrow> bool \<Rightarrow> selector \<Rightarrow>
    nat option \<times> selector \<times> bool" where
  "pick_best E select attempted s =
     (case select (pick_env E) s of
        (Some i, s1) \<Rightarrow> (Some i, s1, attempted)
      | (None, s1) \<Rightarrow>
          (case pick_after_recovery E select attempted s1 of
             (Some i, s2) \<Rightarrow> (Some i, s2, True)
           | (None, s2) \<Rightarrow>
               let (r, s3) = pick_after_healing E select s2 in (r, s3, True)))"

definition set_current :: "nat \<Rightarrow> selector \<Rightarrow> selector" where
  "set_current i s = s\<lparr>manager := (manager s)\<lparr>current_id := i\<rparr>\<rparr>"

definition release :: "nat \<Rightarrow> selector \<Rightarrow> selector" where
  "release i s = s\<lparr>inflight_of := (inflight_of s)(i := inflight_drop (inflight_of s i))\<rparr>"

subsection \<open>The token\<close>

text \<open>The guard goes into the context, or is dropped with the error.\<close>

definition try_ensure_token :: "refresh_env \<Rightarrow> nat \<Rightarrow> acquirer \<Rightarrow> (refresh_error + call_context) \<times> acquirer" where
  "try_ensure_token R i a =
     (let (r, pc, m) = ensure_valid_token R i (cells a, manager (picker a)) in
      case r of
        Inl e \<Rightarrow> (Err e, a\<lparr>picker := release i ((picker a)\<lparr>manager := m\<rparr>), cells := pc\<rparr>)
      | Inr (c, t) \<Rightarrow>
          (Ok \<lparr>ctx_id = i, ctx_credentials = c, ctx_token = t\<rparr>,
           a\<lparr>picker := (picker a)\<lparr>manager := token_ready i m\<rparr>, cells := pc\<rparr>))"

subsection \<open>Waiting or giving up\<close>

definition note_exhausted :: "instant \<Rightarrow> acquirer \<Rightarrow> acquirer" where
  "note_exhausted now a = a\<lparr>exhaust_gate := snd (note_pool_exhausted now (exhaust_gate a))\<rparr>"

text \<open>What a wait comes to: at least 250 ms, at most 2 seconds or, for the other two reasons, the rest
  of the 20 seconds.\<close>

definition cooling_wait :: "duration \<Rightarrow> duration" where
  "cooling_wait wait = min (max wait (millis 250)) (secs 2)"

definition capacity_pause :: "duration \<Rightarrow> duration \<Rightarrow> duration" where
  "capacity_pause elapsed wait =
     (let remaining = secs MAX_TRANSIENT_WAIT_SECS - elapsed in
      min (max wait (millis 250)) (max remaining (millis 250)))"

definition retry_secs :: "duration \<Rightarrow> nat" where "retry_secs wait = max (as_secs wait) 1"

definition wait_for_capacity :: "(nat \<Rightarrow> acquire_error) \<Rightarrow> instant \<Rightarrow> acquire_env \<Rightarrow> duration \<Rightarrow> turn" where
  "wait_for_capacity err started E wait =
     (let elapsed = waited_at E - started in
      if elapsed < secs MAX_TRANSIENT_WAIT_SECS then Again (capacity_pause elapsed wait)
      else Return (Err (err (retry_secs wait))))"

definition wait_for_cooling :: "instant \<Rightarrow> acquire_env \<Rightarrow> duration \<Rightarrow> turn" where
  "wait_for_cooling started E wait =
     (if fast_fail E \<and> wait > FAST_FAIL_THRESHOLD then Return (Err (AllCooling (retry_secs wait)))
      else if waited_at E - started < secs MAX_TRANSIENT_WAIT_SECS then Again (cooling_wait wait)
      else Return (Err (CoolingTimeout (retry_secs wait))))"

text \<open>All are cooling: the selection of last resort is tried first.\<close>

definition last_resort :: "acquire_env \<Rightarrow> string option \<Rightarrow> nat set \<Rightarrow> acquirer \<Rightarrow> call_context option \<times> acquirer" where
  "last_resort E model excluded a =
     (case select_ignoring_cooldown (fallback_env E) model excluded (picker a) of
        (None, s) \<Rightarrow> (None, a\<lparr>picker := s\<rparr>)
      | (Some i, s) \<Rightarrow>
          (case try_ensure_token (fallback_fetching E) i (a\<lparr>picker := s\<rparr>) of
             (Inr ctx, a1) \<Rightarrow> (Some ctx, a1)
           | (Inl _, a1) \<Rightarrow> (None, a1)))"

text \<open>The shortest rest of a block of the model, over the whole table.\<close>

definition model_block_min_remaining :: "instant \<Rightarrow> string option \<Rightarrow> token_manager \<Rightarrow> duration option" where
  "model_block_min_remaining now model m =
     (case model of
        None \<Rightarrow> None
      | Some name \<Rightarrow>
          if name = [] then None
          else
            let rests = {MODEL_BLOCK_TTL - (now - t) | i t. model_blocklist m (i, name) = Some t \<and> now - t \<le> MODEL_BLOCK_TTL} in
            if rests = {} then None else Some (Min rests))"

definition all_kiro_out_of_quota :: "credential_entry list \<Rightarrow> bool" where
  "all_kiro_out_of_quota es =
     (let kiro = filter (\<lambda>e. \<not> custom_api e) es in
      kiro \<noteq> [] \<and> list_all (\<lambda>e. disabled e \<and> disabled_reason e = Some QuotaExceeded) kiro)"

definition no_candidate :: "acquire_env \<Rightarrow> string option \<Rightarrow> acquirer \<Rightarrow> acquire_error \<times> acquirer" where
  "no_candidate E model a =
     (let m = manager (picker a); es = pool m; now = waited_at E in
      if kiro_selectable_count m = 0 then
        if any_healable es \<or> enabled_relay es then
          if enabled_relay es then
            let n = inc32 (consecutive_pool_unavailable (picker a));
                a1 = note_exhausted now (a\<lparr>picker := (picker a)\<lparr>consecutive_pool_unavailable := n\<rparr>\<rparr>) in
            (if n \<ge> POOL_PERMANENT_THRESHOLD then RelaysDownForGood n else RelaysDown (Some n), a1)
          else (AllDisabled, note_exhausted now a)
        else (if all_kiro_out_of_quota es then AllOutOfQuota else AllDisabledForGood, note_exhausted now a)
      else
        (case model_block_min_remaining now model m of
           None \<Rightarrow> (ModelUnsupported, a)
         | Some remaining \<Rightarrow> (ModelBlocked (retry_secs remaining), a)))"

definition after_diagnosis :: "acquire_env \<Rightarrow> string option \<Rightarrow> nat set \<Rightarrow> instant \<Rightarrow> loop_state \<Rightarrow> acquirer \<Rightarrow>
    turn \<times> loop_state \<times> acquirer" where
  "after_diagnosis E model excluded started l a0 =
     (let (outcome, s) = transient_wait_outcome (diagnose_env E) model (picker a0); a = a0\<lparr>picker := s\<rparr> in
      (case outcome of
         Available \<Rightarrow>
           let l1 = l\<lparr>race_reselect_count := race_reselect_count l + 1\<rparr> in
           (if race_reselect_count l1 > MAX_RACE_RESELECT then Return (Err RaceNotConverging) else Again 0, l1, a)
       | Wait wait Cooling \<Rightarrow>
           (case last_resort E model excluded a of
              (Some ctx, a1) \<Rightarrow> (Return (Ok ctx), l, a1)
            | (None, a1) \<Rightarrow> (wait_for_cooling started E wait, l, a1))
       | Wait wait RpmRecovery \<Rightarrow> (wait_for_capacity RpmTimeout started E wait, l, a)
       | Wait wait ConcurrencyFull \<Rightarrow> (wait_for_capacity ConcurrencyTimeout started E wait, l, a)
       | NoCandidate \<Rightarrow> let (e, a1) = no_candidate E model a in (Return (Err e), l, a1)))"

subsection \<open>One turn\<close>

definition refresh_failed :: "acquire_env \<Rightarrow> nat \<Rightarrow> refresh_error \<Rightarrow> acquirer \<Rightarrow> turn \<times> acquirer" where
  "refresh_failed E i e a =
     (let (has_available, m) = report_token_error (report_env E) i e (manager (picker a));
          a1 = a\<lparr>picker := (picker a)\<lparr>manager := m\<rparr>\<rparr> in
      (if has_available then Again 0
       else if \<not> (any_healable (pool m) \<or> enabled_relay (pool m)) then Return (Err AllDisabledForGood)
       else if enabled_relay (pool m) then Return (Err (RelaysDown None))
       else Return (Err AllDisabled), a1))"

definition with_picked :: "acquire_env \<Rightarrow> nat \<Rightarrow> loop_state \<Rightarrow> acquirer \<Rightarrow> turn \<times> loop_state \<times> acquirer" where
  "with_picked E i l a0 =
     (let l1 = l\<lparr>attempt_count := attempt_count l + 1\<rparr> in
      (case try_ensure_token (fetching E) i a0 of
         (Inl e, a) \<Rightarrow> let (t, a1) = refresh_failed E i e a in (t, l1, a1)
       | (Inr ctx, a) \<Rightarrow>
           let m = manager (picker a) in
           if rate_limit_enabled m then
             (case try_acquire (limit_draw E) (limited_at E) i (limiter m) of
                (Inl _, rl) \<Rightarrow>
                  (Again 0, l1, a\<lparr>picker := release i ((picker a)\<lparr>manager := m\<lparr>limiter := rl\<rparr>\<rparr>)\<rparr>)
              | (Inr _, rl) \<Rightarrow>
                  (Return (Ok ctx), l, a\<lparr>picker := (picker a)\<lparr>manager := m\<lparr>limiter := rl\<rparr>\<rparr>\<rparr>))
           else (Return (Ok ctx), l, a)))"

definition acquire_turn :: "string option \<Rightarrow> string option \<Rightarrow> nat set \<Rightarrow> nat \<Rightarrow> instant \<Rightarrow> acquire_env \<Rightarrow>
    loop_state \<Rightarrow> acquirer \<Rightarrow> turn \<times> loop_state \<times> acquirer" where
  "acquire_turn model user_id excluded max_attempts started E l a0 =
     (let a1 = others_before E a0 in
      if attempt_count l \<ge> max_attempts
      then (Return (Err AttemptsExhausted), l, note_exhausted (now_of (pick_env E)) a1)
      else
        let (best, s, attempted) = pick_best E (\<lambda>S. select_next_credential S model user_id excluded)
                                     (recovery_attempted l) (picker a1);
            l1 = l\<lparr>recovery_attempted := attempted\<rparr> in
        (case best of
           Some i \<Rightarrow> with_picked E i l1 (a1\<lparr>picker := set_current i s\<rparr>)
         | None \<Rightarrow> after_diagnosis E model excluded started l1 (others_between E (a1\<lparr>picker := s\<rparr>))))"

text \<open>The loop, over the environments of its turns; \<open>None\<close> while it has not returned.\<close>

fun acquire_loop :: "string option \<Rightarrow> string option \<Rightarrow> nat set \<Rightarrow> nat \<Rightarrow> instant \<Rightarrow> acquire_env list \<Rightarrow>
    loop_state \<Rightarrow> acquirer \<Rightarrow> (acquire_error + call_context) option \<times> duration list \<times> acquirer" where
  "acquire_loop model user_id excluded n started [] l a = (None, [], a)"
| "acquire_loop model user_id excluded n started (E # Es) l a =
     (case acquire_turn model user_id excluded n started E l a of
        (Return r, _, a1) \<Rightarrow> (Some r, [], a1)
      | (Again d, l1, a1) \<Rightarrow>
          let (r, ds, a2) = acquire_loop model user_id excluded n started Es l1 a1 in (r, d # ds, a2))"

definition acquire_context_excluding :: "string option \<Rightarrow> string option \<Rightarrow> nat set \<Rightarrow> instant \<Rightarrow> acquire_env list \<Rightarrow>
    acquirer \<Rightarrow> (acquire_error + call_context) option \<times> duration list \<times> acquirer" where
  "acquire_context_excluding model user_id excluded started Es a =
     acquire_loop model user_id excluded (max_attempts_of (manager (picker a))) started Es
       \<lparr>attempt_count = 0, recovery_attempted = False, race_reselect_count = 0\<rparr> a"

subsection \<open>A token without the loop\<close>

text \<open>For the search service: the first OAuth account that has served before, else the first OAuth
  account, else the first with an API key.\<close>

definition usable_secret :: "string option \<Rightarrow> string option" where
  "usable_secret s = (case s of Some t \<Rightarrow> if trim t = [] then None else Some t | None \<Rightarrow> None)"

definition first_with :: "(credential_entry \<Rightarrow> string option) \<Rightarrow> credential_entry list \<Rightarrow> call_context option" where
  "first_with secret es =
     (case List.map_filter (\<lambda>e. map_option (\<lambda>t. \<lparr>ctx_id = eid e, ctx_credentials = credentials e, ctx_token = t\<rparr>) (secret e)) es of
        [] \<Rightarrow> None | c # _ \<Rightarrow> Some c)"

definition acquire_mcp_direct_token_excluding :: "nat set \<Rightarrow> token_manager \<Rightarrow> call_context option" where
  "acquire_mcp_direct_token_excluding exclude m =
     (let es = filter (\<lambda>e. \<not> disabled e \<and> eid e \<notin> exclude) (pool m);
          oauth = (\<lambda>e. usable_secret (access_token (credentials e)));
          served = first_with oauth (filter (\<lambda>e. success_count e > 0) es);
          fresh = first_with oauth (filter (\<lambda>e. \<not> success_count e > 0) es);
          keyed = first_with (\<lambda>e. usable_secret (kiro_api_key (credentials e))) es in
      case served of Some c \<Rightarrow> Some c | None \<Rightarrow> (case fresh of Some c \<Rightarrow> Some c | None \<Rightarrow> keyed))"

definition observed_upstream_rpm :: "instant \<Rightarrow> token_manager \<Rightarrow> nat \<times> token_manager" where
  "observed_upstream_rpm now m =
     (let ids = map eid (filter (\<lambda>e. \<not> disabled e) (pool m)) in
      if ids = [] then (0, m)
      else
        let (counts, r) = rpm_counts_for now ids (rpm_table m) in
        (sum_list (map (\<lambda>i. case counts i of Some n \<Rightarrow> n | None \<Rightarrow> 0) (remdups ids)), m\<lparr>rpm_table := r\<rparr>))"

end
