(* ===== verification/TokenLaws.thy ===== *)
theory TokenLaws
  imports TokenRefresh
    PoolLaws
begin

text \<open>
  What the refresh of tokens promises: how often the network is asked, where a refresh token may go,
  that a result is not written over a newer one, that the token handed out belongs to the credential
  handed out with it, what a refusal of each kind of account leads to, and that the pool stays well
  formed.
\<close>

subsection \<open>How often the network is asked\<close>

lemma refresh_attempts_spec:
  assumes "refresh_attempts ask n k = (r, k')" and "0 < n"
  shows "k < k' \<and> k' \<le> k + n \<and> r = ask (k' - 1) \<and>
    (\<forall>j. k \<le> j \<and> j + 1 < k' \<longrightarrow> (\<exists>e. ask j = Inl e \<and> \<not> is_final e \<and> refresh_error_retryable e))"
  using assms
proof (induction ask n k rule: refresh_attempts.induct)
  case (1 ask k)
  then show ?case by simp
next
  case (2 ask n k)
  show ?case
  proof (cases "\<exists>e. ask k = Inl e \<and> \<not> is_final e \<and> refresh_error_retryable e \<and> 0 < n")
    case True
    then obtain e where e: "ask k = Inl e" "\<not> is_final e" "refresh_error_retryable e" "0 < n" by blast
    then have rec: "refresh_attempts ask n (k + 1) = (r, k')" using "2.prems"(1) by simp
    have IH: "k + 1 < k' \<and> k' \<le> k + 1 + n \<and> r = ask (k' - 1) \<and>
      (\<forall>j. k + 1 \<le> j \<and> j + 1 < k' \<longrightarrow> (\<exists>e. ask j = Inl e \<and> \<not> is_final e \<and> refresh_error_retryable e))"
      by (rule "2.IH" [OF e(1,2) _ rec e(4)]) (simp add: e(3,4))
    show ?thesis
    proof (intro conjI allI impI)
      fix j assume j: "k \<le> j \<and> j + 1 < k'"
      show "\<exists>e. ask j = Inl e \<and> \<not> is_final e \<and> refresh_error_retryable e"
        using IH j e by (cases "j = k") auto
    qed (use IH in auto)
  next
    case False
    then show ?thesis using "2.prems"(1) by (auto split: sum.splits if_splits)
  qed
qed

text \<open>
  A refresh asks at least once and at most three times and pauses for three seconds in all. It asks
  again only after an error that may pass (no dead token, no diagnosis, no refusal below 500, no
  invalid configuration), and what it returns is the last answer.\<close>
theorem refresh_attempts_bounded:
  assumes "refresh_attempts ask REFRESH_ATTEMPTS 0 = (r, k)"
  shows "1 \<le> k \<and> k \<le> 3 \<and> refresh_pause k \<le> secs 3 \<and> r = ask (k - 1) \<and>
    (\<forall>j. j + 1 < k \<longrightarrow> (\<exists>e. ask j = Inl e \<and> \<not> is_final e \<and> refresh_error_retryable e))"
proof -
  have s: "0 < k \<and> k \<le> 3 \<and> r = ask (k - 1) \<and>
      (\<forall>j. 0 \<le> j \<and> j + 1 < k \<longrightarrow> (\<exists>e. ask j = Inl e \<and> \<not> is_final e \<and> refresh_error_retryable e))"
    using refresh_attempts_spec [OF assms] by (simp add: REFRESH_ATTEMPTS_def)
  then have "k = 1 \<or> k = 2 \<or> k = 3" by linarith
  moreover have "refresh_pause 3 = secs 3" by (simp add: numeral_3_eq_3 secs_def)
  ultimately have "refresh_pause k \<le> secs 3" by (auto simp: numeral_2_eq_2 secs_def)
  with s show ?thesis by simp
qed

text \<open>A server fault, then a dead token: two questions.\<close>
theorem refresh_attempts_bounded_witness:
  "refresh_pause 2 \<le> secs 3 \<and>
   refresh_attempts (\<lambda>k. if k = 0 then Inl (HttpError 503) else Inl TokenInvalidError) REFRESH_ATTEMPTS 0 =
     (Inl TokenInvalidError, 2)"
proof -
  have r: "refresh_attempts (\<lambda>k. if k = 0 then Inl (HttpError 503) else Inl TokenInvalidError) REFRESH_ATTEMPTS 0 =
     (Inl TokenInvalidError, 2)"
    by (simp add: REFRESH_ATTEMPTS_def numeral_3_eq_3 is_final_def refresh_error_retryable_def)
  show ?thesis using refresh_attempts_bounded [OF r] r by simp
qed

subsection \<open>Where a refresh token goes\<close>

text \<open>The addresses a credential's refresh token may be sent to.\<close>

definition token_home :: "region_config \<Rightarrow> kiro_credentials \<Rightarrow> string \<Rightarrow> bool" where
  "token_home cfg c url \<longleftrightarrow>
     (\<exists>r. (r \<in> set KIRO_DIALOG_REGIONS \<or> r = cfg_effective_auth_region cfg) \<and>
        (url = ''https://prod.'' @ r @ ''.auth.desktop.kiro.dev/refreshToken'' \<or>
         url = ''https://oidc.'' @ r @ ''.amazonaws.com/token'')) \<or>
     is_external_idp_credential c \<and> validate_microsoft_token_endpoint url = Ok ()"

lemma effective_auth_region_cases:
  "effective_auth_region cfg c \<in> set KIRO_DIALOG_REGIONS \<or> effective_auth_region cfg c = cfg_effective_auth_region cfg"
  by (auto simp: effective_auth_region_def sanitized_region_def or_opt_def bind_eq_Some_conv
      split: option.splits if_splits)

text \<open>
  C17. A refresh token goes nowhere but to the sign-in service of a known or the configured region or,
  for an account of an external identity provider, to an address that the check of Microsoft's hosts
  lets pass: the outcome of a refresh does not depend on what any other address would answer.\<close>
theorem token_sent_home_only:
  assumes "\<And>url. token_home cfg c url \<Longrightarrow> ask url = ask' url"
  shows "ask_new_token C now cfg ask c = ask_new_token C now cfg ask' c"
proof -
  note r = effective_auth_region_cases [of cfg c]
  have social: "refresh_social_token C now cfg ask c = refresh_social_token C now cfg ask' c"
    using r assms by (auto simp: refresh_social_token_def token_home_def split: option.split)
  have idc: "refresh_idc_token C now cfg ask c = refresh_idc_token C now cfg ask' c"
    using r assms by (auto simp: refresh_idc_token_def token_home_def)
  have ext: "refresh_external_idp_token C now ask c = refresh_external_idp_token C now ask' c"
    if m: "refresh_method_of c = ExternalIdp"
  proof -
    have "is_external_idp_credential c" using m by (auto simp: refresh_method_of_def Let_def split: if_splits)
    then have "ask url = ask' url" if v: "validate_microsoft_token_endpoint url = Inr ()" for url
      using assms [of url] v by (simp add: token_home_def)
    then show ?thesis
      by (auto simp: refresh_external_idp_token_def bind_ok_def split: sum.split)
  qed
  show ?thesis
    by (simp add: ask_new_token_def bind_ok_def social idc ext split: sum.split refresh_method.split)
qed

text \<open>A social account: an address elsewhere may answer what it likes.\<close>
theorem token_sent_home_only_witness:
  "ask_new_token \<lparr>parse_rfc3339 = (\<lambda>_. None), to_rfc3339 = (\<lambda>_. [])\<rparr> 0
     \<lparr>cfg_region = ''us-east-1'', cfg_auth_region = None, cfg_api_region = None\<rparr>
     (\<lambda>url. Answer 500 [] (Inl [])) (credentials_default\<lparr>refresh_token := Some (replicate 100 CHR ''t'')\<rparr>) =
   ask_new_token \<lparr>parse_rfc3339 = (\<lambda>_. None), to_rfc3339 = (\<lambda>_. [])\<rparr> 0
     \<lparr>cfg_region = ''us-east-1'', cfg_auth_region = None, cfg_api_region = None\<rparr>
     (\<lambda>url. if url = ''https://evil.example/'' then NoAnswer [] else Answer 500 [] (Inl []))
     (credentials_default\<lparr>refresh_token := Some (replicate 100 CHR ''t'')\<rparr>)"
proof (rule token_sent_home_only)
  fix url :: string
  let ?cfg = "\<lparr>cfg_region = ''us-east-1'', cfg_auth_region = None, cfg_api_region = None\<rparr> :: region_config"
  let ?c = "credentials_default\<lparr>refresh_token := Some (replicate 100 CHR ''t'')\<rparr>"
  assume "token_home ?cfg ?c url"
  then have "url \<noteq> ''https://evil.example/''"
    by (auto simp: token_home_def is_external_idp_credential_def credentials_default_def)
  then show "Answer 500 [] (Inl []) = (if url = ''https://evil.example/'' then NoAnswer [] else Answer 500 [] (Inl []))"
    by simp
qed

text \<open>The host of an \<open>https\<close> URL as a parser of the WHATWG standard reads it, for which a backslash
  ends the authority like a slash.\<close>

definition standard_host :: "string \<Rightarrow> string" where
  "standard_host url = first_piece {CHR ''/'', CHR 0x5C, CHR ''?'', CHR ''#'', CHR '':''} (drop 8 url)"

text \<open>
  C40. The check of Microsoft's hosts cuts the address at slash, question mark and hash, but not at a
  backslash, so it takes \<open>evil.example\.login.microsoftonline.com\<close> for a host of Microsoft where the
  URL parser of the HTTP client connects to \<open>evil.example\<close>: the refresh token leaves.\<close>
theorem backslash_passes_check:
  "\<exists>url. validate_microsoft_token_endpoint url = Ok () \<and> standard_host url = ''evil.example''"
proof -
  let ?url = "''https://evil.example'' @ [CHR 0x5C] @ ''.login.microsoftonline.com/t''"
  have "validate_microsoft_token_endpoint ?url = Ok ()"
    by (simp add: validate_microsoft_token_endpoint_def first_piece_def MICROSOFT_HOSTS_def ends_with_def
        to_ascii_lowercase_def ascii_lower_def code_def Let_def)
  moreover have "standard_host ?url = ''evil.example''"
    by (simp add: standard_host_def first_piece_def)
  ultimately show ?thesis by blast
qed


subsection \<open>What is written back\<close>

lemma find_updated_id [simp]:
  "\<forall>e. eid (f e) = eid e \<Longrightarrow> find_entry i (update_entry i f es) = map_option f (find_entry i es)"
  by (induction es) (auto simp: find_entry_def)

lemma refresh_writeback_stale:
  "find_entry i (pool m) = Some e \<Longrightarrow> refresh_token (credentials e) \<noteq> refresh_token c \<Longrightarrow>
     refresh_writeback i c n m = (False, m)"
  by (simp add: refresh_writeback_def)

text \<open>
  C15. If the refresh token of a credential was replaced while its refresh was under way, the refresh
  writes nothing: the pool is as the others left it, before or after the question.\<close>
theorem newer_token_kept:
  assumes "refresh_token_locked R i lead (pc, m) = (r, pc', m')"
    and "find_entry i (pool (while_locking R m)) = Some e"
    and "find_entry i (pool (while_asking R (while_locking R m))) = Some e'"
    and "refresh_token (credentials e') \<noteq> refresh_token (credentials e)"
  shows "pc' = pc \<and> m' \<in> {m, while_locking R m, while_asking R (while_locking R m)} \<and> r \<noteq> Ok Refreshed"
  using assms(1) refresh_writeback_stale [OF assms(3,4)] assms(2)
  by (auto simp: refresh_token_locked_def Let_def split: option.splits if_splits sum.splits prod.splits)

subsection \<open>The token handed out\<close>

text \<open>
  C16. The token a request gets belongs to the credentials it gets with it, and these are the entry of
  the pool when it gets them. It is the key of a relay or an API key, or an access token that was
  valid for more than ten minutes when it was checked, or that a refresh went before.\<close>
theorem token_of_credential:
  assumes "ensure_valid_token R i (pc, m) = (Ok (c, t), pc', m')"
  shows "(\<exists>e. find_entry i (pool m') = Some e \<and> credentials e = c) \<and>
    (is_custom_api_credential c \<and> t = (case api_key c of Some k \<Rightarrow> k | None \<Rightarrow> []) \<or>
     is_api_key_credential c \<and> kiro_api_key c = Some t \<or>
       access_token c = Some t \<and>
         (m' = m \<and> is_token_expiring_within (clock R) (checked_at R) 10 c = Some False \<or>
          (\<exists>o'. refresh_token_locked R i (Some 10) (pc, m) = (Ok o', pc', m'))))"
proof -
  obtain e where e: "find_entry i (pool m) = Some e" 
    using assms by (auto simp: ensure_valid_token_def split: option.splits)
  let ?c = "credentials e"
  consider (relay) "is_custom_api_credential ?c" | (key) "\<not> is_custom_api_credential ?c" "is_api_key_credential ?c"
    | (fresh) "\<not> is_custom_api_credential ?c" "\<not> is_api_key_credential ?c"
        "\<not> is_token_expired (clock R) (checked_at R) ?c" "\<not> is_token_expiring_soon (clock R) (checked_at R) ?c"
    | (old) "\<not> is_custom_api_credential ?c" "\<not> is_api_key_credential ?c"
        "is_token_expired (clock R) (checked_at R) ?c \<or> is_token_expiring_soon (clock R) (checked_at R) ?c"
    by blast
  then show ?thesis
  proof cases
    case relay
    then show ?thesis using assms e by (auto simp: ensure_valid_token_def Let_def)
  next
    case key
    then show ?thesis using assms e by (auto simp: ensure_valid_token_def Let_def split: option.splits)
  next
    case fresh
    have "is_token_expiring_within (clock R) (checked_at R) 10 ?c = Some False"
      using fresh by (auto simp: is_token_expired_def is_token_expiring_soon_def is_token_expiring_within_def
          split: option.splits)
    then show ?thesis using fresh assms e by (auto simp: ensure_valid_token_def Let_def split: option.splits)
  next
    case old
    then show ?thesis using assms e
      by (auto simp: ensure_valid_token_def Let_def split: option.splits sum.splits prod.splits)
  qed
qed


subsection \<open>What a refusal leads to\<close>

lemma take_chars_prefix: "\<exists>r. s = take_chars n s @ r"
  by (induction n s rule: take_chars.induct) (auto split: nat.splits)

lemma contains_append: "contains p a \<Longrightarrow> contains p (a @ r)"
proof -
  assume "contains p a"
  then obtain u v where "a = u @ p @ v" unfolding contains_def find_sub_None by auto
  then have "a @ r = u @ p @ (v @ r)" by simp
  then show ?thesis unfolding contains_def find_sub_None by blast
qed

lemma contains_cut: "contains p (take_chars n s) \<Longrightarrow> contains p s"
proof -
  assume c: "contains p (take_chars n s)"
  obtain r where "s = take_chars n s @ r" using take_chars_prefix by blast
  then show ?thesis using contains_append [OF c, of r] by simp
qed

lemma dead_token_cut: "is_dead_token status (take_chars n body) \<Longrightarrow> is_dead_token status body"
  by (auto simp: is_dead_token_def intro: contains_cut)

lemma report_transient_keeps_pool:
  "e \<noteq> TokenInvalidError \<Longrightarrow> \<not> is_refresh_error_credential_level e \<Longrightarrow>
     pool (snd (report_token_error E i e m)) = pool m"
  by (simp add: report_token_error_def report_refresh_failure_classified_def Let_def pool_untouched split: option.split)

text \<open>
  C18. A refusal other than of a dead token is final for an account of the AWS identity centre and never
  counts against it: an expired client (\<open>invalid_client\<close>, which the code lists among the errors of the
  credential itself) only cools it, again and again, and a server fault is not asked again although
  the comments say three times. The same refusal of a social account counts from 400 to 499 and is
  asked again from 500 to 599.\<close>
theorem idc_refusals_never_count:
  assumes "\<not> is_success status" and "\<not> is_dead_token status body"
    and "refresh_token c \<noteq> None" and "client_id c \<noteq> None" and "client_secret c \<noteq> None"
  shows "(\<exists>e. refresh_idc_token C now cfg (\<lambda>_. Answer status body p) c = Err e \<and> is_final e \<and>
      pool (snd (report_token_error E i e m)) = pool m) \<and>
    (\<exists>f. refresh_social_token C now cfg (\<lambda>_. Answer status body p) c = Err f \<and> \<not> is_final f \<and>
      (refresh_error_retryable f \<longleftrightarrow> 500 \<le> status \<and> status < 600) \<and>
      (is_refresh_error_credential_level f \<longleftrightarrow> 400 \<le> status \<and> status < 500 \<and> status \<noteq> 429))"
proof
  have "refresh_idc_token C now cfg (\<lambda>_. Answer status body p) c = Err (DiagnosedError (diagnose_refresh status body))"
    using assms by (simp add: refresh_idc_token_def read_answer_def refused_diagnosed_def)
  then show "\<exists>e. refresh_idc_token C now cfg (\<lambda>_. Answer status body p) c = Err e \<and> is_final e \<and>
      pool (snd (report_token_error E i e m)) = pool m"
    by (simp add: is_final_def report_transient_keeps_pool is_refresh_error_credential_level_def)
  obtain t where "refresh_token c = Some t" using assms(3) by blast
  then have "refresh_social_token C now cfg (\<lambda>_. Answer status body p) c = Err (HttpError status)"
    using assms(1,2) dead_token_cut
    by (auto simp: refresh_social_token_def read_answer_def refused_plain_def)
  then show "\<exists>f. refresh_social_token C now cfg (\<lambda>_. Answer status body p) c = Err f \<and> \<not> is_final f \<and>
      (refresh_error_retryable f \<longleftrightarrow> 500 \<le> status \<and> status < 600) \<and>
      (is_refresh_error_credential_level f \<longleftrightarrow> 400 \<le> status \<and> status < 500 \<and> status \<noteq> 429)"
    by (simp add: is_final_def refresh_error_retryable_def is_refresh_error_credential_level_def)
qed

subsection \<open>The pool stays well formed\<close>

text \<open>What others do while the refresh waits keeps the pool well formed, as every call of the pool does.\<close>

definition others_keep :: "refresh_env \<Rightarrow> bool" where
  "others_keep R \<longleftrightarrow> (\<forall>m. pool_inv m \<longrightarrow> pool_inv (while_locking R m) \<and> pool_inv (while_asking R m) \<and>
     pool_inv (while_probing R m) \<and> pool_inv (while_resolving R m))"

lemma pool_inv_writebacks:
  "pool_inv m \<Longrightarrow> pool_inv (snd (refresh_writeback i c n m))"
  "pool_inv m \<Longrightarrow> pool_inv (resolved_arn_writeback i c a m)"
  "pool_inv m \<Longrightarrow> pool_inv (token_ready i m)"
  using pool_inv_evolves auto_keeps_ok auto_writebacks auto_relayed(3) by blast+

lemma pool_inv_reprobed:
  "pool_inv m \<Longrightarrow> pool_inv (snd (snd (reprobe_and_correct_region_with i c best now (pc, m))))"
proof -
  assume inv: "pool_inv m"
  have "evolves keeps_ok m (m\<lparr>pool := update_entry i (reprobed_entry c a t) (pool m)\<rparr>)" for a t
    by (rule evolves_updated) (auto simp: reprobed_entry_def keeps_ok_def entry_ok_def Let_def)
  then show ?thesis using inv pool_inv_evolves
    by (auto simp: reprobe_and_correct_region_with_def split: option.split)
qed

lemma pool_inv_settled: "pool_inv m \<Longrightarrow> others_keep R \<Longrightarrow> pool_inv (snd (settle_profile R i (pc, m)))"
  using pool_inv_reprobed pool_inv_writebacks(2)
  by (auto simp: settle_profile_def others_keep_def Let_def split: option.split sum.split)

lemma pool_inv_refresh:
  assumes "pool_inv m" and "others_keep R"
  shows "pool_inv (snd (snd (refresh_token_locked R i lead (pc, m))))"
proof -
  have k: "pool_inv (while_locking R m)" "pool_inv (while_asking R (while_locking R m))"
    using assms by (auto simp: others_keep_def)
  have "pool_inv (snd (settle_profile R i (pc, snd (refresh_writeback i c n (while_asking R (while_locking R m))))))" for c n
    by (rule pool_inv_settled [OF pool_inv_writebacks(1) [OF k(2)] assms(2)])
  then show ?thesis
    using assms(1) k pool_inv_writebacks(1) [OF k(2)]
    by (auto simp: refresh_token_locked_def Let_def split_beta split: option.split sum.split)
qed

lemma pool_inv_ensure:
  assumes "pool_inv m" and "others_keep R"
  shows "pool_inv (snd (snd (ensure_valid_token R i (pc, m))))"
  using assms pool_inv_refresh [OF assms, of i "Some 10" pc]
  by (auto simp: ensure_valid_token_def Let_def split: option.split sum.split prod.split)

lemma pool_inv_report_token: "pool_inv m \<Longrightarrow> pool_inv (snd (report_token_error E i e m))"
  using pool_inv_evolves auto_keeps_ok auto_refresh_classified token_invalid.evolves_report
  by (auto simp: report_token_error_def report_refresh_token_invalid_def)


subsection \<open>Witnesses\<close>

definition oauth_account :: "char \<Rightarrow> kiro_credentials" where
  "oauth_account ch = credentials_default\<lparr>refresh_token := Some (replicate 100 ch), access_token := Some ''at'',
     token_expires_at := Some ''t''\<rparr>"

text \<open>A network that is down; while a refresh waits for it the token is replaced.\<close>

definition sample_refresh_env :: refresh_env where
  "sample_refresh_env =
     \<lparr>clock = \<lparr>parse_rfc3339 = (\<lambda>_. Some (minutes_of 60)), to_rfc3339 = (\<lambda>_. [])\<rparr>,
      regions = \<lparr>cfg_region = ''us-east-1'', cfg_auth_region = None, cfg_api_region = None\<rparr>,
      checked_at = 0, locked_at = 0, asked_at = (\<lambda>_. 0), lock_granted = True, ask_of = (\<lambda>_ _. NoAnswer []),
      probe_now = 0, probed = None, ask_region_of = (\<lambda>_. Inr None), while_locking = (\<lambda>m. m),
      while_asking = (\<lambda>m. m\<lparr>pool := update_entry 1 (\<lambda>e. e\<lparr>credentials := oauth_account CHR ''n''\<rparr>) (pool m)\<rparr>),
      while_probing = (\<lambda>m. m), while_resolving = (\<lambda>m. m)\<rparr>"

definition sample_cells :: probe_cells where
  "sample_cells = \<lparr>usage_403 = (\<lambda>_. False), last_full_reprobe_at = (\<lambda>_. None)\<rparr>"

abbreviation oauth_pool :: token_manager where
  "oauth_pool \<equiv> sample_manager [entry_new 1 (oauth_account CHR ''o'')]"

theorem newer_token_kept_witness:
  "fst (snd (refresh_token_locked sample_refresh_env 1 None (sample_cells, oauth_pool))) = sample_cells \<and>
   fst (refresh_token_locked sample_refresh_env 1 None (sample_cells, oauth_pool)) \<noteq> Ok Refreshed"
proof -
  obtain r pc' m' where r: "refresh_token_locked sample_refresh_env 1 None (sample_cells, oauth_pool) = (r, pc', m')"
    by (cases "refresh_token_locked sample_refresh_env 1 None (sample_cells, oauth_pool)") auto
  have f: "find_entry 1 (pool (while_locking sample_refresh_env oauth_pool)) = Some (entry_new 1 (oauth_account CHR ''o''))"
    by (simp add: sample_refresh_env_def sample_manager_def find_entry_def entry_new_def)
  have g: "find_entry 1 (pool (while_asking sample_refresh_env (while_locking sample_refresh_env oauth_pool))) =
      Some ((entry_new 1 (oauth_account CHR ''o''))\<lparr>credentials := oauth_account CHR ''n''\<rparr>)"
    by (simp add: sample_refresh_env_def sample_manager_def find_entry_def entry_new_def)
  show ?thesis using newer_token_kept [OF r f g] r by (simp add: entry_new_def oauth_account_def)
qed

theorem token_of_credential_witness:
  "\<exists>e. find_entry 1 (pool oauth_pool) = Some e \<and> credentials e = oauth_account CHR ''o''"
proof -
  have "ensure_valid_token sample_refresh_env 1 (sample_cells, oauth_pool) =
      (Ok (oauth_account CHR ''o'', ''at''), sample_cells, oauth_pool)"
    by (simp add: ensure_valid_token_def sample_manager_def find_entry_def entry_new_def oauth_account_def
        is_custom_api_credential_def is_api_key_credential_def credentials_default_def is_token_expired_def
        is_token_expiring_soon_def is_token_expiring_within_def sample_refresh_env_def minutes_of_def Let_def)
  from token_of_credential [OF this] show ?thesis by simp
qed

theorem idc_refusals_never_count_witness:
  "pool (snd (report_token_error sample_env 1 (DiagnosedError (diagnose_refresh 400 ''invalid_client'')) oauth_pool)) =
     pool oauth_pool"
proof -
  let ?c = "(oauth_account CHR ''o'')\<lparr>client_id := Some ''c'', client_secret := Some ''s''\<rparr>"
  have s: "\<not> is_success 400" "\<not> is_dead_token 400 ''invalid_client''"
    by (simp_all add: is_success_def is_dead_token_def contains_def)
  have "\<exists>e. refresh_idc_token (clock sample_refresh_env) 0 (regions sample_refresh_env)
      (\<lambda>_. Answer 400 ''invalid_client'' (Inl [])) ?c = Err e \<and> is_final e \<and>
      pool (snd (report_token_error sample_env 1 e oauth_pool)) = pool oauth_pool"
    using idc_refusals_never_count [OF s, of ?c "clock sample_refresh_env" 0 "regions sample_refresh_env" "Inl []" sample_env 1 oauth_pool]
    by (simp add: oauth_account_def)
  then show ?thesis using s by (simp add: refresh_idc_token_def read_answer_def refused_diagnosed_def oauth_account_def)
qed

end
