(* ===== verification/AcquireLaws.thy ===== *)
theory AcquireLaws
  imports Acquire SelectionLaws
    TokenLaws
begin

text \<open>
  What \<open>acquire_context_excluding\<close> promises: it returns, sleeping less than 22 seconds in all; it keeps
  one place among the requests in flight for the credential it returns and none otherwise; it leaves
  the pool well formed; it declares the pool dead only if it is; and it goes round without sleeping
  only if others interfered.
\<close>

subsection \<open>The loop ends\<close>















subsection \<open>One place among the requests in flight\<close>

text \<open>The counters, with one more for the credential held.\<close>

definition holding :: "nat option \<Rightarrow> (nat \<Rightarrow> nat) \<Rightarrow> nat \<Rightarrow> nat" where
  "holding r f = (case r of None \<Rightarrow> f | Some i \<Rightarrow> f(i := f i + 1))"

lemma committed_inflight:
  "e \<in> set (candidates E model s) \<Longrightarrow> inflight_of s4 = inflight_of s \<Longrightarrow>
     inflight_of (commit_selection E e key s4) = holding (Some (eid e)) (inflight_of s)"
proof -
  assume "e \<in> set (candidates E model s)" and f: "inflight_of s4 = inflight_of s"
  then have "inflight_of s (eid e) < 16"
    using candidatesD [of e E model s] by (auto simp: passes_def CREDENTIAL_MAX_CONCURRENCY_def)
  then show ?thesis by (simp add: f holding_def inflight_acquire_def)
qed

lemma select_inflight:
  "inflight_of (snd (select_next_credential E model uid ex s)) =
     holding (fst (select_next_credential E model uid ex s)) (inflight_of s)"
proof (rule select_cases [of E model s uid ex])
  fix e s3
  assume a: "e \<in> set (preferred ex (candidates E model s))" "gate_view E s3 = gate_view E s"
    "select_next_credential E model uid ex s = (Some (eid e), commit_selection E e (model_key model) s3)"
  have "e \<in> set (candidates E model s)" using a(1) preferred_facts(1) by blast
  then have "inflight_of (commit_selection E e (model_key model) s3) = holding (Some (eid e)) (inflight_of s)"
    by (rule committed_inflight) (rule gate_view_reads(2) [OF a(2)])
  then show ?thesis unfolding a(3) by simp
next
  fix e g s4
  assume a: "gate_view E s4 = gate_view E s"
    "balanced_choice E (model_key model) ex (candidates E model s) g s4 = Some e"
    "select_next_credential E model uid ex s =
       (Some (eid e), commit_selection E e (model_key model) (bind_selected E uid (eid e) s4))"
  have "inflight_of (bind_selected E uid (eid e) s4) = inflight_of s" using gate_view_reads(2) [OF a(1)] by simp
  then have "inflight_of (commit_selection E e (model_key model) (bind_selected E uid (eid e) s4)) =
      holding (Some (eid e)) (inflight_of s)"
    by (rule committed_inflight [OF balanced_choice_Some(1) [OF a(2)]])
  then show ?thesis unfolding a(3) by simp
qed (simp_all add: holding_def, (drule gate_view_reads(2), simp)+)

lemma last_choice_inflight:
  "inflight_of (snd (select_ignoring_cooldown E model ex s)) =
     holding (fst (select_ignoring_cooldown E model ex s)) (inflight_of s)"
proof -
  let ?f = "filter_entries (is_entry_selectable_inner E (is_opus_model model) (model_key model) True) (pool (manager s)) s"
  note f = filter_entries_passes [of E "is_opus_model model" "model_key model" True "pool (manager s)" s]
  have i: "inflight_of (snd ?f) = inflight_of s" using f gate_view_reads(2) by blast
  have "inflight_of s (eid b) < 16"
    if b: "min_by_key (fallback_key (now_of E) (snd ?f)) (preferred ex (fst ?f)) = Some b" for b
  proof -
    have "b \<in> set (fst ?f)" using min_by_key_Some [OF b] preferred_facts(1) by auto
    then show ?thesis using f by (auto simp: passes_def CREDENTIAL_MAX_CONCURRENCY_def)
  qed
  then show ?thesis
    by (auto simp: select_ignoring_cooldown_def split_beta holding_def inflight_acquire_def i split: option.split)
qed


lemma diagnosis_view: "gate_view E (snd (transient_wait_outcome E model s)) = gate_view E s"
  by (simp add: transient_wait_outcome_def split_beta entry_waits_spec)

lemma pick_inflight:
  assumes "\<And>S s. inflight_of (snd (select S s)) = holding (fst (select S s)) (inflight_of s)"
  shows "inflight_of (fst (snd (pick_best E select b s))) = holding (fst (pick_best E select b s)) (inflight_of s)"
proof -
  note split = split_beta Let_def
  have r: "inflight_of (snd (pick_after_recovery E select b s)) =
      holding (fst (pick_after_recovery E select b s)) (inflight_of s)" for s
    by (simp add: pick_after_recovery_def split assms holding_def)
  have h: "inflight_of (snd (pick_after_healing E select s)) =
      holding (fst (pick_after_healing E select s)) (inflight_of s)" for s
    by (simp add: pick_after_healing_def split assms holding_def)
  show ?thesis
    using assms [of "pick_env E" s] r [of "snd (select (pick_env E) s)"]
      h [of "snd (pick_after_recovery E select b (snd (select (pick_env E) s)))"]
    by (auto simp: pick_best_def holding_def split split: prod.splits option.splits)
qed

lemma release_held: "f = holding (Some i) g \<Longrightarrow> inflight_of s = f \<Longrightarrow> inflight_of (release i s) = g"
  by (auto simp: release_def holding_def inflight_drop_def)

lemma ensured_inflight:
  "inflight_of (picker a) = holding (Some i) g \<Longrightarrow> try_ensure_token R i a = (r, a') \<Longrightarrow>
     inflight_of (picker a') = (case r of Inl _ \<Rightarrow> g | Inr c \<Rightarrow> holding (Some (ctx_id c)) g)"
  by (auto simp: try_ensure_token_def Let_def release_def holding_def inflight_drop_def fun_eq_iff
      split: prod.splits sum.splits)

definition held_by :: "turn \<Rightarrow> nat option" where
  "held_by t = (case t of Return (Inr c) \<Rightarrow> Some (ctx_id c) | _ \<Rightarrow> None)"

lemma picked_inflight:
  assumes "inflight_of (picker a) = holding (Some i) g" and "with_picked E i l a = (t, l', a')"
  shows "inflight_of (picker a') = holding (held_by t) g"
proof -
  obtain r b where b: "try_ensure_token (fetching E) i a = (r, b)" by (cases "try_ensure_token (fetching E) i a") auto
  note f = ensured_inflight [OF assms(1) b]
  have id: "ctx_id c = i" if "r = Inr c" for c
    using b that by (auto simp: try_ensure_token_def Let_def split: prod.splits sum.splits)
  show ?thesis
  proof (cases r)
    case (Inl e)
    then show ?thesis using assms(2) b f
      by (auto simp: with_picked_def refresh_failed_def held_by_def holding_def Let_def split_beta)
  next
    case (Inr c)
    then show ?thesis using assms(2) b f id [OF Inr]
      by (auto simp: with_picked_def held_by_def Let_def split_beta holding_def release_def inflight_drop_def
          fun_eq_iff split: sum.splits if_splits prod.splits)
  qed
qed

lemma last_resort_inflight:
  assumes "last_resort E model ex a = (r, a')"
  shows "inflight_of (picker a') = holding (map_option ctx_id r) (inflight_of (picker a))"
proof -
  let ?r = "select_ignoring_cooldown (fallback_env E) model ex (picker a)"
  note f = last_choice_inflight [of "fallback_env E" model ex "picker a"]
  show ?thesis
  proof (cases "fst ?r")
    case None
    then show ?thesis using assms f by (cases ?r) (auto simp: last_resort_def holding_def)
  next
    case (Some i)
    obtain r1 b where b: "try_ensure_token (fallback_fetching E) i (a\<lparr>picker := snd ?r\<rparr>) = (r1, b)"
      by (cases "try_ensure_token (fallback_fetching E) i (a\<lparr>picker := snd ?r\<rparr>)") auto
    have "inflight_of (picker (a\<lparr>picker := snd ?r\<rparr>)) = holding (Some i) (inflight_of (picker a))"
      using f Some by simp
    from ensured_inflight [OF this b] show ?thesis
      using assms Some b by (cases ?r) (auto simp: last_resort_def holding_def split: sum.splits)
  qed
qed

lemma no_candidate_inflight: "inflight_of (picker (snd (no_candidate E model a))) = inflight_of (picker a)"
  by (simp add: no_candidate_def Let_def note_exhausted_def split: option.split)

lemma diagnosed_inflight:
  assumes "after_diagnosis E model ex started l a = (t, l', a')"
  shows "inflight_of (picker a') = holding (held_by t) (inflight_of (picker a))"
proof -
  obtain w s where w: "transient_wait_outcome (diagnose_env E) model (picker a) = (w, s)"
    by (cases "transient_wait_outcome (diagnose_env E) model (picker a)") auto
  have s: "inflight_of s = inflight_of (picker a)"
    using gate_view_reads(2) [OF diagnosis_view [of "diagnose_env E" model "picker a"]] w by simp
  have none: "held_by (wait_for_capacity err started E d) = None" "held_by (wait_for_cooling started E d) = None" for err d
    by (auto simp: wait_for_capacity_def wait_for_cooling_def held_by_def Let_def)
  show ?thesis
  proof (cases w)
    case (Wait d r)
    obtain c b where c: "last_resort E model ex (a\<lparr>picker := s\<rparr>) = (c, b)"
      by (cases "last_resort E model ex (a\<lparr>picker := s\<rparr>)") auto
    then show ?thesis using assms w Wait s last_resort_inflight [OF c] none
      by (cases r; cases c) (auto simp: after_diagnosis_def held_by_def holding_def)
  next
    case NoCandidate
    then show ?thesis using assms w s no_candidate_inflight [of E model "a\<lparr>picker := s\<rparr>"]
      by (auto simp: after_diagnosis_def held_by_def holding_def split_beta Let_def)
  next
    case Available
    then show ?thesis using assms w s by (auto simp: after_diagnosis_def held_by_def holding_def Let_def split: if_splits)
  qed
qed


text \<open>Others leave the counters alone: what is counted is this request.\<close>

definition counts_kept :: "acquire_env \<Rightarrow> bool" where
  "counts_kept E \<longleftrightarrow> (\<forall>a. inflight_of (picker (others_before E a)) = inflight_of (picker a) \<and>
     inflight_of (picker (others_between E a)) = inflight_of (picker a))"

lemma turn_inflight:
  assumes "acquire_turn model uid ex n started E l a = (t, l', a')" and "counts_kept E"
  shows "inflight_of (picker a') = holding (held_by t) (inflight_of (picker a))"
proof -
  let ?a1 = "others_before E a"
  let ?sel = "\<lambda>S. select_next_credential S model uid ex"
  let ?pick = "pick_best E ?sel (recovery_attempted l) (picker ?a1)"
  obtain best s attempted where p: "?pick = (best, s, attempted)" by (cases ?pick) auto
  have k: "inflight_of (picker ?a1) = inflight_of (picker a)"
      "inflight_of (picker (others_between E b)) = inflight_of (picker b)" for b
    using assms(2) by (simp_all add: counts_kept_def)
  have s: "inflight_of s = holding best (inflight_of (picker a))"
    using pick_inflight [of ?sel E "recovery_attempted l" "picker ?a1", OF select_inflight] p k(1) by simp
  show ?thesis
  proof (cases "attempt_count l \<ge> n")
    case True
    then show ?thesis using assms(1) k(1)
      by (auto simp: acquire_turn_def Let_def held_by_def holding_def note_exhausted_def)
  next
    case False
    let ?l = "l\<lparr>recovery_attempted := attempted\<rparr>"
    show ?thesis
    proof (cases best)
      case None
      then have "after_diagnosis E model ex started ?l (others_between E (?a1\<lparr>picker := s\<rparr>)) = (t, l', a')"
        using assms(1) False p by (simp add: acquire_turn_def Let_def)
      from diagnosed_inflight [OF this] show ?thesis using None s k(2) by (simp add: holding_def)
    next
      case (Some i)
      then have w: "with_picked E i ?l (?a1\<lparr>picker := set_current i s\<rparr>) = (t, l', a')"
        using assms(1) False p by (simp add: acquire_turn_def Let_def)
      have "inflight_of (picker (?a1\<lparr>picker := set_current i s\<rparr>)) = holding (Some i) (inflight_of (picker a))"
        using s Some by (simp add: set_current_def)
      then show ?thesis by (rule picked_inflight [OF _ w])
    qed
  qed
qed

text \<open>
  C9. A request that gets a credential holds one more place among its requests in flight, and no other;
  one that gets an error, or has not returned yet, holds none. Every guard taken for a credential that
  was given up (no token, refused by the rate limiter, last resort in vain) has been dropped.\<close>
theorem one_place_in_flight:
  assumes "acquire_context_excluding model uid ex started Es a = (r, ds, a')" and "list_all counts_kept Es"
  shows "inflight_of (picker a') =
    (case r of Some (Inr c) \<Rightarrow> (inflight_of (picker a))(ctx_id c := inflight_of (picker a) (ctx_id c) + 1)
     | _ \<Rightarrow> inflight_of (picker a))"
proof -
  have "inflight_of (picker a') =
      holding (case r of Some (Inr c) \<Rightarrow> Some (ctx_id c) | _ \<Rightarrow> None) (inflight_of (picker a))"
    if "acquire_loop model uid ex n started Es l a = (r, ds, a')" "list_all counts_kept Es" for n l ds
    using that
  proof (induction Es arbitrary: l a ds)
    case Nil
    then show ?case by (auto simp: holding_def)
  next
    case (Cons E Es)
    obtain t l1 a1 where turn: "acquire_turn model uid ex n started E l a = (t, l1, a1)"
      by (cases "acquire_turn model uid ex n started E l a") auto
    have i: "inflight_of (picker a1) = holding (held_by t) (inflight_of (picker a))"
      using turn_inflight [OF turn] Cons.prems(2) by simp
    show ?case
    proof (cases t)
      case (Return x)
      then show ?thesis using Cons.prems(1) turn i by (auto simp: held_by_def split: sum.splits)
    next
      case (Again d)
      obtain r' ds' a2 where rec: "acquire_loop model uid ex n started Es l1 a1 = (r', ds', a2)"
        by (cases "acquire_loop model uid ex n started Es l1 a1") auto
      have "r = r'" "a' = a2" using Cons.prems(1) turn Again rec by auto
      then show ?thesis using Cons.IH [of l1 a1 ds'] rec Cons.prems(2) i Again by (simp add: held_by_def holding_def)
    qed
  qed
  then show ?thesis using assms
    by (auto simp: acquire_context_excluding_def holding_def split: option.split sum.split)
qed


subsection \<open>The pool stays well formed\<close>

text \<open>A step that leaves the entries but for their cached families, the trash and the numbers.\<close>

definition same_books :: "token_manager \<Rightarrow> token_manager \<Rightarrow> bool" where
  "same_books m m' \<longleftrightarrow> (pool m' = pool m \<or> pool m' = map (\<lambda>e. snd (family_key_cached e)) (pool m)) \<and>
     trash m' = trash m \<and> next_id m' = next_id m"

lemma cached_twice: "snd (family_key_cached (snd (family_key_cached e))) = snd (family_key_cached e)"
  by (simp add: family_key_cached_def Let_def split: option.split)

lemma same_books_trans: "same_books a b \<Longrightarrow> same_books b c \<Longrightarrow> same_books a c"
  by (auto simp: same_books_def cached_twice)

lemma pool_inv_same_books: "pool_inv m \<Longrightarrow> same_books m m' \<Longrightarrow> pool_inv m'"
proof -
  have "keeps_ok e e" "keeps_ok e (snd (family_key_cached e))" for e
    by (auto simp: keeps_ok_def entry_ok_def family_key_cached_def Let_def split: option.split)
  then have "same_books m m' \<Longrightarrow> evolves keeps_ok m m'"
    by (auto simp: same_books_def evolves_def list_all2_map_self list_all2_same)
  then show "pool_inv m \<Longrightarrow> same_books m m' \<Longrightarrow> pool_inv m'" using pool_inv_evolves by blast
qed

lemma inner_books:
  "pool (manager (snd (is_entry_selectable_inner E b model ig e s))) = pool (manager s) \<and>
   trash (manager (snd (is_entry_selectable_inner E b model ig e s))) = trash (manager s) \<and>
   next_id (manager (snd (is_entry_selectable_inner E b model ig e s))) = next_id (manager s)"
  by (simp add: is_entry_selectable_inner_def is_model_blocked_def Let_def split_beta split: option.split)

lemma filter_books:
  "pool (manager (snd (filter_entries (is_entry_selectable_inner E b model ig) es s))) = pool (manager s) \<and>
   trash (manager (snd (filter_entries (is_entry_selectable_inner E b model ig) es s))) = trash (manager s) \<and>
   next_id (manager (snd (filter_entries (is_entry_selectable_inner E b model ig) es s))) = next_id (manager s)"
  by (induction es arbitrary: s) (simp_all add: split_beta inner_books)

lemma commit_books [simp]:
  "pool (manager (commit_selection E e key s)) = pool (manager s)"
  "trash (manager (commit_selection E e key s)) = trash (manager s)"
  "next_id (manager (commit_selection E e key s)) = next_id (manager s)"
  by (simp_all add: commit_selection_def Let_def)

lemma circuit_books [simp]:
  "pool (manager (snd (family_circuit_open E i s))) = pool (manager s)"
  "trash (manager (snd (family_circuit_open E i s))) = trash (manager s)"
  "next_id (manager (snd (family_circuit_open E i s))) = next_id (manager s)"
  by (simp_all add: family_circuit_open_def split_beta Let_def split: option.split)

lemma bind_books [simp]:
  "pool (manager (bind_selected E uid i s)) = pool (manager s)"
  "trash (manager (bind_selected E uid i s)) = trash (manager s)"
  "next_id (manager (bind_selected E uid i s)) = next_id (manager s)"
  by (simp_all add: bind_selected_def Let_def split: option.split)

lemma healthy_books [simp]:
  "pool (manager (snd (is_sticky_reuse_healthy E e s))) = pool (manager s)"
  "trash (manager (snd (is_sticky_reuse_healthy E e s))) = trash (manager s)"
  "next_id (manager (snd (is_sticky_reuse_healthy E e s))) = next_id (manager s)"
  by (simp_all add: is_sticky_reuse_healthy_def is_rpm_saturated_with_limit_def split_beta Let_def)

lemma sticky_books:
  "pool (manager (snd (sticky_choice E uid ex es s))) = pool (manager s) \<and>
   trash (manager (snd (sticky_choice E uid ex es s))) = trash (manager s) \<and>
   next_id (manager (snd (sticky_choice E uid ex es s))) = next_id (manager s)"
  by (simp add: sticky_choice_def split_beta Let_def split: option.split)

lemma gather_books:
  "pool (manager (snd (gather_signals E model av es s))) = pool (manager s) \<and>
   trash (manager (snd (gather_signals E model av es s))) = trash (manager s) \<and>
   next_id (manager (snd (gather_signals E model av es s))) = next_id (manager s)"
  by (simp add: gather_signals_def split_beta Let_def)


lemma select_books: "same_books (manager s) (manager (snd (select_next_credential E model uid ex s)))"
proof -
  note f = filter_books [of E "is_opus_model model" "model_key model" False]
  show ?thesis
    using f sticky_books gather_books
    by (auto simp: select_next_credential_def is_entry_selectable_def same_books_def Let_def split_beta split: option.split)
qed

lemma last_choice_books: "same_books (manager s) (manager (snd (select_ignoring_cooldown E model ex s)))"
  using filter_books [of E "is_opus_model model" "model_key model" True]
  by (auto simp: select_ignoring_cooldown_def same_books_def split_beta split: option.split)

lemma capacity_books:
  "pool (manager (snd (capacity_wait E e s))) = pool (manager s) \<and>
   trash (manager (snd (capacity_wait E e s))) = trash (manager s) \<and>
   next_id (manager (snd (capacity_wait E e s))) = next_id (manager s)"
  by (simp add: capacity_wait_def is_rpm_saturated_with_limit_def split_beta Let_def)

lemma entry_wait_books:
  "pool (manager (snd (entry_wait E b model e s))) = pool (manager s) \<and>
   trash (manager (snd (entry_wait E b model e s))) = trash (manager s) \<and>
   next_id (manager (snd (entry_wait E b model e s))) = next_id (manager s)"
  using capacity_books by (simp add: entry_wait_def is_model_blocked_def split_beta Let_def split: option.split)

lemma entry_waits_books:
  "pool (manager (snd (entry_waits E b model es s))) = pool (manager s) \<and>
   trash (manager (snd (entry_waits E b model es s))) = trash (manager s) \<and>
   next_id (manager (snd (entry_waits E b model es s))) = next_id (manager s)"
  by (induction es arbitrary: s) (simp_all add: split_beta entry_wait_books)

lemma diagnosis_books: "same_books (manager s) (manager (snd (transient_wait_outcome E model s)))"
  using entry_waits_books by (simp add: transient_wait_outcome_def same_books_def split_beta)

lemma inv_recovered: "pool_inv m \<Longrightarrow> pool_inv (snd (recover_expired_quota_disables E w m))"
  "pool_inv m \<Longrightarrow> pool_inv (self_heal E cfg m)"
  using pool_inv_evolves auto_keeps_ok auto_recoveries by blast+

lemma inv_pick:
  assumes "\<And>S s. pool_inv (manager s) \<Longrightarrow> pool_inv (manager (snd (select S s)))" and "pool_inv (manager s)"
  shows "pool_inv (manager (fst (snd (pick_best E select b s))))"
proof -
  have r: "pool_inv (manager s) \<Longrightarrow> pool_inv (manager (snd (pick_after_recovery E select b s)))" for s
    using assms(1) inv_recovered(1) by (auto simp: pick_after_recovery_def Let_def split_beta)
  have h: "pool_inv (manager s) \<Longrightarrow> pool_inv (manager (snd (pick_after_healing E select s)))" for s
    using assms(1) inv_recovered(2) by (auto simp: pick_after_healing_def Let_def)
  let ?s1 = "snd (select (pick_env E) s)"
  have "pool_inv (manager ?s1)" using assms by blast
  moreover from this have "pool_inv (manager (snd (pick_after_recovery E select b ?s1)))" by (rule r)
  moreover from this have "pool_inv (manager (snd (pick_after_healing E select (snd (pick_after_recovery E select b ?s1)))))"
    by (rule h)
  ultimately show ?thesis
    by (auto simp: pick_best_def Let_def split_beta split: prod.split option.split)
qed

definition others_keep_pool :: "acquire_env \<Rightarrow> bool" where
  "others_keep_pool E \<longleftrightarrow> others_keep (fetching E) \<and> others_keep (fallback_fetching E) \<and>
     (\<forall>a. pool_inv (manager (picker a)) \<longrightarrow>
        pool_inv (manager (picker (others_before E a))) \<and> pool_inv (manager (picker (others_between E a))))"

lemma pool_inv_selects:
  "pool_inv (manager s) \<Longrightarrow> pool_inv (manager (snd (select_next_credential E model uid ex s)))"
  "pool_inv (manager s) \<Longrightarrow> pool_inv (manager (snd (select_ignoring_cooldown E model ex s)))"
  "pool_inv (manager s) \<Longrightarrow> pool_inv (manager (snd (transient_wait_outcome E model s)))"
  using pool_inv_same_books select_books last_choice_books diagnosis_books by blast+

lemma pool_inv_frame [simp]:
  "pool_inv (m\<lparr>current_id := i\<rparr>) = pool_inv m" "pool_inv (m\<lparr>limiter := rl\<rparr>) = pool_inv m"
  by (simp_all add: pool_inv_def ids_def)

lemma inv_ensured:
  "pool_inv (manager (picker a)) \<Longrightarrow> others_keep R \<Longrightarrow> pool_inv (manager (picker (snd (try_ensure_token R i a))))"
  using pool_inv_ensure [of "manager (picker a)" R i "cells a"] pool_inv_writebacks(3)
  by (auto simp: try_ensure_token_def release_def Let_def split_beta split: sum.split prod.split)

lemma inv_turn:
  assumes inv: "pool_inv (manager (picker a))" and ok: "others_keep_pool E"
  shows "pool_inv (manager (picker (snd (snd (acquire_turn model uid ex n started E l a)))))"
proof -
  have before: "pool_inv (manager (picker (others_before E a)))" using assms by (simp add: others_keep_pool_def)
  have keep: "others_keep (fetching E)" "others_keep (fallback_fetching E)"
      "pool_inv (manager (picker a)) \<Longrightarrow> pool_inv (manager (picker (others_between E a)))" for a
    using ok by (auto simp: others_keep_pool_def)
  have picked: "pool_inv (manager (picker (snd (snd (with_picked E i l a)))))"
    if "pool_inv (manager (picker a))" for i l a
    using inv_ensured [OF that keep(1), of i] pool_inv_report_token
    by (auto simp: with_picked_def refresh_failed_def release_def Let_def split_beta split: sum.split prod.split)
  have resort: "pool_inv (manager (picker (snd (last_resort E model ex a))))"
    if "pool_inv (manager (picker a))" for a
    using pool_inv_selects(2) [OF that, of "fallback_env E" model ex]
      inv_ensured [OF _ keep(2), of "a\<lparr>picker := s\<rparr>" for s]
    by (auto simp: last_resort_def split_beta split: prod.split option.split sum.split)
  have none: "manager (picker (snd (no_candidate E model a))) = manager (picker a)" for a
    by (simp add: no_candidate_def note_exhausted_def Let_def split: option.split)
  have diagnosed: "pool_inv (manager (picker (snd (snd (after_diagnosis E model ex started l a)))))"
    if "pool_inv (manager (picker a))" for l a
    using pool_inv_selects(3) [OF that, of "diagnose_env E" model]
      resort [of "a\<lparr>picker := snd (transient_wait_outcome (diagnose_env E) model (picker a))\<rparr>"]
    by (auto simp: after_diagnosis_def Let_def split_beta none split: wait_outcome.split wait_reason.split option.split prod.split)
  have pick: "pool_inv (manager (fst (snd (pick_best E (\<lambda>S. select_next_credential S model uid ex) b (picker (others_before E a))))))" for b
    by (rule inv_pick [OF pool_inv_selects(1) before])
  show ?thesis
    using before pick [of "recovery_attempted l"] picked diagnosed keep(3)
    by (auto simp: acquire_turn_def Let_def split_beta note_exhausted_def set_current_def split: option.split)
qed


text \<open>
  Getting a credential keeps the pool well formed (disabled exactly with a reason, cached families
  true, numbers distinct and given out), if what others do meanwhile does.\<close>
theorem acquire_keeps_pool:
  assumes "acquire_context_excluding model uid ex started Es a = (r, ds, a')" and "list_all others_keep_pool Es"
    and "pool_inv (manager (picker a))"
  shows "pool_inv (manager (picker a'))"
proof -
  have "pool_inv (manager (picker a'))"
    if "acquire_loop model uid ex n started Es l a = (r, ds, a')" "list_all others_keep_pool Es"
      "pool_inv (manager (picker a))" for n l ds
    using that
  proof (induction Es arbitrary: l a ds)
    case (Cons E Es)
    obtain t l1 a1 where turn: "acquire_turn model uid ex n started E l a = (t, l1, a1)"
      by (cases "acquire_turn model uid ex n started E l a") auto
    have inv: "pool_inv (manager (picker a1))"
      using inv_turn [of a E model uid ex n started l] Cons.prems(2,3) turn by simp
    show ?case
    proof (cases t)
      case (Again d)
      then show ?thesis using Cons.IH [of l1 a1] Cons.prems(1,2) turn inv
        by (auto split: prod.splits)
    qed (use Cons.prems(1) turn inv in auto)
  qed auto
  then show ?thesis using assms by (auto simp: acquire_context_excluding_def)
qed

subsection \<open>A pool declared dead is dead\<close>

lemma report_token_answer: "fst (report_token_error E i e m) = any_enabled (pool (snd (report_token_error E i e m)))"
  using token_invalid.answer refresh_failure.answer
  by (auto simp: report_token_error_def report_refresh_failure_classified_def Let_def preserved_answer split: option.split)

definition dead :: "token_manager \<Rightarrow> bool" where
  "dead m \<longleftrightarrow> \<not> any_enabled (pool m) \<and> \<not> any_healable (pool m)"

text \<open>A credential that may serve the model, whatever its load and cooldowns.\<close>

definition serves :: "select_env \<Rightarrow> string option \<Rightarrow> selector \<Rightarrow> credential_entry \<Rightarrow> bool" where
  "serves E model s e \<longleftrightarrow> \<not> disabled e \<and> \<not> custom_api e \<and>
     (is_opus_model model \<longrightarrow> supports_opus (upper_of E) (credentials e)) \<and>
     (model_key model \<noteq> [] \<longrightarrow> allows_model (credentials e) (model_key model)) \<and>
     \<not> fst (is_model_blocked (now_of E) (eid e) (model_key model) (manager s))"

text \<open>What has to be the case for an error that tells the client not to try again.\<close>

definition warranted :: "acquire_env \<Rightarrow> string option \<Rightarrow> acquirer \<Rightarrow> acquire_error \<Rightarrow> bool" where
  "warranted E model a e =
     (let s = picker a; m = manager s in
      case e of
        AllOutOfQuota \<Rightarrow> dead m
      | AllDisabledForGood \<Rightarrow> dead m
      | RelaysDownForGood n \<Rightarrow>
          20 \<le> n \<and> consecutive_pool_unavailable s = n \<and> kiro_selectable_count m = 0 \<and> enabled_relay (pool m)
      | ModelUnsupported \<Rightarrow>
          kiro_selectable_count m \<noteq> 0 \<and> (\<forall>c\<in>set (pool m). \<not> serves (diagnose_env E) model s c)
      | _ \<Rightarrow> True)"

lemma enabled_split: "any_enabled es \<longleftrightarrow> filter (\<lambda>e. \<not> disabled e \<and> \<not> custom_api e) es \<noteq> [] \<or> enabled_relay es"
  by (auto simp: any_enabled_def enabled_relay_def list_ex_iff filter_empty_conv)

lemma entry_wait_None:
  "fst (entry_wait E (is_opus_model model) (model_key model) e s) = None \<longleftrightarrow> \<not> serves E model s e"
  by (auto simp: entry_wait_def serves_def split_beta Let_def split: option.split)

lemma serves_view: "gate_view E s' = gate_view E s \<Longrightarrow> serves E model s' e = serves E model s e"
  using gate_view_reads(7) [of E s' s] by (simp add: serves_def)

lemma entry_waits_Nil:
  "fst (entry_waits E (is_opus_model model) (model_key model) es s) = [] \<longleftrightarrow> (\<forall>e\<in>set es. \<not> serves E model s e)"
proof (induction es arbitrary: s)
  case (Cons e es)
  let ?s1 = "snd (entry_wait E (is_opus_model model) (model_key model) e s)"
  have "serves E model ?s1 c = serves E model s c" for c by (rule serves_view [OF entry_wait_spec(1)])
  then show ?case
    using Cons.IH [of ?s1] entry_wait_None [of E model e s]
    by (auto simp: split_beta split: option.split)
qed simp

lemma no_candidate_diagnosed:
  assumes "fst (transient_wait_outcome E model s) = NoCandidate"
  shows "\<forall>c\<in>set (pool (manager (snd (transient_wait_outcome E model s)))).
    \<not> serves E model (snd (transient_wait_outcome E model s)) c"
proof -
  have "fst (entry_waits E (is_opus_model model) (model_key model) (pool (manager s)) s) = []"
    using assms by (auto simp: transient_wait_outcome_def split_beta split: if_splits option.splits)
  moreover have "pool (manager (snd (transient_wait_outcome E model s))) = pool (manager s)"
    using entry_waits_books by (simp add: transient_wait_outcome_def split_beta)
  ultimately show ?thesis
    using serves_view [OF diagnosis_view [of E model s]] by (simp add: entry_waits_Nil)
qed

abbreviation "refuses t E model a \<equiv> \<forall>e. t = Return (Inl e) \<longrightarrow> warranted E model a e"

lemma warranted_no_candidate:
  assumes "\<forall>c\<in>set (pool (manager (picker a))). \<not> serves (diagnose_env E) model (picker a) c"
  shows "warranted E model (snd (no_candidate E model a)) (fst (no_candidate E model a))"
proof -
  have m: "serves (diagnose_env E) model (s\<lparr>consecutive_pool_unavailable := n\<rparr>) c = serves (diagnose_env E) model s c" for s n c
    by (simp add: serves_def)
  show ?thesis
    using assms enabled_split [of "pool (manager (picker a))"]
    by (auto simp: no_candidate_def warranted_def dead_def note_exhausted_def kiro_selectable_count_def Let_def m
        POOL_PERMANENT_THRESHOLD_def split: option.split)
qed

lemma warranted_turn:
  assumes "acquire_turn model uid ex n started E l a = (t, l', a')"
  shows "refuses t E model a'"
proof -
  have waits: "refuses (wait_for_cooling started E d) E model b" "refuses (wait_for_capacity RpmTimeout started E d) E model b"
      "refuses (wait_for_capacity ConcurrencyTimeout started E d) E model b" for d b
    by (auto simp: wait_for_cooling_def wait_for_capacity_def warranted_def Let_def)
  have diagnosed: "refuses t E model b'" if t: "after_diagnosis E model ex started l b = (t, l', b')" for t l b b' l'
  proof -
    obtain w s where w: "transient_wait_outcome (diagnose_env E) model (picker b) = (w, s)"
      by (cases "transient_wait_outcome (diagnose_env E) model (picker b)") auto
    show ?thesis
    proof (cases w)
      case NoCandidate
      then have "warranted E model (snd (no_candidate E model (b\<lparr>picker := s\<rparr>))) (fst (no_candidate E model (b\<lparr>picker := s\<rparr>)))"
        using no_candidate_diagnosed [of "diagnose_env E" model "picker b"] w by (intro warranted_no_candidate) simp
      then show ?thesis using t w NoCandidate by (auto simp: after_diagnosis_def split_beta Let_def)
    next
      case Available
      then show ?thesis using t w by (auto simp: after_diagnosis_def warranted_def Let_def split: if_splits)
    next
      case (Wait d r)
      then show ?thesis using t w waits
        by (cases r) (auto simp: after_diagnosis_def Let_def split: option.splits prod.splits)
    qed
  qed
  have failed: "refuses (fst (refresh_failed E i e b)) E model (snd (refresh_failed E i e b))" for i e b
    using report_token_answer [of "report_env E" i e "manager (picker b)"]
    by (auto simp: refresh_failed_def dead_def warranted_def Let_def split_beta split: if_splits)
  have picked: "refuses t E model b'" if "with_picked E i l b = (t, l', b')" for i l t b b' l'
    using that failed
    by (auto simp: with_picked_def Let_def split_beta split: prod.splits sum.splits if_splits)
  show ?thesis using assms picked diagnosed
    by (auto simp: acquire_turn_def Let_def split_beta warranted_def split: if_splits option.splits)
qed

text \<open>
  C13. The errors that tell the client not to try again are true of the state they are given in. If
  every account is said to be out of quota, or every credential disabled for good, then no credential,
  relays included, is enabled and none of the disabled ones would heal by itself. If the relays are said
  to be down for good, then only relays are enabled, and the counter of requests in a row without a
  credential has reached twenty. If the model is said to be unsupported, then a credential that is no relay is
  enabled, but none of them may serve the model: each is excluded by its kind, its list of models, or a
  block of the model in force at the diagnosis.\<close>
theorem dead_pool_is_dead:
  assumes "acquire_context_excluding model uid ex started Es a = (Some (Err e), ds, a')"
  shows "\<exists>E\<in>set Es. warranted E model a' e"
proof -
  have "\<exists>E\<in>set Es. warranted E model a' e"
    if "acquire_loop model uid ex n started Es l a = (Some (Err e), ds, a')" for n l ds
    using that
  proof (induction Es arbitrary: l a ds)
    case (Cons E Es)
    obtain t l1 a1 where turn: "acquire_turn model uid ex n started E l a = (t, l1, a1)"
      by (cases "acquire_turn model uid ex n started E l a") auto
    show ?case
    proof (cases t)
      case (Return x)
      then show ?thesis using Cons.prems turn warranted_turn [OF turn] by auto
    next
      case (Again d)
      then show ?thesis using Cons.IH [of l1 a1] Cons.prems turn by (auto split: prod.splits)
    qed
  qed auto
  then show ?thesis using assms by (auto simp: acquire_context_excluding_def)
qed

subsection \<open>No busy waiting\<close>

lemma nothing_recovered:
  "fst (recover_expired_quota_disables E w m) = 0 \<Longrightarrow> snd (recover_expired_quota_disables E w m) = m"
proof -
  assume "fst (recover_expired_quota_disables E w m) = 0"
  then have none: "filter (quota_recoverable (floats E) w (balance_snapshots m)) (pool m) = []"
    by (simp add: recover_expired_quota_disables_def Let_def)
  then have "map (\<lambda>e. if quota_recoverable (floats E) w (balance_snapshots m) e
      then revive (e\<lparr>quota_exhausted_at := None\<rparr>) else e) (pool m) = pool m"
    by (auto simp: filter_empty_conv intro: map_idI)
  then show ?thesis using none by (simp add: recover_expired_quota_disables_def Let_def penalties_of_def)
qed


lemma penalties_settings [simp]:
  "rate_limit_enabled (penalties_of ks m) = rate_limit_enabled m"
  "rl_config (limiter (penalties_of ks m)) = rl_config (limiter m)"
  unfolding penalties_of_def
  by (induction ks arbitrary: m) (auto simp: clear_revive_side_penalties_def rate_reset_def)

lemma same_moment_recovered [simp]:
  "same_moment (snd (recover_expired_quota_disables E w m)) A B = same_moment m A B"
  "same_moment (self_heal E cfg m) A B = same_moment m A B"
  by (simp_all add: same_moment_def recover_expired_quota_disables_def self_heal_def Let_def)

lemma pick_none_unavailable:
  assumes "pick_best E (\<lambda>S. select_next_credential S model uid ex) b s = (None, s', b')"
    and "\<forall>S\<in>{pick_env E, recovered_env E, healed_env E}. same_moment (manager s) S D"
  shows "fst (transient_wait_outcome D model s') \<noteq> Available"
proof -
  let ?sel = "\<lambda>S. select_next_credential S model uid ex"
  let ?same = "\<lambda>s. \<forall>S\<in>{pick_env E, recovered_env E, healed_env E}. same_moment (manager s) S D"
  let ?taken = "\<lambda>s. fst (transient_wait_outcome D model s) \<noteq> Available"
  have sel: "?same s1 \<and> ?taken s1"
    if "?sel S s = (None, s1)" "S \<in> {pick_env E, recovered_env E, healed_env E}" "?same s" for S s s1
  proof -
    have none: "fst (?sel S s) = None" "snd (?sel S s) = s1" using that(1) by simp_all
    have "?taken s1" using select_none_unavailable [OF none(1), of D] that(2,3) none(2) by blast
    moreover have "?same s1"
      using that(3) same_moment_view [OF select_none_view(1) [OF none(1)]] none(2) by simp
    ultimately show ?thesis by blast
  qed
  have r: "?same s1 \<and> ?taken s1"
    if "pick_after_recovery E ?sel b s = (None, s1)" "?same s" "?taken s" for s s1
    using that sel [of "recovered_env E" "s\<lparr>manager := snd (recover_expired_quota_disables (heal_calls E) (wall_time E) (manager s))\<rparr>" s1]
      nothing_recovered [of "heal_calls E" "wall_time E" "manager s"]
    by (auto simp: pick_after_recovery_def Let_def split_beta split: if_splits)
  have h: "?taken s1" if "pick_after_healing E ?sel s = (None, s1)" "?same s" "?taken s" for s s1
    using that sel [of "healed_env E" "s\<lparr>manager := self_heal (heal_calls E) (heal_cfg E) (manager s)\<rparr>" s1]
    by (auto simp: pick_after_healing_def Let_def split: if_splits)
  obtain s1 where s1: "?sel (pick_env E) s = (None, s1)"
    using assms(1) by (cases "?sel (pick_env E) s"; cases "fst (?sel (pick_env E) s)") (auto simp: pick_best_def)
  obtain s2 where s2: "pick_after_recovery E ?sel b s1 = (None, s2)"
    using assms(1) s1
    by (cases "pick_after_recovery E ?sel b s1"; cases "fst (pick_after_recovery E ?sel b s1)") (auto simp: pick_best_def)
  have "pick_after_healing E ?sel s2 = (None, s')"
    using assms(1) s1 s2 by (auto simp: pick_best_def Let_def split: prod.splits)
  with h r [OF s2] sel [OF s1 _ assms(2)] show ?thesis by blast
qed

text \<open>
  C14. A turn goes round without sleeping because the diagnosis contradicts the selection only if other
  requests changed something between the two, the clock moved, or the jitter drawn anew made another
  interval. Without these, as when the rate limiter is off and nothing else runs, it never does, and the
  guard of 64 such turns is never reached.\<close>
theorem no_race_alone:
  assumes "acquire_turn model uid ex n started E l a = (t, l', a')"
    and "others_between E = (\<lambda>a. a)"
    and "\<forall>S\<in>{pick_env E, recovered_env E, healed_env E}.
      same_moment (manager (picker (others_before E a))) S (diagnose_env E)"
  shows "race_reselect_count l' = race_reselect_count l \<and> t \<noteq> Return (Err RaceNotConverging)"
proof -
  have diagnosed: "race_reselect_count l' = race_reselect_count l \<and> t \<noteq> Return (Err RaceNotConverging)"
    if "after_diagnosis E model ex started l b = (t, l', b')"
      "fst (transient_wait_outcome (diagnose_env E) model (picker b)) \<noteq> Available" for l b b'
    using that
    by (auto simp: after_diagnosis_def wait_for_cooling_def wait_for_capacity_def no_candidate_def Let_def split_beta
        split: wait_outcome.splits wait_reason.splits option.splits prod.splits if_splits)
  have picked: "race_reselect_count l' = race_reselect_count l \<and> t \<noteq> Return (Err RaceNotConverging)"
    if "with_picked E i l b = (t, l', b')" for i l b b'
    using that by (auto simp: with_picked_def refresh_failed_def Let_def split_beta split: prod.splits sum.splits if_splits)
  let ?pick = "pick_best E (\<lambda>S. select_next_credential S model uid ex) (recovery_attempted l) (picker (others_before E a))"
  obtain best s attempted where p: "?pick = (best, s, attempted)" by (cases ?pick) auto
  show ?thesis
  proof (cases "attempt_count l \<ge> n")
    case True
    then show ?thesis using assms(1) by (auto simp: acquire_turn_def Let_def)
  next
    case False
    show ?thesis
    proof (cases best)
      case None
      have "fst (transient_wait_outcome (diagnose_env E) model s) \<noteq> Available"
        using pick_none_unavailable [OF _ assms(3)] p None by blast
      then show ?thesis using diagnosed [of "l\<lparr>recovery_attempted := attempted\<rparr>" "others_before E a\<lparr>picker := s\<rparr>" a']
          assms(1,2) p None False by (simp add: acquire_turn_def Let_def)
    next
      case (Some i)
      then show ?thesis using picked [of i "l\<lparr>recovery_attempted := attempted\<rparr>" "others_before E a\<lparr>picker := set_current i s\<rparr>" a']
          assms(1) p False by (simp add: acquire_turn_def Let_def)
    qed
  qed
qed


subsection \<open>Witnesses\<close>

definition sample_acquire_env :: acquire_env where
  "sample_acquire_env =
     \<lparr>pick_env = sample_select_env, recovered_env = sample_select_env, healed_env = sample_select_env, heal_calls = sample_env, wall_time = sample_clock, heal_cfg = sample_heal,
      diagnose_env = sample_select_env, fast_fail = True, fallback_env = sample_select_env,
      fetching = sample_refresh_env\<lparr>while_asking := (\<lambda>m. m)\<rparr>,
      fallback_fetching = sample_refresh_env\<lparr>while_asking := (\<lambda>m. m)\<rparr>, report_env = sample_env,
      waited_at = secs 3, limit_draw = 0, limited_at = secs 3, others_before = (\<lambda>a. a), others_between = (\<lambda>a. a)\<rparr>"

definition sample_acquirer :: "credential_entry list \<Rightarrow> acquirer" where
  "sample_acquirer es =
     \<lparr>picker = sample_selector\<lparr>manager := sample_manager es\<rparr>, cells = sample_cells,
      exhaust_gate = \<lparr>gate_count = 0, window_start = 0\<rparr>\<rparr>"

text \<open>An empty pool: dead in the first turn.\<close>

lemma empty_pick:
  assumes "pool (manager s) = []"
  shows "pick_best E (\<lambda>S. select_next_credential S model uid ex) b s = (None, s, True)"
proof -
  let ?sel = "\<lambda>S. select_next_credential S model uid ex"
  have m: "manager s\<lparr>pool := []\<rparr> = manager s" using assms by (cases "manager s") simp
  have sel: "?sel S s = (None, s)" for S
    using assms m by (simp add: select_next_credential_def preferred_def not_tried_def)
  have "snd (recover_expired_quota_disables (heal_calls E) (wall_time E) (manager s)) = manager s \<and>
      fst (recover_expired_quota_disables (heal_calls E) (wall_time E) (manager s)) = 0"
    using assms m by (simp add: recover_expired_quota_disables_def penalties_of_def)
  then have r: "pick_after_recovery E ?sel b s = (None, s)"
    by (simp add: pick_after_recovery_def split_beta Let_def)
  have h: "pick_after_healing E ?sel s = (None, s)"
    using assms by (simp add: pick_after_healing_def any_healable_def Let_def)
  show ?thesis by (simp add: pick_best_def sel r h)
qed

lemma empty_turn:
  assumes "pool (manager (picker a)) = []" and "attempt_count l < n"
  shows "\<exists>l' a'. acquire_turn None None {} n 0 sample_acquire_env l a = (Return (Err AllDisabledForGood), l', a')"
proof -
  have e: "others_before sample_acquire_env = (\<lambda>a. a)" "others_between sample_acquire_env = (\<lambda>a. a)"
      "pick_env sample_acquire_env = sample_select_env"
    by (simp_all add: sample_acquire_env_def)
  have d: "transient_wait_outcome S None (picker a) = (NoCandidate, picker a)" for S
    using assms(1) by (simp add: transient_wait_outcome_def)
  have "fst (no_candidate sample_acquire_env None a) = AllDisabledForGood"
    using assms(1)
    by (simp add: no_candidate_def kiro_selectable_count_def any_healable_def enabled_relay_def all_kiro_out_of_quota_def Let_def)
  then show ?thesis
    using assms d empty_pick [OF assms(1)]
    by (simp add: acquire_turn_def after_diagnosis_def Let_def split_beta e)
qed

lemma empty_run:
  "\<exists>a'. acquire_context_excluding None None {} 0 (sample_acquire_env # Es) (sample_acquirer []) =
     (Some (Err AllDisabledForGood), [], a')"
proof -
  have p: "pool (manager (picker (sample_acquirer []))) = []" by (simp add: sample_acquirer_def sample_manager_def)
  let ?l = "\<lparr>attempt_count = 0, recovery_attempted = False, race_reselect_count = 0\<rparr>"
  have n: "attempt_count ?l < max_attempts_of (manager (picker (sample_acquirer [])))" by (simp add: max_attempts_of_def)
  show ?thesis using empty_turn [OF p n] by (auto simp: acquire_context_excluding_def)
qed


theorem acquire_keeps_pool_witness:
  "pool_inv (manager (picker (snd (snd (acquire_context_excluding None None {} 0 [sample_acquire_env] (sample_acquirer []))))))"
proof -
  let ?r = "acquire_context_excluding None None {} 0 [sample_acquire_env] (sample_acquirer [])"
  obtain r ds a' where r: "?r = (r, ds, a')" by (cases ?r) auto
  have "list_all others_keep_pool [sample_acquire_env]"
    by (simp add: others_keep_pool_def others_keep_def sample_acquire_env_def sample_refresh_env_def)
  from acquire_keeps_pool [OF r this] show ?thesis
    using r by (simp add: sample_acquirer_def sample_manager_def pool_inv_def ids_def)
qed

theorem one_place_in_flight_witness:
  "inflight_of (picker (snd (snd (acquire_context_excluding None None {} 0 [sample_acquire_env] (sample_acquirer []))))) =
     (\<lambda>_. 3)"
proof -
  obtain a' where r: "acquire_context_excluding None None {} 0 [sample_acquire_env] (sample_acquirer []) =
      (Some (Err AllDisabledForGood), [], a')"
    using empty_run [of "[]"] by auto
  have "list_all counts_kept [sample_acquire_env]" by (simp add: counts_kept_def sample_acquire_env_def)
  from one_place_in_flight [OF r this] show ?thesis
    using r by (simp add: sample_acquirer_def sample_selector_def)
qed

theorem dead_pool_is_dead_witness:
  "any_enabled (pool (manager (picker (snd (snd (acquire_context_excluding None None {} 0 [sample_acquire_env] (sample_acquirer []))))))) = False"
proof -
  obtain a' where r: "acquire_context_excluding None None {} 0 [sample_acquire_env] (sample_acquirer []) =
      (Some (Err AllDisabledForGood), [], a')"
    using empty_run [of "[]"] by auto
  show ?thesis using dead_pool_is_dead [OF r] r by (simp add: warranted_def dead_def Let_def)
qed

theorem no_race_alone_witness:
  "fst (acquire_turn None None {} 1 0 sample_acquire_env
     \<lparr>attempt_count = 0, recovery_attempted = False, race_reselect_count = 7\<rparr> (sample_acquirer [])) \<noteq>
     Return (Err RaceNotConverging)"
proof -
  let ?t = "acquire_turn None None {} 1 0 sample_acquire_env
     \<lparr>attempt_count = 0, recovery_attempted = False, race_reselect_count = 7\<rparr> (sample_acquirer [])"
  obtain t l' a' where t: "?t = (t, l', a')" by (cases ?t) auto
  show ?thesis using no_race_alone [OF t] t by (simp add: sample_acquire_env_def same_moment_def)
qed

end
